(* ===== verification/Prelude.thy ===== *)
theory Prelude
  imports Main "HOL-Library.Word" "HOL-Library.Sublist"
begin

text \<open>
  Shared vocabulary of the development: bytes and C strings, the string and number functions of
  the C library that the sources call (\<^verbatim>\<open>memchr\<close>, \<^verbatim>\<open>strstr\<close>, \<^verbatim>\<open>strncasecmp\<close>,
  \<^verbatim>\<open>strtoll\<close>, decimal \<^verbatim>\<open>snprintf\<close> conversions), and the list lemmas the components share.

  A C buffer is the list of its bytes.  A buffer that the code keeps NUL-terminated is modelled by
  its contents; the terminator is what a read one past the contents yields, so an exhausted list
  acts as NUL in the string functions below.  A C \<^verbatim>\<open>int\<close> result is an \<open>int\<close>; sizes that the code
  bounds by a constant are \<open>nat\<close>; quantities whose wrap-around matters are words.
\<close>

unbundle bit_operations_syntax

named_theorems world_simps \<open>how the environment primitives change each field of the world\<close>
named_theorems layout_simps \<open>sizes and offsets of the structures that cross the Unix socket\<close>

type_synonym byte = "8 word"
type_synonym bytes = "8 word list"
type_synonym u32 = "32 word"
type_synonym u64 = "64 word"

definition cs :: "string \<Rightarrow> bytes" where
  "cs s = map of_char s"

lemma length_cs [simp]: "length (cs s) = length s"
  by (simp add: cs_def)

abbreviation LF :: byte where "LF \<equiv> 10"
abbreviation CR :: byte where "CR \<equiv> 13"
abbreviation SP :: byte where "SP \<equiv> 32"
abbreviation HT :: byte where "HT \<equiv> 9"
abbreviation crlf :: bytes where "crlf \<equiv> [CR, LF]"


subsection \<open>Fixed-size C arrays\<close>

text \<open>\<open>memcpy\<close> of \<open>src\<close> over the start of an array; the rest of the array keeps its bytes.\<close>

definition overwrite :: "bytes \<Rightarrow> bytes \<Rightarrow> bytes" where
  "overwrite dst src = src @ drop (length src) dst"

lemma length_overwrite [simp]:
  "length src \<le> length dst \<Longrightarrow> length (overwrite dst src) = length dst"
  by (simp add: overwrite_def)

lemma take_overwrite [simp]: "take (length src) (overwrite dst src) = src"
  by (simp add: overwrite_def)

lemma overwrite_full: "length src = length dst \<Longrightarrow> overwrite dst src = src"
  by (simp add: overwrite_def)

definition zeros :: "nat \<Rightarrow> bytes" where
  "zeros n = replicate n 0"

lemma length_zeros [simp]: "length (zeros n) = n"
  by (simp add: zeros_def)

text \<open>The NUL-terminated string at the start of a buffer, and storing one into an array.\<close>

definition cstr :: "bytes \<Rightarrow> bytes" where
  "cstr b = takeWhile (\<lambda>c. c \<noteq> 0) b"

definition put_cstr :: "nat \<Rightarrow> bytes \<Rightarrow> bytes" where
  "put_cstr n s = s @ zeros (n - length s)"

lemma takeWhile_append_stop: "\<forall>x\<in>set xs. P x \<Longrightarrow> \<not> P y \<Longrightarrow> takeWhile P (xs @ y # ys) = xs"
  by (induction xs) auto

lemma takeWhile_all: "\<forall>x\<in>set xs. P x \<Longrightarrow> takeWhile P xs = xs"
  by (induction xs) auto

lemma cstr_id: "0 \<notin> set s \<Longrightarrow> cstr s = s"
  by (auto simp: cstr_def intro!: takeWhile_all)

lemma cstr_nul: "0 \<notin> set s \<Longrightarrow> cstr (s @ 0 # r) = s"
  by (auto simp: cstr_def intro!: takeWhile_append_stop)

lemma cstr_no_nul: "0 \<notin> set (cstr b)"
  unfolding cstr_def by (metis (mono_tags) set_takeWhileD)

lemma length_put_cstr: "length s \<le> n \<Longrightarrow> length (put_cstr n s) = n"
  by (simp add: put_cstr_def)

lemma cstr_put_cstr: "0 \<notin> set s \<Longrightarrow> cstr (put_cstr n s) = s"
proof -
  assume s: "0 \<notin> set s"
  show ?thesis
  proof (cases "n - length s")
    case 0
    with s show ?thesis by (simp add: put_cstr_def zeros_def cstr_id)
  next
    case (Suc k)
    with s show ?thesis by (simp add: put_cstr_def zeros_def cstr_nul)
  qed
qed


subsection \<open>Searching\<close>

text \<open>The first position at which \<open>n\<close> is a prefix of the rest of the buffer.\<close>

fun find_at :: "bytes \<Rightarrow> bytes \<Rightarrow> nat option" where
  "find_at n [] = (if n = [] then Some 0 else None)"
| "find_at n (x # xs) =
     (if take (length n) (x # xs) = n then Some 0 else map_option Suc (find_at n xs))"

lemma find_at_Some:
  "find_at n h = Some i \<Longrightarrow> i + length n \<le> length h \<and> take (length n) (drop i h) = n"
proof (induction h arbitrary: i)
  case Nil
  then show ?case by (simp split: if_splits)
next
  case (Cons x xs)
  show ?case
  proof (cases "take (length n) (x # xs) = n")
    case True
    with Cons.prems have "i = 0" by simp
    moreover have "length n \<le> length (x # xs)"
      using arg_cong [OF True, of length] by simp
    ultimately show ?thesis using True by simp
  next
    case False
    with Cons.prems obtain j where "find_at n xs = Some j" "i = Suc j" by auto
    with Cons.IH show ?thesis by simp
  qed
qed

lemma find_at_first:
  "find_at n h = Some i \<Longrightarrow> j < i \<Longrightarrow> take (length n) (drop j h) \<noteq> n"
proof (induction h arbitrary: i j)
  case Nil
  then show ?case by (simp split: if_splits)
next
  case (Cons x xs)
  then show ?case by (cases j) (auto split: if_splits)
qed

lemma find_at_None:
  "find_at n h = None \<longleftrightarrow> (\<forall>i \<le> length h. take (length n) (drop i h) \<noteq> n)"
proof (induction h)
  case Nil
  then show ?case by simp
next
  case (Cons x xs)
  have "(\<forall>i \<le> length (x # xs). take (length n) (drop i (x # xs)) \<noteq> n) \<longleftrightarrow>
        take (length n) (x # xs) \<noteq> n \<and> (\<forall>i \<le> length xs. take (length n) (drop i xs) \<noteq> n)"
    by (auto simp: All_less_Suc2 le_Suc_eq all_simps less_Suc_eq_le [symmetric]
        simp flip: less_Suc_eq_le split: if_splits)
  with Cons show ?case by simp
qed

text \<open>\<open>memchr\<close> over the first \<open>n\<close> bytes: the index of the first \<open>c\<close>.\<close>

fun memchr :: "bytes \<Rightarrow> byte \<Rightarrow> nat \<Rightarrow> nat option" where
  "memchr b c 0 = None"
| "memchr [] c (Suc n) = None"
| "memchr (x # xs) c (Suc n) = (if x = c then Some 0 else map_option Suc (memchr xs c n))"

lemma memchr_Some:
  "memchr b c n = Some i \<Longrightarrow> i < n \<and> i < length b \<and> b ! i = c \<and> (\<forall>j < i. b ! j \<noteq> c)"
proof (induction b c n arbitrary: i rule: memchr.induct)
  case (3 x xs c n)
  show ?case
  proof (cases "x = c")
    case True
    with 3 show ?thesis by simp
  next
    case False
    with "3.prems" obtain j where j: "memchr xs c n = Some j" "i = Suc j" by auto
    from "3.IH" [OF False j(1)] j(2) False show ?thesis
      by (auto simp: All_less_Suc2 nth_Cons split: nat.splits)
  qed
qed auto

lemma memchr_less [simp]: "memchr b c n = Some i \<Longrightarrow> i < n"
  using memchr_Some by blast

lemma memchr_None: "memchr b c n = None \<longleftrightarrow> c \<notin> set (take n b)"
  by (induction b c n rule: memchr.induct) auto

lemma memchr_append:
  "c \<notin> set p \<Longrightarrow> length p < n \<Longrightarrow> memchr (p @ c # r) c n = Some (length p)"
proof (induction p arbitrary: n)
  case Nil
  then show ?case by (cases n) auto
next
  case (Cons x p)
  then show ?case by (cases n) auto
qed

lemma memchr_eq_length_takeWhile:
  "memchr b c (length b) = (if c \<in> set b then Some (length (takeWhile (\<lambda>x. x \<noteq> c) b)) else None)"
  by (induction b) auto

text \<open>\<open>strstr\<close>: both arguments are C strings.\<close>

definition strstr :: "bytes \<Rightarrow> bytes \<Rightarrow> nat option" where
  "strstr h n = find_at n (cstr h)"

definition strstr_found :: "bytes \<Rightarrow> bytes \<Rightarrow> bool" where
  "strstr_found h n = (strstr h n \<noteq> None)"


subsection \<open>Case-insensitive comparison\<close>

definition tolower :: "byte \<Rightarrow> byte" where
  "tolower c = (if 65 \<le> c \<and> c \<le> 90 then c + 32 else c)"

text \<open>
  \<open>strncasecmp(a, b, n) == 0\<close>: the strings agree up to case for \<open>n\<close> characters or up to a common
  terminator.
\<close>

fun strncasecmp_eq :: "bytes \<Rightarrow> bytes \<Rightarrow> nat \<Rightarrow> bool" where
  "strncasecmp_eq a b 0 = True"
| "strncasecmp_eq [] b (Suc n) = (case b of [] \<Rightarrow> True | y # _ \<Rightarrow> y = 0)"
| "strncasecmp_eq (x # xs) b (Suc n) =
     (case b of
        [] \<Rightarrow> x = 0
      | y # ys \<Rightarrow> if tolower x \<noteq> tolower y then False
                  else if x = 0 then True
                  else strncasecmp_eq xs ys n)"

lemma strncasecmp_eq_iff:
  "0 \<notin> set n \<Longrightarrow>
   strncasecmp_eq h n (length n) \<longleftrightarrow> map tolower (take (length n) h) = map tolower n"
proof (induction n arbitrary: h)
  case Nil
  then show ?case by simp
next
  case (Cons y ys)
  show ?case
  proof (cases h)
    case Nil
    with Cons.prems show ?thesis by auto
  next
    case (Cons x xs)
    have "x = 0 \<Longrightarrow> tolower x = tolower y \<Longrightarrow> y = 0"
      by (auto simp: tolower_def split: if_splits)
         (unat_arith, auto simp: unat_word_ariths)
    with Cons Cons.IH Cons.prems show ?thesis by auto
  qed
qed


subsection \<open>Numbers\<close>

text \<open>The decimal conversions \<open>%zu\<close>, \<open>%d\<close>, \<open>%lld\<close> of \<open>snprintf\<close>.\<close>

fun dec_digits :: "nat \<Rightarrow> bytes" where
  "dec_digits n =
     (if n < 10 then [48 + of_nat n] else dec_digits (n div 10) @ [48 + of_nat (n mod 10)])"

declare dec_digits.simps [simp del]

definition dec_int :: "int \<Rightarrow> bytes" where
  "dec_int i = (if i < 0 then 45 # dec_digits (nat (- i)) else dec_digits (nat i))"

definition isdigit :: "byte \<Rightarrow> bool" where
  "isdigit c = (48 \<le> c \<and> c \<le> 57)"

definition isspace :: "byte \<Rightarrow> bool" where
  "isspace c = (c = 32 \<or> (9 \<le> c \<and> c \<le> 13))"

fun digits_value :: "nat \<Rightarrow> bytes \<Rightarrow> nat" where
  "digits_value acc [] = acc"
| "digits_value acc (c # r) = digits_value (10 * acc + unat (c - 48)) r"

definition LLONG_MAX :: int where "LLONG_MAX = 2 ^ 63 - 1"
definition LLONG_MIN :: int where "LLONG_MIN = - (2 ^ 63)"

text \<open>
  \<open>strtoll(v, &end, 10)\<close>: leading white space, an optional sign, decimal digits.  The result is the
  value (saturated), the number of bytes up to \<open>end\<close> (0 when there is no number) and whether
  \<open>errno\<close> is \<open>ERANGE\<close>.
\<close>

definition strtoll :: "bytes \<Rightarrow> int \<times> nat \<times> bool" where
  "strtoll v =
     (let ws = takeWhile isspace v;
          r0 = dropWhile isspace v;
          sg = (case r0 of c # _ \<Rightarrow> if c = 43 \<or> c = 45 then 1 else 0 | [] \<Rightarrow> 0);
          neg = (case r0 of c # _ \<Rightarrow> c = 45 | [] \<Rightarrow> False);
          ds = takeWhile isdigit (drop sg r0);
          m = int (digits_value 0 ds);
          val = (if neg then - m else m)
      in if ds = [] then (0, 0, False)
         else if LLONG_MAX < val then (LLONG_MAX, length ws + sg + length ds, True)
         else if val < LLONG_MIN then (LLONG_MIN, length ws + sg + length ds, True)
         else (val, length ws + sg + length ds, False))"

lemma digits_value_append: "digits_value acc (xs @ ys) = digits_value (digits_value acc xs) ys"
  by (induction xs arbitrary: acc) auto

lemma unat_digit: "d < 10 \<Longrightarrow> unat (of_nat d :: byte) = d"
  by (simp add: unat_of_nat)

lemma isdigit_digit: "d < 10 \<Longrightarrow> isdigit (48 + of_nat d)"
proof -
  assume d: "d < 10"
  have "unat (48 + of_nat d :: byte) = 48 + d"
    using d by (simp add: unat_word_ariths unat_of_nat)
  with d show ?thesis by (simp add: isdigit_def word_le_nat_alt)
qed

lemma dec_digits_isdigit: "c \<in> set (dec_digits n) \<Longrightarrow> isdigit c"
proof (induction n rule: dec_digits.induct)
  case (1 n)
  then show ?case
    by (cases "n < 10") (auto simp: dec_digits.simps [of n] isdigit_digit)
qed

lemma dec_digits_nonempty [simp]: "dec_digits n \<noteq> []"
  by (simp add: dec_digits.simps [of n])

lemma digits_value_dec_digits: "digits_value 0 (dec_digits n) = n"
proof (induction n rule: dec_digits.induct)
  case (1 n)
  show ?case
  proof (cases "n < 10")
    case True
    then show ?thesis by (simp add: dec_digits.simps [of n] unat_digit)
  next
    case False
    with 1 have "digits_value 0 (dec_digits (n div 10)) = n div 10" by simp
    with False show ?thesis
      by (simp add: dec_digits.simps [of n] digits_value_append unat_digit)
  qed
qed

lemma length_dec_digits: "n < 10 ^ Suc k \<Longrightarrow> length (dec_digits n) \<le> Suc k"
proof (induction k arbitrary: n)
  case 0
  then show ?case by (simp add: dec_digits.simps [of n])
next
  case (Suc k)
  have "n div 10 < 10 ^ Suc k" using Suc.prems by auto
  then have "length (dec_digits (n div 10)) \<le> Suc k" by (rule Suc.IH)
  then show ?case by (subst dec_digits.simps) simp
qed

lemma isdigit_not_isspace: "isdigit c \<Longrightarrow> \<not> isspace c"
  by (auto simp: isdigit_def isspace_def word_le_nat_alt)

lemma isdigit_not_sign: "isdigit c \<Longrightarrow> c \<noteq> 43 \<and> c \<noteq> 45"
  by (auto simp: isdigit_def word_le_nat_alt)

text \<open>Printing a number and reading it back: the two conversions the HTTP code relies on.\<close>

lemma strtoll_dec_digits:
  assumes n: "int n \<le> LLONG_MAX" and r: "r = [] \<or> \<not> isdigit (hd r)"
  shows "strtoll (dec_digits n @ r) = (int n, length (dec_digits n), False)"
proof -
  obtain c ds where d: "dec_digits n = c # ds"
    by (cases "dec_digits n") auto
  have c: "isdigit c" using dec_digits_isdigit [of c n] d by simp
  have all: "\<forall>x\<in>set (c # ds). isdigit x" using dec_digits_isdigit [of _ n] d by auto
  have tw: "takeWhile isdigit (c # ds @ r) = c # ds"
    using all r by (cases r) (auto simp: takeWhile_append takeWhile_all)
  have v: "digits_value 0 (c # ds) = n" using digits_value_dec_digits [of n] d by simp
  have "\<not> isspace c" "c \<noteq> 43" "c \<noteq> 45"
    using c isdigit_not_isspace isdigit_not_sign by auto
  then show ?thesis
    using n tw v by (simp add: strtoll_def d Let_def LLONG_MIN_def)
qed

text \<open>A value stored in an \<^verbatim>\<open>int\<close> of 32 bits, the numbers that fit, and how they print.\<close>

definition c_int :: "int \<Rightarrow> int" where
  "c_int v = sint (word_of_int v :: u32)"

definition int32 :: "int \<Rightarrow> bool" where
  "int32 v = (- (2 ^ 31) \<le> v \<and> v < 2 ^ 31)"

lemma c_int_id: "int32 v \<Longrightarrow> c_int v = v"
  by (simp add: int32_def c_int_def sint_word_ariths signed_of_int signed_take_bit_int_eq_self)

lemma int32_c_int: "int32 (c_int v)"
  using sint_greater_eq [of "word_of_int v :: u32"] sint_less [of "word_of_int v :: u32"] by (simp add: int32_def c_int_def)

lemma dec_int_chars: "c \<in> set (dec_int a) \<Longrightarrow> isdigit c \<or> c = 45"
  using dec_digits_isdigit by (auto simp: dec_int_def split: if_splits)

lemma isdigit_code: "\<not> isdigit 0" "\<not> isdigit SP" "\<not> isdigit CR" "\<not> isdigit LF" "isdigit 48" "\<not> isdigit 45"
  "\<not> isspace 45"
  by (simp_all add: isdigit_def isspace_def word_le_nat_alt)

lemma dec_int_no: "0 \<notin> set (dec_int a)" "LF \<notin> set (dec_int a)" "CR \<notin> set (dec_int a)"
  using dec_int_chars [of _ a] isdigit_code by fastforce+

lemma strtoll_dec_int:
  assumes "LLONG_MIN \<le> a" "a \<le> LLONG_MAX" "r = [] \<or> \<not> isdigit (hd r)"
  shows "strtoll (dec_int a @ r) = (a, length (dec_int a), False)"
proof (cases "a < 0")
  case False
  then show ?thesis using strtoll_dec_digits [of "nat a" r] assms by (simp add: dec_int_def)
next
  case True
  let ?d = "dec_digits (nat (- a))"
  have all: "\<forall>x \<in> set ?d. isdigit x" using dec_digits_isdigit by blast
  have tw: "takeWhile isdigit (?d @ r) = ?d"
    using all assms(3) by (cases r) (auto simp: takeWhile_append takeWhile_all)
  show ?thesis
    using True assms tw digits_value_dec_digits [of "nat (- a)"]
    by (simp add: dec_int_def strtoll_def Let_def isdigit_code LLONG_MAX_def)
qed

lemma length_dec_int32: "int32 a \<Longrightarrow> length (dec_int a) \<le> 11"
proof -
  assume a: "int32 a"
  have "nat a < 10 ^ Suc 9" "nat (- a) < 10 ^ Suc 9" using a unfolding int32_def by (simp_all, arith+)
  then have "length (dec_digits (nat a)) \<le> 10" "length (dec_digits (nat (- a))) \<le> 10"
    using length_dec_digits [of "nat a" 9] length_dec_digits [of "nat (- a)" 9] by simp_all
  then show ?thesis by (simp add: dec_int_def)
qed

end
