(* ===== verification/Posix.thy ===== *)
theory Posix
  imports Prelude
begin

text \<open>
  The environment of one process: the POSIX calls the sources make and the wolfSSL library they
  link against.

  \<^item> The kernel part is concrete.  A process has a table of open descriptors; a call that creates a
    descriptor returns the lowest free one, \<open>close\<close> removes one (or records that it was not open).
    Each connection has a queue of received bytes that a peek reads and leaves in place.
  \<^item> What the environment decides (a call fails, what a peer sends, how much a write accepts, what
    the clock says) comes from \<open>script\<close>, the list of answers in call order.  A theorem for every
    script is a theorem for every behaviour of the environment.  An exhausted script answers
    with an error, so every loop that retries a call consumes answers and stops; an execution
    that retries for ever is the limit of the finite ones and has no final state to speak of.
  \<^item> wolfSSL is not part of this repository.  It is the parameter \<open>'s wolfssl\<close>: a session is a
    value of the arbitrary type \<open>'s\<close>, and the record gives the library's functions on it.
    Sessions live in a store addressed by pointers, so that the sharing of one session by several
    structures, its release, and a use after release are visible.
  \<^item> \<open>ub\<close> records undefined behaviour: an access through a freed or wild session pointer, or a
    store outside an array.
\<close>

subsection \<open>Answers of the environment, events, the world\<close>

datatype err =
    ENONE | EAGAIN | EINTR | EEXIST | EINVAL | ENOMEM | EPROTO | EIO | EMSGSIZE | EOTHER
  | WANT_READ | WANT_WRITE

record cmsghdr =
  cmsg_level :: int
  cmsg_type :: int
  cmsg_len :: nat

datatype answer =
    Ok int
  | Data bytes
  | Msg bytes "cmsghdr option" bool \<comment> \<open>\<open>recvmsg\<close>: data, first control message, \<open>MSG_CTRUNC\<close>\<close>
  | Err err

datatype event =
    EvClose int
  | EvBadClose int
  | EvConnect int bytes
  | EvListen int bytes
  | EvUnlink bytes
  | EvSendFd int int bytes
  | EvWrite int bytes
  | EvSslWrite nat bytes
  | EvSslShutdown nat
  | EvSslFree nat
  | EvEpollAdd int
  | EvEpollMod int bool
  | EvEpollDel int
  | EvNonblock int
  | EvMkdir bytes
  | EvChmod bytes

record 's world =
  script :: "answer list"
  errno :: err
  fds :: "int list"
  rxq :: "int \<Rightarrow> bytes"
  ssls :: "nat \<Rightarrow> 's option"
  next_ssl :: nat
  log :: "event list" \<comment> \<open>latest first\<close>
  ub :: bool

definition boot :: "answer list \<Rightarrow> 's world" where
  "boot a = \<lparr>script = a, errno = ENONE, fds = [], rxq = (\<lambda>_. []), ssls = (\<lambda>_. None),
             next_ssl = 0, log = [], ub = False\<rparr>"

lemma boot_simps [simp]:
  "script (boot a) = a" "errno (boot a) = ENONE" "fds (boot a) = []" "rxq (boot a) = (\<lambda>_. [])"
  "ssls (boot a) = (\<lambda>_. None)" "next_ssl (boot a) = 0" "log (boot a) = []" "\<not> ub (boot a)"
  by (simp_all add: boot_def)

definition emit :: "event \<Rightarrow> 's world \<Rightarrow> 's world" where
  "emit e w = w\<lparr>log := e # log w\<rparr>"

definition flag_ub :: "bool \<Rightarrow> 's world \<Rightarrow> 's world" where
  "flag_ub b w = w\<lparr>ub := ub w \<or> b\<rparr>"

definition set_errno :: "err \<Rightarrow> 's world \<Rightarrow> 's world" where
  "set_errno e w = w\<lparr>errno := e\<rparr>"

definition next_answer :: "'s world \<Rightarrow> answer \<times> 's world" where
  "next_answer w =
     (case script w of [] \<Rightarrow> (Err EOTHER, w) | a # as \<Rightarrow> (a, w\<lparr>script := as\<rparr>))"


subsection \<open>Calls that return a status, a value, a new descriptor\<close>

definition sys_status :: "'s world \<Rightarrow> int \<times> 's world" where
  "sys_status w =
     (let (a, w) = next_answer w
      in case a of Err e \<Rightarrow> (-1, set_errno e w) | _ \<Rightarrow> (0, w))"

definition sys_value :: "'s world \<Rightarrow> int \<times> 's world" where
  "sys_value w =
     (let (a, w) = next_answer w
      in case a of Err e \<Rightarrow> (-1, set_errno e w) | Ok v \<Rightarrow> (max 0 v, w) | _ \<Rightarrow> (0, w))"

definition sys_alloc :: "'s world \<Rightarrow> bool \<times> 's world" where
  "sys_alloc w = (let (r, w) = sys_status w in (r = 0, w))"

definition lowest_free :: "int list \<Rightarrow> int" where
  "lowest_free l = hd (filter (\<lambda>i. i \<notin> set l) (map int [0 ..< Suc (length l)]))"

definition sys_newfd :: "'s world \<Rightarrow> int \<times> 's world" where
  "sys_newfd w =
     (let (a, w) = next_answer w
      in case a of
           Err e \<Rightarrow> (-1, set_errno e w)
         | _ \<Rightarrow> (let fd = lowest_free (fds w) in (fd, w\<lparr>fds := fd # fds w\<rparr>)))"

definition close :: "int \<Rightarrow> 's world \<Rightarrow> 's world" where
  "close fd w =
     (if fd \<in> set (fds w) then emit (EvClose fd) (w\<lparr>fds := remove1 fd (fds w)\<rparr>)
      else emit (EvBadClose fd) w)"

definition close_if_open :: "int \<Rightarrow> 's world \<Rightarrow> 's world" where
  "close_if_open fd w = (if 0 \<le> fd then close fd w else w)"

definition clock_ns :: "'s world \<Rightarrow> u64 \<times> 's world" where
  "clock_ns w =
     (let (a, w) = next_answer w
      in case a of Ok v \<Rightarrow> (of_int v, w) | _ \<Rightarrow> (0, w))"


subsection \<open>Sockets\<close>

text \<open>\<open>recv(fd, buf, n, MSG_PEEK)\<close>: a copy of the front of the queue, which stays.\<close>

definition recv_peek :: "int \<Rightarrow> nat \<Rightarrow> 's world \<Rightarrow> (int \<times> bytes) \<times> 's world" where
  "recv_peek fd n w =
     (let (r, w) = sys_status w;
          bs = take n (rxq w fd)
      in if r < 0 then ((-1, []), w) else ((int (length bs), bs), w))"

definition ioctl_fionread :: "int \<Rightarrow> 's world \<Rightarrow> (int \<times> nat) \<times> 's world" where
  "ioctl_fionread fd w = (let (r, w) = sys_status w in ((r, length (rxq w fd)), w))"

definition SOL_SOCKET :: int where "SOL_SOCKET = 1"
definition SCM_RIGHTS :: int where "SCM_RIGHTS = 1"
definition CMSG_LEN_int :: nat where "CMSG_LEN_int = 20"

definition fd_cmsg :: cmsghdr where
  "fd_cmsg = \<lparr>cmsg_level = SOL_SOCKET, cmsg_type = SCM_RIGHTS, cmsg_len = CMSG_LEN_int\<rparr>"

text \<open>\<open>sendmsg\<close> of one descriptor and a payload; a stream may accept a prefix of the payload.\<close>

definition sendmsg_fd :: "int \<Rightarrow> int \<Rightarrow> bytes \<Rightarrow> 's world \<Rightarrow> int \<times> 's world" where
  "sendmsg_fd sock fd payload w =
     (let (a, w) = next_answer w
      in case a of
           Err e \<Rightarrow> (-1, set_errno e w)
         | Ok v \<Rightarrow> (int (length (take (nat v) payload)),
                    emit (EvSendFd sock fd (take (nat v) payload)) w)
         | _ \<Rightarrow> (int (length payload), emit (EvSendFd sock fd payload) w))"

text \<open>
  \<open>recvmsg\<close> into \<open>n\<close> bytes and a control buffer.  A control message that carries rights installs
  its descriptors in the table of the receiver; the result names the first one.
\<close>

record rmsg =
  rm_data :: bytes
  rm_cmsg :: "cmsghdr option"
  rm_fd :: int
  rm_ctrunc :: bool

fun install_fds :: "nat \<Rightarrow> 's world \<Rightarrow> int list \<times> 's world" where
  "install_fds 0 w = ([], w)"
| "install_fds (Suc k) w =
     (let fd = lowest_free (fds w); (r, w) = install_fds k (w\<lparr>fds := fd # fds w\<rparr>) in (fd # r, w))"

definition rights_count :: "cmsghdr option \<Rightarrow> nat" where
  "rights_count c =
     (case c of
        None \<Rightarrow> 0
      | Some h \<Rightarrow> if cmsg_level h = SOL_SOCKET \<and> cmsg_type h = SCM_RIGHTS
                 then (cmsg_len h - 16) div 4 else 0)"

definition recvmsg :: "nat \<Rightarrow> 's world \<Rightarrow> (int \<times> rmsg) \<times> 's world" where
  "recvmsg n w =
     (let (a, w) = next_answer w;
          none = \<lparr>rm_data = [], rm_cmsg = None, rm_fd = -1, rm_ctrunc = False\<rparr>
      in case a of
           Err e \<Rightarrow> ((-1, none), set_errno e w)
         | Msg d c t \<Rightarrow>
             (let (l, w) = install_fds (rights_count c) w
              in ((int (length (take n d)),
                   \<lparr>rm_data = take n d, rm_cmsg = c, rm_fd = (case l of [] \<Rightarrow> -1 | f # _ \<Rightarrow> f),
                    rm_ctrunc = t\<rparr>), w))
         | Data d \<Rightarrow> ((int (length (take n d)), none\<lparr>rm_data := take n d\<rparr>), w)
         | Ok _ \<Rightarrow> ((0, none), w))"

definition sys_write :: "int \<Rightarrow> bytes \<Rightarrow> 's world \<Rightarrow> int \<times> 's world" where
  "sys_write fd buf w =
     (let (a, w) = next_answer w
      in case a of
           Err e \<Rightarrow> (-1, set_errno e w)
         | Ok v \<Rightarrow> (int (length (take (nat v) buf)), emit (EvWrite fd (take (nat v) buf)) w)
         | _ \<Rightarrow> (int (length buf), emit (EvWrite fd buf) w))"

definition sys_read :: "nat \<Rightarrow> 's world \<Rightarrow> (int \<times> bytes) \<times> 's world" where
  "sys_read n w =
     (let (a, w) = next_answer w
      in case a of
           Err e \<Rightarrow> ((-1, []), set_errno e w)
         | Data d \<Rightarrow> ((int (length (take n d)), take n d), w)
         | _ \<Rightarrow> ((0, []), w))"


text \<open>
  A server that forks for each connection: it accepts, forks and closes its copy.  The first result is the child,
  when there is one: its connection and the world it starts from, which has the descriptors of the parent.
\<close>

definition accept_fork :: "'s world \<Rightarrow> (int \<times> 's world) option \<times> 's world" where
  "accept_fork w =
     (let (conn, w) = sys_newfd w
      in if conn < 0 then (None, w)
         else (let (pid, w) = sys_status w in (if pid = 0 then Some (conn, w) else None, close conn w)))"


subsection \<open>wolfSSL: the parameter and the calls on the session store\<close>

record 's wolfssl =
  ws_fresh :: 's
  ws_set_fd :: "int \<Rightarrow> 's \<Rightarrow> 's"
  ws_accept :: "answer \<Rightarrow> 's \<Rightarrow> (int \<times> bytes) list \<times> 's"
    \<comment> \<open>the secrets handed to the callback during the call, and the session after it\<close>
  ws_cipher_name :: "'s \<Rightarrow> bytes option"
  ws_read :: "answer \<Rightarrow> nat \<Rightarrow> 's \<Rightarrow> 's"
  ws_write :: "answer \<Rightarrow> bytes \<Rightarrow> 's \<Rightarrow> 's"
  ws_export :: "'s \<Rightarrow> int \<times> bytes"
  ws_import :: "bytes \<Rightarrow> 's \<Rightarrow> int \<times> 's"
  ws_client_key :: "'s \<Rightarrow> bytes option"
  ws_client_iv :: "'s \<Rightarrow> bytes option"
  ws_key_size :: "'s \<Rightarrow> int"
  ws_iv_size :: "'s \<Rightarrow> int"
  ws_peer_seq :: "'s \<Rightarrow> int \<times> u64"
  ws_pending :: "'s \<Rightarrow> int"

definition wolfSSL_new :: "'s wolfssl \<Rightarrow> 's world \<Rightarrow> nat option \<times> 's world" where
  "wolfSSL_new L w =
     (let (ok, w) = sys_alloc w; p = next_ssl w
      in if ok then (Some p, w\<lparr>ssls := (ssls w)(p \<mapsto> ws_fresh L), next_ssl := Suc p\<rparr>)
         else (None, w))"

definition ssl_live :: "nat \<Rightarrow> 's world \<Rightarrow> bool" where
  "ssl_live p w = (ssls w p \<noteq> None)"

definition ssl_modify :: "('s \<Rightarrow> 's) \<Rightarrow> nat \<Rightarrow> 's world \<Rightarrow> 's world" where
  "ssl_modify f p w =
     (case ssls w p of None \<Rightarrow> flag_ub True w | Some s \<Rightarrow> w\<lparr>ssls := (ssls w)(p \<mapsto> f s)\<rparr>)"

definition wolfSSL_set_fd :: "'s wolfssl \<Rightarrow> nat \<Rightarrow> int \<Rightarrow> 's world \<Rightarrow> 's world" where
  "wolfSSL_set_fd L p fd w = ssl_modify (ws_set_fd L fd) p w"

definition wolfSSL_free :: "nat \<Rightarrow> 's world \<Rightarrow> 's world" where
  "wolfSSL_free p w =
     (case ssls w p of
        None \<Rightarrow> flag_ub True w
      | Some s \<Rightarrow> emit (EvSslFree p) (w\<lparr>ssls := (ssls w)(p := None)\<rparr>))"

definition wolfSSL_shutdown :: "nat \<Rightarrow> 's world \<Rightarrow> 's world" where
  "wolfSSL_shutdown p w = flag_ub (\<not> ssl_live p w) (emit (EvSslShutdown p) w)"

definition io_error :: "answer \<Rightarrow> err" where
  "io_error a = (case a of Err e \<Rightarrow> e | _ \<Rightarrow> EOTHER)"

text \<open>The bytes a read of at most \<open>n\<close> delivers, the number of bytes a write accepts.\<close>

definition read_bytes :: "answer \<Rightarrow> nat \<Rightarrow> bytes" where
  "read_bytes a n = (case a of Data d \<Rightarrow> take n d | _ \<Rightarrow> [])"

definition write_count :: "answer \<Rightarrow> bytes \<Rightarrow> nat" where
  "write_count a buf = (case a of Ok v \<Rightarrow> min (nat v) (length buf) | Err e \<Rightarrow> 0 | _ \<Rightarrow> length buf)"

definition wolfSSL_read ::
  "'s wolfssl \<Rightarrow> nat \<Rightarrow> nat \<Rightarrow> 's world \<Rightarrow> (int \<times> bytes \<times> err) \<times> 's world" where
  "wolfSSL_read L p n w =
     (let (a, w) = next_answer w;
          bs = read_bytes a n;
          w = ssl_modify (ws_read L a n) p w
      in if bs = [] then ((-1, [], io_error a), w)
         else ((int (length bs), bs, ENONE), w))"

definition wolfSSL_write ::
  "'s wolfssl \<Rightarrow> nat \<Rightarrow> bytes \<Rightarrow> 's world \<Rightarrow> (int \<times> err) \<times> 's world" where
  "wolfSSL_write L p buf w =
     (let (a, w) = next_answer w;
          k = write_count a buf;
          w = ssl_modify (ws_write L a buf) p w
      in if k = 0 then ((-1, io_error a), w)
         else ((int k, ENONE), emit (EvSslWrite p (take k buf)) w))"

definition wolfSSL_accept ::
  "'s wolfssl \<Rightarrow> nat \<Rightarrow> 's world \<Rightarrow> (bool \<times> err \<times> (int \<times> bytes) list) \<times> 's world" where
  "wolfSSL_accept L p w =
     (let (a, w) = next_answer w
      in case ssls w p of
           None \<Rightarrow> ((False, EOTHER, []), flag_ub True w)
         | Some s \<Rightarrow>
             (let (secrets, s') = ws_accept L a s;
                  w = w\<lparr>ssls := (ssls w)(p \<mapsto> s')\<rparr>
              in (case a of Err e \<Rightarrow> ((False, e, secrets), w) | _ \<Rightarrow> ((True, ENONE, secrets), w))))"

text \<open>Queries of a session; through a dead pointer they are undefined behaviour.\<close>

definition ssl_query :: "('s \<Rightarrow> 'a) \<Rightarrow> 'a \<Rightarrow> nat \<Rightarrow> 's world \<Rightarrow> 'a \<times> 's world" where
  "ssl_query f d p w =
     (case ssls w p of None \<Rightarrow> (d, flag_ub True w) | Some s \<Rightarrow> (f s, w))"

definition wolfSSL_tls_export :: "'s wolfssl \<Rightarrow> nat \<Rightarrow> 's world \<Rightarrow> (int \<times> bytes) \<times> 's world" where
  "wolfSSL_tls_export L p w = ssl_query (ws_export L) (-1, []) p w"

definition wolfSSL_tls_import :: "'s wolfssl \<Rightarrow> nat \<Rightarrow> bytes \<Rightarrow> 's world \<Rightarrow> int \<times> 's world" where
  "wolfSSL_tls_import L p blob w =
     (case ssls w p of
        None \<Rightarrow> (-1, flag_ub True w)
      | Some s \<Rightarrow> (let (r, s') = ws_import L blob s in (r, w\<lparr>ssls := (ssls w)(p \<mapsto> s')\<rparr>)))"


subsection \<open>How the primitives change the world\<close>

text \<open>
  The sessions that exist.  A well-formed store hands out pointers that were never used before.
\<close>

definition live :: "'s world \<Rightarrow> nat set" where
  "live w = dom (ssls w)"

definition ssl_wf :: "'s world \<Rightarrow> bool" where
  "ssl_wf w = (\<forall>p \<in> live w. p < next_ssl w)"

lemma ssl_live_iff: "ssl_live p w \<longleftrightarrow> p \<in> live w"
  by (auto simp: ssl_live_def live_def)

lemma ssl_wf_fresh: "ssl_wf w \<Longrightarrow> next_ssl w \<notin> live w"
  by (auto simp: ssl_wf_def)

lemma live_iff: "p \<in> live w \<longleftrightarrow> (\<exists>s. ssls w p = Some s)"
  by (auto simp: live_def)

lemma live_boot [simp]: "live (boot a) = {}"
  by (simp add: live_def)

lemma lowest_free_fresh: "lowest_free l \<notin> set l \<and> 0 \<le> lowest_free l"
proof -
  let ?c = "filter (\<lambda>i. i \<notin> set l) (map int [0 ..< Suc (length l)])"
  have "\<not> set (map int [0 ..< Suc (length l)]) \<subseteq> set l"
  proof
    assume "set (map int [0 ..< Suc (length l)]) \<subseteq> set l"
    then have "card (set (map int [0 ..< Suc (length l)])) \<le> card (set l)"
      by (simp add: card_mono)
    moreover have "card (set (map int [0 ..< Suc (length l)])) = Suc (length l)"
      by (subst distinct_card) (auto simp: distinct_map inj_on_def)
    ultimately show False using card_length [of l] by simp
  qed
  then have "?c \<noteq> []" by (auto simp: filter_empty_conv)
  then have "hd ?c \<in> set ?c" by (rule hd_in_set)
  then show ?thesis by (auto simp: lowest_free_def)
qed

lemmas lowest_free_not_in = lowest_free_fresh [THEN conjunct1]
lemmas lowest_free_nonneg = lowest_free_fresh [THEN conjunct2]

lemma emit_frame [simp]:
  "fds (emit e w) = fds w"
  "rxq (emit e w) = rxq w"
  "ssls (emit e w) = ssls w"
  "next_ssl (emit e w) = next_ssl w"
  "ub (emit e w) = ub w"
  "live (emit e w) = live w"
  by (simp_all add: emit_def live_def)

lemma log_emit [simp]: "log (emit e w) = e # log w"
  by (simp add: emit_def)

lemma flag_ub_frame [simp]:
  "fds (flag_ub b w) = fds w"
  "rxq (flag_ub b w) = rxq w"
  "ssls (flag_ub b w) = ssls w"
  "next_ssl (flag_ub b w) = next_ssl w"
  "log (flag_ub b w) = log w"
  "live (flag_ub b w) = live w"
  by (simp_all add: flag_ub_def live_def)

lemma ub_flag_ub [simp]: "ub (flag_ub b w) = (ub w \<or> b)"
  by (simp add: flag_ub_def)

lemma set_errno_frame [simp]:
  "fds (set_errno e w) = fds w"
  "rxq (set_errno e w) = rxq w"
  "ssls (set_errno e w) = ssls w"
  "next_ssl (set_errno e w) = next_ssl w"
  "log (set_errno e w) = log w"
  "ub (set_errno e w) = ub w"
  "live (set_errno e w) = live w"
  by (simp_all add: set_errno_def live_def)

lemma errno_set_errno [simp]: "errno (set_errno e w) = e"
  by (simp add: set_errno_def)

lemma next_answer_frame [simp]:
  "fds (snd (next_answer w)) = fds w"
  "rxq (snd (next_answer w)) = rxq w"
  "ssls (snd (next_answer w)) = ssls w"
  "next_ssl (snd (next_answer w)) = next_ssl w"
  "log (snd (next_answer w)) = log w"
  "ub (snd (next_answer w)) = ub w"
  "live (snd (next_answer w)) = live w"
  by (simp_all add: next_answer_def live_def split: list.splits)

lemma sys_status_frame [simp]:
  "fds (snd (sys_status w)) = fds w"
  "rxq (snd (sys_status w)) = rxq w"
  "ssls (snd (sys_status w)) = ssls w"
  "next_ssl (snd (sys_status w)) = next_ssl w"
  "log (snd (sys_status w)) = log w"
  "ub (snd (sys_status w)) = ub w"
  "live (snd (sys_status w)) = live w"
  by (simp_all add: sys_status_def Let_def split_beta split: answer.splits)

lemma sys_value_frame [simp]:
  "fds (snd (sys_value w)) = fds w"
  "rxq (snd (sys_value w)) = rxq w"
  "ssls (snd (sys_value w)) = ssls w"
  "next_ssl (snd (sys_value w)) = next_ssl w"
  "log (snd (sys_value w)) = log w"
  "ub (snd (sys_value w)) = ub w"
  "live (snd (sys_value w)) = live w"
  by (simp_all add: sys_value_def Let_def split_beta split: answer.splits)

lemma clock_ns_frame [simp]:
  "fds (snd (clock_ns w)) = fds w"
  "rxq (snd (clock_ns w)) = rxq w"
  "ssls (snd (clock_ns w)) = ssls w"
  "next_ssl (snd (clock_ns w)) = next_ssl w"
  "log (snd (clock_ns w)) = log w"
  "ub (snd (clock_ns w)) = ub w"
  "live (snd (clock_ns w)) = live w"
  by (simp_all add: clock_ns_def Let_def split_beta split: answer.splits)

lemma sys_alloc_frame [simp]:
  "fds (snd (sys_alloc w)) = fds w"
  "rxq (snd (sys_alloc w)) = rxq w"
  "ssls (snd (sys_alloc w)) = ssls w"
  "next_ssl (snd (sys_alloc w)) = next_ssl w"
  "log (snd (sys_alloc w)) = log w"
  "ub (snd (sys_alloc w)) = ub w"
  "live (snd (sys_alloc w)) = live w"
  by (simp_all add: sys_alloc_def split_beta)

lemma recv_peek_frame [simp]:
  "fds (snd (recv_peek fd n w)) = fds w"
  "rxq (snd (recv_peek fd n w)) = rxq w"
  "ssls (snd (recv_peek fd n w)) = ssls w"
  "next_ssl (snd (recv_peek fd n w)) = next_ssl w"
  "log (snd (recv_peek fd n w)) = log w"
  "ub (snd (recv_peek fd n w)) = ub w"
  "live (snd (recv_peek fd n w)) = live w"
  by (simp_all add: recv_peek_def Let_def split_beta)

lemma ioctl_fionread_frame [simp]:
  "fds (snd (ioctl_fionread fd w)) = fds w"
  "rxq (snd (ioctl_fionread fd w)) = rxq w"
  "ssls (snd (ioctl_fionread fd w)) = ssls w"
  "next_ssl (snd (ioctl_fionread fd w)) = next_ssl w"
  "log (snd (ioctl_fionread fd w)) = log w"
  "ub (snd (ioctl_fionread fd w)) = ub w"
  "live (snd (ioctl_fionread fd w)) = live w"
  by (simp_all add: ioctl_fionread_def Let_def split_beta)

lemma sys_read_frame [simp]:
  "fds (snd (sys_read n w)) = fds w"
  "rxq (snd (sys_read n w)) = rxq w"
  "ssls (snd (sys_read n w)) = ssls w"
  "next_ssl (snd (sys_read n w)) = next_ssl w"
  "log (snd (sys_read n w)) = log w"
  "ub (snd (sys_read n w)) = ub w"
  "live (snd (sys_read n w)) = live w"
  by (simp_all add: sys_read_def Let_def split_beta split: answer.splits)

lemma sys_newfd_frame [simp]:
  "rxq (snd (sys_newfd w)) = rxq w"
  "ssls (snd (sys_newfd w)) = ssls w"
  "next_ssl (snd (sys_newfd w)) = next_ssl w"
  "log (snd (sys_newfd w)) = log w"
  "ub (snd (sys_newfd w)) = ub w"
  "live (snd (sys_newfd w)) = live w"
  by (simp_all add: sys_newfd_def Let_def split_beta live_def split: answer.splits)

lemma close_frame [simp]:
  "rxq (close fd w) = rxq w"
  "ssls (close fd w) = ssls w"
  "next_ssl (close fd w) = next_ssl w"
  "ub (close fd w) = ub w"
  "live (close fd w) = live w"
  by (simp_all add: close_def live_def)

lemma fds_close [simp]: "fds (close fd w) = remove1 fd (fds w)"
  by (simp add: close_def remove1_idem)

lemma log_close [simp]:
  "log (close fd w) = (if fd \<in> set (fds w) then EvClose fd else EvBadClose fd) # log w"
  by (simp add: close_def)

lemma sys_status_range: "fst (sys_status w) = 0 \<or> fst (sys_status w) = -1"
  by (simp add: sys_status_def Let_def split_beta split: answer.splits)

lemma sys_newfd_fail: "fst (sys_newfd w) < 0 \<Longrightarrow> fst (sys_newfd w) = -1"
  using lowest_free_nonneg [of "fds (snd (next_answer w))"]
  by (auto simp: sys_newfd_def Let_def split_beta split: answer.splits)

lemma sys_newfd_fresh: "0 \<le> fst (sys_newfd w) \<Longrightarrow> fst (sys_newfd w) \<notin> set (fds w)"
  using lowest_free_not_in [of "fds w"]
  by (auto simp: sys_newfd_def Let_def split_beta split: answer.splits)

lemma fds_sys_newfd [simp]:
  "fds (snd (sys_newfd w)) = (if fst (sys_newfd w) < 0 then fds w else fst (sys_newfd w) # fds w)"
  using lowest_free_nonneg [of "fds w"]
  by (auto simp: sys_newfd_def Let_def split_beta split: answer.splits)

text \<open>The parent of a forking server keeps its table; the child has the connection as well.\<close>

lemma accept_fork_parent:
  "fds (snd (accept_fork w)) = fds w" "ssls (snd (accept_fork w)) = ssls w" "ub (snd (accept_fork w)) = ub w"
  using sys_newfd_fresh [of w] by (simp_all add: accept_fork_def Let_def split_beta)

lemma accept_fork_child:
  "fst (accept_fork w) = Some (conn, c) \<Longrightarrow>
     fds c = conn # fds w \<and> conn \<notin> set (fds w) \<and> ssls c = ssls w \<and> ub c = ub w \<and> log c = log w"
  using sys_newfd_fresh [of w] by (auto simp: accept_fork_def Let_def split_beta split: if_splits)

lemma sendmsg_fd_frame [simp]:
  "fds (snd (sendmsg_fd s fd pl w)) = fds w"
  "rxq (snd (sendmsg_fd s fd pl w)) = rxq w"
  "ssls (snd (sendmsg_fd s fd pl w)) = ssls w"
  "next_ssl (snd (sendmsg_fd s fd pl w)) = next_ssl w"
  "ub (snd (sendmsg_fd s fd pl w)) = ub w"
  "live (snd (sendmsg_fd s fd pl w)) = live w"
  by (simp_all add: sendmsg_fd_def Let_def split_beta split: answer.splits)

lemma sys_write_frame [simp]:
  "fds (snd (sys_write fd buf w)) = fds w"
  "rxq (snd (sys_write fd buf w)) = rxq w"
  "ssls (snd (sys_write fd buf w)) = ssls w"
  "next_ssl (snd (sys_write fd buf w)) = next_ssl w"
  "ub (snd (sys_write fd buf w)) = ub w"
  "live (snd (sys_write fd buf w)) = live w"
  by (simp_all add: sys_write_def Let_def split_beta split: answer.splits)

lemma install_fds_frame [simp]:
  "rxq (snd (install_fds k w)) = rxq w"
  "ssls (snd (install_fds k w)) = ssls w"
  "next_ssl (snd (install_fds k w)) = next_ssl w"
  "log (snd (install_fds k w)) = log w"
  "ub (snd (install_fds k w)) = ub w"
  "live (snd (install_fds k w)) = live w"
  by (induction k arbitrary: w) (simp_all add: Let_def split_beta live_def)

lemma install_fds_result:
  "install_fds k w = (l, w') \<Longrightarrow>
     fds w' = rev l @ fds w \<and> length l = k \<and> distinct l \<and> set l \<inter> set (fds w) = {} \<and> (\<forall>f \<in> set l. 0 \<le> f)"
proof (induction k arbitrary: w l w')
  case 0
  then show ?case by simp
next
  case (Suc k)
  let ?f = "lowest_free (fds w)"
  from Suc.prems obtain r where
    r: "install_fds k (w\<lparr>fds := ?f # fds w\<rparr>) = (r, w')" "l = ?f # r"
    by (auto simp: Let_def split: prod.splits)
  from Suc.IH [OF r(1)] r(2) lowest_free_fresh [of "fds w"] show ?case by auto
qed

lemma recvmsg_frame [simp]:
  "rxq (snd (recvmsg n w)) = rxq w"
  "ssls (snd (recvmsg n w)) = ssls w"
  "next_ssl (snd (recvmsg n w)) = next_ssl w"
  "log (snd (recvmsg n w)) = log w"
  "ub (snd (recvmsg n w)) = ub w"
  "live (snd (recvmsg n w)) = live w"
  by (simp_all add: recvmsg_def Let_def split_beta split: answer.splits)

lemma wolfSSL_new_frame [simp]:
  "fds (snd (wolfSSL_new L w)) = fds w"
  "rxq (snd (wolfSSL_new L w)) = rxq w"
  "log (snd (wolfSSL_new L w)) = log w"
  "ub (snd (wolfSSL_new L w)) = ub w"
  by (simp_all add: wolfSSL_new_def Let_def split_beta)

lemma wolfSSL_new_ptr: "fst (wolfSSL_new L w) = Some p \<Longrightarrow> p = next_ssl w"
  by (simp add: wolfSSL_new_def Let_def split_beta split: if_splits)

lemma live_wolfSSL_new [simp]:
  "live (snd (wolfSSL_new L w)) =
     (case fst (wolfSSL_new L w) of None \<Rightarrow> live w | Some p \<Rightarrow> insert p (live w))"
  by (auto simp: wolfSSL_new_def Let_def split_beta live_def)

lemma ssls_wolfSSL_new [simp]:
  "ssls (snd (wolfSSL_new L w)) =
     (case fst (wolfSSL_new L w) of None \<Rightarrow> ssls w | Some p \<Rightarrow> (ssls w)(p \<mapsto> ws_fresh L))"
  by (auto simp: wolfSSL_new_def Let_def split_beta)

lemma next_ssl_wolfSSL_new [simp]:
  "next_ssl (snd (wolfSSL_new L w)) =
     (case fst (wolfSSL_new L w) of None \<Rightarrow> next_ssl w | Some p \<Rightarrow> Suc (next_ssl w))"
  by (simp add: wolfSSL_new_def Let_def split_beta)

lemma ssl_modify_frame [simp]:
  "fds (ssl_modify f p w) = fds w"
  "rxq (ssl_modify f p w) = rxq w"
  "log (ssl_modify f p w) = log w"
  "next_ssl (ssl_modify f p w) = next_ssl w"
  "live (ssl_modify f p w) = live w"
  by (auto simp: ssl_modify_def live_def split: option.splits)

lemma ub_ssl_modify [simp]: "ub (ssl_modify f p w) = (ub w \<or> p \<notin> live w)"
  by (auto simp: ssl_modify_def live_def split: option.splits)

lemma ssls_ssl_modify:
  "ssls (ssl_modify f p w) = (case ssls w p of None \<Rightarrow> ssls w | Some s \<Rightarrow> (ssls w)(p \<mapsto> f s))"
  by (auto simp: ssl_modify_def split: option.splits)

lemma wolfSSL_set_fd_frame [simp]:
  "fds (wolfSSL_set_fd L p fd w) = fds w" "rxq (wolfSSL_set_fd L p fd w) = rxq w"
  "log (wolfSSL_set_fd L p fd w) = log w" "next_ssl (wolfSSL_set_fd L p fd w) = next_ssl w"
  "live (wolfSSL_set_fd L p fd w) = live w"
  "ub (wolfSSL_set_fd L p fd w) = (ub w \<or> p \<notin> live w)"
  by (simp_all add: wolfSSL_set_fd_def)

lemma wolfSSL_free_frame [simp]:
  "fds (wolfSSL_free p w) = fds w" "rxq (wolfSSL_free p w) = rxq w"
  "next_ssl (wolfSSL_free p w) = next_ssl w" "live (wolfSSL_free p w) = live w - {p}"
  "ub (wolfSSL_free p w) = (ub w \<or> p \<notin> live w)"
  by (auto simp: wolfSSL_free_def live_def split: option.splits)

lemma log_wolfSSL_free [simp]:
  "log (wolfSSL_free p w) = (if p \<in> live w then EvSslFree p # log w else log w)"
  by (auto simp: wolfSSL_free_def live_def split: option.splits)

lemma wolfSSL_shutdown_frame [simp]:
  "fds (wolfSSL_shutdown p w) = fds w" "rxq (wolfSSL_shutdown p w) = rxq w"
  "next_ssl (wolfSSL_shutdown p w) = next_ssl w" "live (wolfSSL_shutdown p w) = live w"
  "ub (wolfSSL_shutdown p w) = (ub w \<or> p \<notin> live w)"
  "log (wolfSSL_shutdown p w) = EvSslShutdown p # log w"
  by (auto simp: wolfSSL_shutdown_def ssl_live_def live_def)

lemma wolfSSL_read_frame [simp]:
  "fds (snd (wolfSSL_read L p n w)) = fds w" "rxq (snd (wolfSSL_read L p n w)) = rxq w"
  "log (snd (wolfSSL_read L p n w)) = log w" "next_ssl (snd (wolfSSL_read L p n w)) = next_ssl w"
  "live (snd (wolfSSL_read L p n w)) = live w"
  "ub (snd (wolfSSL_read L p n w)) = (ub w \<or> p \<notin> live w)"
  by (simp_all add: wolfSSL_read_def Let_def split_beta)

lemma wolfSSL_write_frame [simp]:
  "fds (snd (wolfSSL_write L p b w)) = fds w" "rxq (snd (wolfSSL_write L p b w)) = rxq w"
  "next_ssl (snd (wolfSSL_write L p b w)) = next_ssl w"
  "live (snd (wolfSSL_write L p b w)) = live w"
  "ub (snd (wolfSSL_write L p b w)) = (ub w \<or> p \<notin> live w)"
  by (simp_all add: wolfSSL_write_def Let_def split_beta)

lemma wolfSSL_accept_frame [simp]:
  "fds (snd (wolfSSL_accept L p w)) = fds w" "rxq (snd (wolfSSL_accept L p w)) = rxq w"
  "log (snd (wolfSSL_accept L p w)) = log w" "next_ssl (snd (wolfSSL_accept L p w)) = next_ssl w"
  "live (snd (wolfSSL_accept L p w)) = live w"
  "ub (snd (wolfSSL_accept L p w)) = (ub w \<or> p \<notin> live w)"
  by (auto simp: wolfSSL_accept_def Let_def split_beta live_def split: option.splits answer.splits)

lemma ssl_query_frame [simp]:
  "fds (snd (ssl_query f d p w)) = fds w" "rxq (snd (ssl_query f d p w)) = rxq w"
  "log (snd (ssl_query f d p w)) = log w" "next_ssl (snd (ssl_query f d p w)) = next_ssl w"
  "ssls (snd (ssl_query f d p w)) = ssls w" "live (snd (ssl_query f d p w)) = live w"
  "ub (snd (ssl_query f d p w)) = (ub w \<or> p \<notin> live w)"
  by (auto simp: ssl_query_def live_def split: option.splits)

lemma tls_export_frame [simp]:
  "fds (snd (wolfSSL_tls_export L p w)) = fds w" "rxq (snd (wolfSSL_tls_export L p w)) = rxq w"
  "log (snd (wolfSSL_tls_export L p w)) = log w" "live (snd (wolfSSL_tls_export L p w)) = live w"
  "next_ssl (snd (wolfSSL_tls_export L p w)) = next_ssl w"
  "ssls (snd (wolfSSL_tls_export L p w)) = ssls w"
  "ub (snd (wolfSSL_tls_export L p w)) = (ub w \<or> p \<notin> live w)"
  by (simp_all add: wolfSSL_tls_export_def)

lemma wolfSSL_tls_import_frame [simp]:
  "fds (snd (wolfSSL_tls_import L p b w)) = fds w" "rxq (snd (wolfSSL_tls_import L p b w)) = rxq w"
  "log (snd (wolfSSL_tls_import L p b w)) = log w"
  "next_ssl (snd (wolfSSL_tls_import L p b w)) = next_ssl w"
  "live (snd (wolfSSL_tls_import L p b w)) = live w"
  "ub (snd (wolfSSL_tls_import L p b w)) = (ub w \<or> p \<notin> live w)"
  by (auto simp: wolfSSL_tls_import_def split_beta live_def split: option.splits)

text \<open>Results of reads and writes stay within what was asked for.\<close>

lemma recv_peek_result:
  "fst (recv_peek fd n w) = (r, bs) \<Longrightarrow>
     (r = -1 \<and> bs = []) \<or> (r = int (length bs) \<and> bs = take n (rxq w fd))"
  by (auto simp: recv_peek_def Let_def split_beta split: if_splits)

lemma wolfSSL_read_result:
  "fst (wolfSSL_read L p n w) = (r, bs, e) \<Longrightarrow>
     (r = -1 \<and> bs = []) \<or> (r = int (length bs) \<and> bs \<noteq> [] \<and> length bs \<le> n)"
  by (auto simp: wolfSSL_read_def Let_def split_beta read_bytes_def split: if_splits answer.splits)

lemma wolfSSL_write_result:
  "fst (wolfSSL_write L p b w) = (r, e) \<Longrightarrow> r = -1 \<or> (0 < r \<and> r \<le> int (length b))"
  by (auto simp: wolfSSL_write_def Let_def split_beta write_count_def split: if_splits answer.splits)

text \<open>Every call consumes at most the front of the script; a call that succeeded consumed one.\<close>

lemma script_next_answer: "length (script (snd (next_answer w))) \<le> length (script w)"
  by (simp add: next_answer_def split: list.splits)

lemma next_answer_progress:
  "fst (next_answer w) \<noteq> Err EOTHER \<Longrightarrow> length (script (snd (next_answer w))) < length (script w)"
  by (simp add: next_answer_def split: list.splits)


text \<open>
  The number of answers left.  Loops that retry a call end because each round consumes an answer.
\<close>

definition slen :: "'s world \<Rightarrow> nat" where
  "slen w = length (script w)"

lemma slen_same [simp]:
  "slen (emit e w) = slen w" "slen (flag_ub b w) = slen w" "slen (set_errno er w) = slen w"
  "slen (close fd w) = slen w" "slen (ssl_modify f p w) = slen w" "slen (wolfSSL_free p w) = slen w"
  "slen (wolfSSL_set_fd L p fd w) = slen w" "slen (snd (ssl_query g d p w)) = slen w"
  "slen (snd (wolfSSL_tls_export L p w)) = slen w" "slen (close_if_open fd w) = slen w"
  by (simp_all add: slen_def emit_def flag_ub_def set_errno_def close_def ssl_modify_def wolfSSL_free_def
      wolfSSL_set_fd_def ssl_query_def wolfSSL_tls_export_def close_if_open_def split: option.split)

lemma slen_next_answer: "slen (snd (next_answer w)) \<le> slen w"
  by (simp add: slen_def script_next_answer)

lemma slen_sys_status: "slen (snd (sys_status w)) \<le> slen w"
  using slen_next_answer [of w] by (auto simp: sys_status_def Let_def split_beta split: answer.split)

lemma slen_sys_alloc: "slen (snd (sys_alloc w)) \<le> slen w"
  using slen_sys_status [of w] by (simp add: sys_alloc_def split_beta)

lemma slen_clock_ns: "slen (snd (clock_ns w)) \<le> slen w"
  using slen_next_answer [of w] by (auto simp: clock_ns_def Let_def split_beta split: answer.split)

lemma slen_recv_peek: "slen (snd (recv_peek fd n w)) \<le> slen w"
  using slen_sys_status [of w] by (simp add: recv_peek_def Let_def split_beta)

lemma slen_wolfSSL_read: "slen (snd (wolfSSL_read L p n w)) \<le> slen w"
  using slen_next_answer [of w] by (simp add: wolfSSL_read_def Let_def split_beta)

lemma slen_wolfSSL_write: "slen (snd (wolfSSL_write L p b w)) \<le> slen w"
  using slen_next_answer [of w] by (simp add: wolfSSL_write_def Let_def split_beta)

text \<open>A read or write that delivered something, or asked to be retried, consumed an answer.\<close>

lemma wolfSSL_read_progress:
  "wolfSSL_read L p n w = ((r, bs, e), w') \<Longrightarrow> 0 < r \<or> e \<noteq> EOTHER \<Longrightarrow> slen w' < slen w"
  using next_answer_progress [of w]
  by (auto simp: wolfSSL_read_def Let_def split_beta slen_def [symmetric] read_bytes_def io_error_def
      split: if_splits answer.splits)

lemma wolfSSL_write_progress:
  "wolfSSL_write L p b w = ((r, e), w') \<Longrightarrow> 0 < r \<or> e \<noteq> EOTHER \<Longrightarrow> slen w' < slen w"
  using next_answer_progress [of w]
  by (auto simp: wolfSSL_write_def Let_def split_beta slen_def [symmetric] write_count_def io_error_def
      split: if_splits answer.splits)

end
