(* ===== verification/TlsCrypto.thy ===== *)
theory TlsCrypto
  imports Posix
begin

text \<open>
  \<^verbatim>\<open>libtlspeek/lib/tlspeek_crypto.c\<close>: the per-record nonce, the two AEAD wrappers and
  HKDF-Expand-Label.  The wolfCrypt primitives they call are the parameter \<open>crypto\<close>: each field is
  the return code of the C function together with the bytes it wrote to its output buffer.
\<close>

datatype hash_algo = WC_SHA256 | WC_SHA384

record crypto =
  wc_AesGcmSetKey :: "bytes \<Rightarrow> int"
  wc_AesGcmDecrypt :: "bytes \<Rightarrow> bytes \<Rightarrow> bytes \<Rightarrow> bytes \<Rightarrow> bytes \<Rightarrow> int \<times> bytes"
    \<comment> \<open>key, input, nonce, tag, additional data\<close>
  wc_ChaCha20Poly1305_Decrypt :: "bytes \<Rightarrow> bytes \<Rightarrow> bytes \<Rightarrow> bytes \<Rightarrow> bytes \<Rightarrow> int \<times> bytes"
    \<comment> \<open>key, nonce, additional data, input, tag\<close>
  wc_HKDF_Expand :: "hash_algo \<Rightarrow> bytes \<Rightarrow> bytes \<Rightarrow> nat \<Rightarrow> int \<times> bytes"
    \<comment> \<open>hash, secret, info, output length\<close>

subsection \<open>The nonce\<close>

definition seq_byte :: "u64 \<Rightarrow> nat \<Rightarrow> byte" where
  "seq_byte seq i = ucast (drop_bit (8 * i) seq AND 0xFF)"

definition tls13_compute_nonce :: "bytes \<Rightarrow> u64 \<Rightarrow> bytes" where
  "tls13_compute_nonce iv seq =
     fold (\<lambda>i n. n[11 - i := (n ! (11 - i)) XOR seq_byte seq i]) [0 ..< 8] (take 12 iv)"

subsection \<open>AEAD decryption\<close>

text \<open>The result is the return code and the plaintext buffer as the library left it.\<close>

definition aead_aes_gcm_decrypt ::
  "crypto \<Rightarrow> bytes \<Rightarrow> bytes \<Rightarrow> bytes \<Rightarrow> bytes \<Rightarrow> bytes \<Rightarrow> int \<times> bytes" where
  "aead_aes_gcm_decrypt C key nonce aad ciphertext auth_tag =
     (let ret = wc_AesGcmSetKey C (take 32 key)
      in if ret \<noteq> 0 then (-1, [])
         else (let (ret, plaintext) =
                     wc_AesGcmDecrypt C (take 32 key) ciphertext (take 12 nonce) (take 16 auth_tag) aad
               in if ret \<noteq> 0 then (-1, plaintext) else (0, plaintext)))"

definition aead_chacha20_poly1305_decrypt ::
  "crypto \<Rightarrow> bytes \<Rightarrow> bytes \<Rightarrow> bytes \<Rightarrow> bytes \<Rightarrow> bytes \<Rightarrow> int \<times> bytes" where
  "aead_chacha20_poly1305_decrypt C key nonce aad ciphertext auth_tag =
     (let (ret, plaintext) =
            wc_ChaCha20Poly1305_Decrypt C (take 32 key) (take 12 nonce) aad ciphertext
              (take 16 auth_tag)
      in if ret \<noteq> 0 then (-1, plaintext) else (0, plaintext))"

subsection \<open>HKDF-Expand-Label\<close>

text \<open>The \<open>HkdfLabel\<close> structure the function builds in its 600-byte array.\<close>

definition hkdf_label :: "bytes \<Rightarrow> bytes \<Rightarrow> u64 \<Rightarrow> bytes" where
  "hkdf_label label ctx out_len =
     [ucast (drop_bit 8 out_len AND 0xFF), ucast (out_len AND 0xFF)]
     @ [of_nat (length (cs ''tls13 '') + length label)] @ cs ''tls13 '' @ label
     @ [of_nat (length ctx)] @ ctx"

definition tls13_hkdf_expand_label ::
  "crypto \<Rightarrow> bytes \<Rightarrow> bytes \<Rightarrow> bytes \<Rightarrow> u64 \<Rightarrow> hash_algo \<Rightarrow> int \<times> bytes" where
  "tls13_hkdf_expand_label C secret label ctx out_len algo =
     (let (ret, out) = wc_HKDF_Expand C algo secret (hkdf_label label ctx out_len) (unat out_len)
      in if ret \<noteq> 0 then (-1, out) else (0, out))"

subsection \<open>The nonce is the one of RFC 8446, section 5.3\<close>

definition be64 :: "u64 \<Rightarrow> bytes" where
  "be64 seq = map (\<lambda>i. seq_byte seq (7 - i)) [0 ..< 8]"

definition rfc8446_nonce :: "bytes \<Rightarrow> u64 \<Rightarrow> bytes" where
  "rfc8446_nonce iv seq = map2 (XOR) iv (zeros 4 @ be64 seq)"

lemma upt_8: "[0 ..< 8] = [0, 1, 2, 3, 4, 5, 6, 7 :: nat]"
  by (simp add: upt_rec)

lemma length_12_cases:
  assumes "length iv = 12"
  obtains a b c d e f g h i j k l where "iv = [a, b, c, d, e, f, g, h, i, j, k, l]"
  using assms by (auto simp: numeral_eq_Suc length_Suc_conv)

lemma nonce_eq_rfc: "length iv = 12 \<Longrightarrow> tls13_compute_nonce iv seq = rfc8446_nonce iv seq"
  by (erule length_12_cases)
     (simp add: tls13_compute_nonce_def rfc8446_nonce_def be64_def upt_8 zeros_def numeral_eq_Suc)

lemma seq_byte_bit: "n < 8 \<Longrightarrow> bit (seq_byte seq i) n = bit seq (8 * i + n)"
proof -
  assume n: "n < 8"
  have "bit (0xFF :: u64) n"
    using n by (auto simp: less_Suc_eq numeral_eq_Suc)
  then show ?thesis
    using n by (auto simp: seq_byte_def bit_simps add.commute dest: bit_imp_le_length)
qed

lemma be64_inj: "be64 s = be64 t \<Longrightarrow> s = t"
proof (rule bit_word_eqI)
  fix n
  assume eq: "be64 s = be64 t" and "n < LENGTH(64)"
  then have i: "n div 8 < 8" and d: "n = 8 * (n div 8) + n mod 8" by auto
  have "be64 q ! (7 - n div 8) = seq_byte q (7 - (7 - n div 8))" for q
    unfolding be64_def by (subst nth_map_upt) auto
  with eq have "seq_byte s (7 - (7 - n div 8)) = seq_byte t (7 - (7 - n div 8))"
    by metis
  moreover have "7 - (7 - n div 8) = n div 8" using i by simp
  ultimately have "seq_byte s (n div 8) = seq_byte t (n div 8)" by simp
  moreover have "bit s n = bit (seq_byte s (n div 8)) (n mod 8)"
    by (subst d) (simp add: seq_byte_bit)
  moreover have "bit t n = bit (seq_byte t (n div 8)) (n mod 8)"
    by (subst d) (simp add: seq_byte_bit)
  ultimately show "bit s n = bit t n" by simp
qed

lemma xor_cancel_left: "(x :: byte) XOR y = x XOR z \<longleftrightarrow> y = z"
  by (metis xor.assoc xor.left_neutral xor_self_eq)

lemma map2_xor_inj:
  fixes a b iv :: bytes
  shows "length a = length iv \<Longrightarrow> length b = length iv \<Longrightarrow>
    map2 (XOR) iv a = map2 (XOR) iv b \<Longrightarrow> a = b"
proof (induction iv arbitrary: a b)
  case Nil
  then show ?case by simp
next
  case (Cons x xs)
  then obtain y ys z zs where "a = y # ys" "b = z # zs"
    by (metis length_Suc_conv)
  with Cons show ?case
    by (auto simp: xor_cancel_left)
qed

lemma nonce_inj_seq:
  assumes iv: "length iv = 12" and eq: "tls13_compute_nonce iv s = tls13_compute_nonce iv t"
  shows "s = t"
proof -
  have l: "length (zeros 4 @ be64 q) = length iv" for q
    using iv by (simp add: be64_def)
  have "map2 (XOR) iv (zeros 4 @ be64 s) = map2 (XOR) iv (zeros 4 @ be64 t)"
    using eq iv by (simp only: nonce_eq_rfc rfc8446_nonce_def)
  then have "zeros 4 @ be64 s = zeros 4 @ be64 t"
    by (rule map2_xor_inj [OF l l])
  then show ?thesis using be64_inj by blast
qed


subsection \<open>HkdfLabel can be read back\<close>

text \<open>A reader of the structure of RFC 8446, section 7.1: length, label, context.\<close>

definition hkdf_label_read :: "bytes \<Rightarrow> (nat \<times> bytes \<times> bytes) option" where
  "hkdf_label_read b =
     (case b of
        hi # lo # n # r \<Rightarrow>
          (case drop (unat n) r of
             m # c \<Rightarrow> if unat m = length c then Some (256 * unat hi + unat lo, take (unat n) r, c) else None
           | [] \<Rightarrow> None)
      | _ \<Rightarrow> None)"

lemma unat_low_byte: "unat (ucast (x AND 0xFF) :: byte) = unat (x :: u64) mod 256"
proof -
  have "x AND 0xFF = take_bit 8 x"
    by (simp add: take_bit_eq_mask mask_eq_exp_minus_1)
  then have "unat (ucast (x AND 0xFF) :: byte) = take_bit 8 (unat x)"
    by (simp add: unsigned_ucast_eq unsigned_take_bit_eq)
  then show ?thesis by (simp add: take_bit_eq_mod)
qed

lemma unat_high_byte: "unat (ucast (drop_bit 8 x AND 0xFF) :: byte) = unat (x :: u64) div 256 mod 256"
proof -
  have "unat (drop_bit 8 x) = drop_bit 8 (unat x)"
    using unsigned_less [of x, where ?'a = nat] by (simp add: unsigned_drop_bit_eq take_bit_nat_eq_self)
  then show ?thesis by (simp only: unat_low_byte) (simp add: drop_bit_eq_div)
qed

lemma unat_of_nat_byte: "n < 256 \<Longrightarrow> unat (of_nat n :: byte) = n"
  by (simp add: unat_of_nat)

lemma hkdf_label_read_back:
  assumes "length label \<le> 249" "length ctx \<le> 255" "unat n < 65536"
  shows "hkdf_label_read (hkdf_label label ctx n) = Some (unat n, cs ''tls13 '' @ label, ctx)"
proof -
  have "unat (6 + of_nat (length label) :: byte) = 6 + length label"
    using assms(1) unat_of_nat_byte [of "6 + length label"] by simp
  moreover have "unat (of_nat (length ctx) :: byte) = length ctx"
    using assms(2) by (intro unat_of_nat_byte) simp
  moreover have "256 * (unat n div 256 mod 256) + unat n mod 256 = unat n"
    using assms(3) by (simp add: less_mult_imp_div_less)
  ultimately show ?thesis
    by (simp add: hkdf_label_def hkdf_label_read_def unat_high_byte)
       (simp add: unat_low_byte)
qed

lemma length_hkdf_label: "length (hkdf_label label ctx n) = 10 + length label + length ctx"
  by (simp add: hkdf_label_def)


subsection \<open>Decoding hexadecimal text\<close>

definition hex_value :: "byte \<Rightarrow> nat option" where
  "hex_value c =
     (if 48 \<le> c \<and> c \<le> 57 then Some (unat c - 48)
      else if 65 \<le> c \<and> c \<le> 70 then Some (unat c - 55)
      else if 97 \<le> c \<and> c \<le> 102 then Some (unat c - 87) else None)"

text \<open>
  \<open>sscanf(tmp, "%02x", &byte) == 1\<close> on the two characters of \<open>tmp\<close>: white space is skipped, a sign is read, and one digit is
  enough.  The prefix \<^verbatim>\<open>0x\<close> without a digit is no number by the standard (some libraries read it as zero).
\<close>

definition scan_02x :: "byte \<Rightarrow> byte \<Rightarrow> byte option" where
  "scan_02x c d =
     (if c = 0 then None
      else if isspace c then (if d = 0 then None else map_option of_nat (hex_value d))
      else if c = 43 then map_option of_nat (hex_value d)
      else if c = 45 then map_option (\<lambda>v. - of_nat v) (hex_value d)
      else
        (case hex_value c of
           None \<Rightarrow> None
         | Some u \<Rightarrow>
             if c = 48 \<and> (d = 120 \<or> d = 88) then None
             else (case hex_value d of None \<Rightarrow> Some (of_nat u) | Some v \<Rightarrow> Some (of_nat (16 * u + v)))))"

text \<open>The bytes written before the end or the first pair that is refused, and whether there was none.\<close>

fun hex_pairs :: "bytes \<Rightarrow> bytes \<times> bool" where
  "hex_pairs (c # d # r) =
     (case scan_02x c d of None \<Rightarrow> ([], False) | Some b \<Rightarrow> (let (bs, ok) = hex_pairs r in (b # bs, ok)))"
| "hex_pairs _ = ([], True)"

definition hex_decode :: "bytes \<Rightarrow> int \<times> bytes" where
  "hex_decode hex =
     (if odd (length hex) then (-1, [])
      else (let (out, ok) = hex_pairs hex in (if ok then int (length hex div 2) else -1, out)))"

text \<open>Bytes printed as two lower-case digits are read back; one digit and any other character are read as a byte too.\<close>

definition hex_digit :: "nat \<Rightarrow> byte" where
  "hex_digit n = of_nat (if n < 10 then 48 + n else 87 + n)"

definition hex_text :: "bytes \<Rightarrow> bytes" where
  "hex_text bs = concat (map (\<lambda>b. [hex_digit (unat b div 16), hex_digit (unat b mod 16)]) bs)"

lemma unat_hex_digit: "n < 16 \<Longrightarrow> unat (hex_digit n) = (if n < 10 then 48 + n else 87 + n)"
  by (simp add: hex_digit_def unat_of_nat)

lemma hex_value_digit: "n < 16 \<Longrightarrow> hex_value (hex_digit n) = Some n"
  by (auto simp: hex_value_def word_le_nat_alt unat_hex_digit)

lemma scan_02x_digits:
  assumes "u < 16" "v < 16"
  shows "scan_02x (hex_digit u) (hex_digit v) = Some (of_nat (16 * u + v))"
proof -
  have w: "x = y \<longleftrightarrow> unat x = unat y" for x y :: byte by (rule word_unat_eq_iff)
  have c: "hex_digit u \<noteq> 0" "\<not> isspace (hex_digit u)" "hex_digit u \<noteq> 43" "hex_digit u \<noteq> 45"
    "hex_digit v \<noteq> 120" "hex_digit v \<noteq> 88"
    using assms by (auto simp: isspace_def word_le_nat_alt unat_hex_digit w)
  show ?thesis using c assms by (simp add: scan_02x_def hex_value_digit)
qed

lemma hex_pairs_text: "hex_pairs (hex_text bs) = (bs, True)"
proof (induction bs)
  case (Cons b bs)
  have "unat b < 256" using unsigned_less [of b, where 'a = nat] by simp
  then have "scan_02x (hex_digit (unat b div 16)) (hex_digit (unat b mod 16)) = Some b"
    by (subst scan_02x_digits) auto
  with Cons show ?case by (simp add: hex_text_def)
qed (simp add: hex_text_def)

lemma hex_decode_text: "hex_decode (hex_text bs) = (int (length bs), bs)"
proof -
  have "length (hex_text bs) = 2 * length bs" by (induction bs) (simp_all add: hex_text_def)
  then show ?thesis by (simp add: hex_decode_def hex_pairs_text)
qed

lemma hex_decode_accepts: "hex_decode (cs ''1g -'') = (-1, [1])" "hex_decode (cs ''1g 1-1'') = (3, [1, 1, 255])"
  by code_simp+

subsection \<open>Properties\<close>

text \<open>
  C20. The loop of \<^verbatim>\<open>tls13_compute_nonce\<close> computes the nonce of RFC 8446, section 5.3: the static
  IV XORed with the big-endian sequence number padded on the left to twelve bytes.
\<close>

theorem nonce_rfc8446:
  assumes "length iv = 12"
  shows "tls13_compute_nonce iv seq = map2 (XOR) iv (zeros 4 @ be64 seq)"
  using nonce_eq_rfc [OF assms] by (simp add: rfc8446_nonce_def)

theorem nonce_rfc8446_witness:
  "tls13_compute_nonce [1, 2, 3, 4, 5, 6, 7, 8, 9, 10, 11, 12] 258
     = [1, 2, 3, 4, 5, 6, 7, 8, 9, 10, 10, 14]"
proof -
  have l: "length [1, 2, 3, 4, 5, 6, 7, 8, 9, 10, 11, 12 :: byte] = 12" by simp
  show ?thesis
    by (subst nonce_rfc8446 [OF l]) code_simp
qed

text \<open>
  Two records of one connection never share a nonce: for a fixed IV the nonce determines the
  sequence number, over the whole 64-bit range.
\<close>

theorem nonce_unique_per_sequence_number:
  assumes "length iv = 12"
  shows "tls13_compute_nonce iv s = tls13_compute_nonce iv t \<longleftrightarrow> s = t"
  using nonce_inj_seq [OF assms] by blast

theorem nonce_unique_per_sequence_number_witness:
  "tls13_compute_nonce (zeros 12) 7 \<noteq> tls13_compute_nonce (zeros 12) 8"
  using nonce_unique_per_sequence_number [of "zeros 12" 7 8] by simp

text \<open>
  The \<open>HkdfLabel\<close> built by \<^verbatim>\<open>tls13_hkdf_expand_label\<close> is decoded unambiguously to the requested
  length, the label behind its prefix and the context, and it fits the function's 600-byte array.
\<close>

theorem hkdf_label_roundtrip:
  assumes "length label \<le> 249" and "length ctx \<le> 255" and "unat n < 65536"
  shows "hkdf_label_read (hkdf_label label ctx n) = Some (unat n, cs ''tls13 '' @ label, ctx)
       \<and> length (hkdf_label label ctx n) \<le> 600"
  using hkdf_label_read_back [OF assms] assms by (simp add: length_hkdf_label)

theorem hkdf_label_roundtrip_witness:
  "hkdf_label_read (hkdf_label (cs ''key'') [] 32) = Some (32, cs ''tls13 key'', [])"
  using hkdf_label_roundtrip [of "cs ''key''" "[]" 32] by (simp add: cs_def)

end
