(* ===== verification/TlsPeek.thy ===== *)
theory TlsPeek
  imports TlsCrypto
begin

text \<open>
  \<^verbatim>\<open>libtlspeek/lib/tlspeek.h\<close> and \<^verbatim>\<open>tlspeek.c\<close>: the per-connection context, the secret callback that
  fills it during the handshake, and \<open>tls_read_peek\<close>, which decrypts the first application-data
  record of a connection without consuming it.
\<close>

subsection \<open>Constants and the context\<close>

definition TLSPEEK_MAGIC :: u32 where "TLSPEEK_MAGIC = 0x544C5350"
definition TLSPEEK_KEY_SIZE :: nat where "TLSPEEK_KEY_SIZE = 32"
definition TLSPEEK_IV_SIZE :: nat where "TLSPEEK_IV_SIZE = 12"
definition TLSPEEK_TAG_SIZE :: nat where "TLSPEEK_TAG_SIZE = 16"
definition TLSPEEK_MAX_RECORD :: nat where "TLSPEEK_MAX_RECORD = 16640"
definition TLSPEEK_HEADER_SIZE :: nat where "TLSPEEK_HEADER_SIZE = 5"

lemmas tlspeek_sizes =
  TLSPEEK_KEY_SIZE_def TLSPEEK_IV_SIZE_def TLSPEEK_TAG_SIZE_def TLSPEEK_MAX_RECORD_def
  TLSPEEK_HEADER_SIZE_def

text \<open>The C enumeration is stored as an integer, and a cast can put any value into it.\<close>

type_synonym tlspeek_cipher_t = u32
definition TLSPEEK_AES_128_GCM :: tlspeek_cipher_t where "TLSPEEK_AES_128_GCM = 0x1301"
definition TLSPEEK_AES_256_GCM :: tlspeek_cipher_t where "TLSPEEK_AES_256_GCM = 0x1302"
definition TLSPEEK_CHACHA20_POLY :: tlspeek_cipher_t where "TLSPEEK_CHACHA20_POLY = 0x1303"

lemmas tlspeek_ciphers =
  TLSPEEK_AES_128_GCM_def TLSPEEK_AES_256_GCM_def TLSPEEK_CHACHA20_POLY_def

record tlspeek_ctx =
  client_write_key :: bytes
  server_write_key :: bytes
  client_write_iv :: bytes
  server_write_iv :: bytes
  read_seq_num :: u64
  write_seq_num :: u64
  cipher_suite :: tlspeek_cipher_t
  tcp_fd :: int
  ssl :: "nat option"
  keys_ready :: int

text \<open>\<open>memset(&ctx, 0, sizeof ctx)\<close> and the sizes the arrays of a context have.\<close>

definition zero_ctx :: tlspeek_ctx where
  "zero_ctx = \<lparr>client_write_key = zeros 32, server_write_key = zeros 32,
               client_write_iv = zeros 12, server_write_iv = zeros 12,
               read_seq_num = 0, write_seq_num = 0, cipher_suite = 0, tcp_fd = 0,
               ssl = None, keys_ready = 0\<rparr>"

definition ctx_wf :: "tlspeek_ctx \<Rightarrow> bool" where
  "ctx_wf c = (length (client_write_key c) = 32 \<and> length (server_write_key c) = 32
             \<and> length (client_write_iv c) = 12 \<and> length (server_write_iv c) = 12)"

lemma ctx_wf_zero [simp]: "ctx_wf zero_ctx"
  by (simp add: ctx_wf_def zero_ctx_def)

subsection \<open>The secret callback\<close>

definition CLIENT_TRAFFIC_SECRET :: int where "CLIENT_TRAFFIC_SECRET = 3"
definition SERVER_TRAFFIC_SECRET :: int where "SERVER_TRAFFIC_SECRET = 4"

text \<open>Return code, key buffer and IV buffer after the call.\<close>

definition derive_keys_from_raw_secret ::
  "crypto \<Rightarrow> bytes \<Rightarrow> bytes \<Rightarrow> bytes \<Rightarrow> u64 \<Rightarrow> hash_algo \<Rightarrow> int \<times> bytes \<times> bytes" where
  "derive_keys_from_raw_secret C key_out iv_out secret key_len hash_algo =
     (let (r, k) = tls13_hkdf_expand_label C secret (cs ''key'') [] key_len hash_algo;
          key_out = overwrite key_out k
      in if r \<noteq> 0 then (-1, key_out, iv_out)
         else (let (r, v) = tls13_hkdf_expand_label C secret (cs ''iv'') [] 12 hash_algo;
                   iv_out = overwrite iv_out v
               in if r \<noteq> 0 then (-1, key_out, iv_out) else (0, key_out, iv_out)))"

text \<open>
  The callback is given the context registered with it, or finds one in the session's ex-data; it
  returns 0 and the context as it left it (\<open>None\<close> when there is none to update).
\<close>

definition tlspeek_keylog_cb ::
  "crypto \<Rightarrow> tlspeek_ctx option \<Rightarrow> int \<Rightarrow> bytes option \<Rightarrow> int \<Rightarrow> tlspeek_ctx option
     \<Rightarrow> int \<times> tlspeek_ctx option" where
  "tlspeek_keylog_cb C ex_data sid secret secretSz ctx_arg =
     (let target = (case ctx_arg of None \<Rightarrow> ex_data | Some c \<Rightarrow> Some c)
      in case secret of
           None \<Rightarrow> (0, target)
         | Some sec \<Rightarrow>
             (case target of
                None \<Rightarrow> (0, None)
              | Some ctx \<Rightarrow>
                  if secretSz \<noteq> 48 \<and> secretSz \<noteq> 32 then (0, Some ctx)
                  else
                    (let hash_algo = (if secretSz = 48 then WC_SHA384 else WC_SHA256);
                         key_len = (if secretSz = 48 then 32 else 16);
                         ctx = ctx\<lparr>cipher_suite := (if secretSz = 48 then TLSPEEK_AES_256_GCM
                                                     else TLSPEEK_AES_128_GCM)\<rparr>
                     in if sid = CLIENT_TRAFFIC_SECRET then
                          (let (_, k, v) = derive_keys_from_raw_secret C (client_write_key ctx)
                                             (client_write_iv ctx) sec key_len hash_algo
                           in (0, Some (ctx\<lparr>client_write_key := k, client_write_iv := v\<rparr>)))
                        else if sid = SERVER_TRAFFIC_SECRET then
                          (let (_, k, v) = derive_keys_from_raw_secret C (server_write_key ctx)
                                             (server_write_iv ctx) sec key_len hash_algo
                           in (0, Some (ctx\<lparr>server_write_key := k, server_write_iv := v,
                                           keys_ready := 1\<rparr>)))
                        else (0, Some ctx))))"

text \<open>The calls the library makes during one \<open>wolfSSL_accept\<close>, in order.\<close>

fun run_callbacks :: "crypto \<Rightarrow> (int \<times> bytes) list \<Rightarrow> tlspeek_ctx \<Rightarrow> tlspeek_ctx" where
  "run_callbacks C [] ctx = ctx"
| "run_callbacks C ((sid, sec) # r) ctx =
     (case snd (tlspeek_keylog_cb C (Some ctx) sid (Some sec) (int (length sec)) (Some ctx)) of
        None \<Rightarrow> run_callbacks C r ctx
      | Some ctx' \<Rightarrow> run_callbacks C r ctx')"

subsection \<open>Initialisation and release of a context\<close>

definition tlspeek_init ::
  "tlspeek_ctx option \<Rightarrow> nat option \<Rightarrow> int \<Rightarrow> int \<times> tlspeek_ctx option" where
  "tlspeek_init ctx_p ssl_p fd =
     (case ctx_p of
        None \<Rightarrow> (-1, None)
      | Some ctx \<Rightarrow>
          (case ssl_p of
             None \<Rightarrow> (-1, Some ctx)
           | Some s \<Rightarrow>
               (let ctx = ctx\<lparr>ssl := Some s, tcp_fd := fd\<rparr>
                in if keys_ready ctx = 0 then (-1, Some ctx)
                   else (0, Some (ctx\<lparr>read_seq_num := 0, write_seq_num := 0\<rparr>)))))"

definition tlspeek_free :: "tlspeek_ctx \<Rightarrow> tlspeek_ctx" where
  "tlspeek_free ctx =
     ctx\<lparr>client_write_key := zeros (length (client_write_key ctx)),
         server_write_key := zeros (length (server_write_key ctx)),
         client_write_iv := zeros (length (client_write_iv ctx)),
         server_write_iv := zeros (length (server_write_iv ctx)),
         keys_ready := 0\<rparr>"

subsection \<open>\<open>tls_read_peek\<close>\<close>

definition be16 :: "byte \<Rightarrow> byte \<Rightarrow> 16 word" where
  "be16 hi lo = push_bit 8 (ucast hi) OR ucast lo"

definition SIZEOF_RAW :: nat where
  "SIZEOF_RAW = TLSPEEK_HEADER_SIZE + TLSPEEK_MAX_RECORD + TLSPEEK_TAG_SIZE"

text \<open>
  Sub-steps 2c to 2e: nonce, decryption, removal of the inner content type, copy to the caller.  The
  result is the return value and the bytes stored at the start of the caller's buffer.
\<close>

definition tls_peek_decrypt ::
  "crypto \<Rightarrow> tlspeek_ctx \<Rightarrow> nat \<Rightarrow> bytes \<Rightarrow> nat \<Rightarrow> int \<times> bytes" where
  "tls_peek_decrypt C ctx sz raw record_len =
     (let nonce = tls13_compute_nonce (client_write_iv ctx) (read_seq_num ctx);
          ct_len = record_len - TLSPEEK_TAG_SIZE;
          ciphertext = take ct_len (drop TLSPEEK_HEADER_SIZE raw);
          auth_tag = drop (TLSPEEK_HEADER_SIZE + ct_len) raw;
          aad = take TLSPEEK_HEADER_SIZE raw
      in if cipher_suite ctx \<noteq> TLSPEEK_AES_256_GCM \<and> cipher_suite ctx \<noteq> TLSPEEK_AES_128_GCM
            \<and> cipher_suite ctx \<noteq> TLSPEEK_CHACHA20_POLY
         then (-1, [])
         else
           (let (ret, plaintext) =
                  (if cipher_suite ctx = TLSPEEK_CHACHA20_POLY
                   then aead_chacha20_poly1305_decrypt C (client_write_key ctx) nonce
                          aad ciphertext auth_tag
                   else aead_aes_gcm_decrypt C (client_write_key ctx) nonce
                          aad ciphertext auth_tag)
            in if ret \<noteq> 0 then (-1, [])
               else if ct_len = 0 then (-1, [])
               else
                 (let plaintext_len = ct_len - 1;
                      copy_len = (if plaintext_len < sz then plaintext_len else sz)
                  in (int copy_len, take copy_len plaintext))))"

definition tls_read_peek ::
  "crypto \<Rightarrow> tlspeek_ctx \<Rightarrow> nat \<Rightarrow> 's world \<Rightarrow> (int \<times> bytes) \<times> 's world" where
  "tls_read_peek C ctx sz w =
     (if sz = 0 then ((-1, []), w)
      else if keys_ready ctx = 0 then ((-1, []), w)
      else
        (let ((raw_len, raw), w) = recv_peek (tcp_fd ctx) SIZEOF_RAW w
         in if raw_len \<le> 0 then ((-1, []), w)
            else if raw_len < int TLSPEEK_HEADER_SIZE then ((-1, []), w)
            else
              (let record_type = raw ! 0;
                   record_len = unat (be16 (raw ! 3) (raw ! 4))
               in if record_type \<noteq> 0x17 then ((-1, []), w)
                  else if nat raw_len < TLSPEEK_HEADER_SIZE + record_len then ((-1, []), w)
                  else if record_len \<le> TLSPEEK_TAG_SIZE then ((-1, []), w)
                  else
                    \<comment> \<open>the plaintext array has room for \<open>TLSPEEK_MAX_RECORD\<close> bytes\<close>
                    (tls_peek_decrypt C ctx sz raw record_len,
                     flag_ub (TLSPEEK_MAX_RECORD < record_len - TLSPEEK_TAG_SIZE) w))))"

subsection \<open>The callback keeps a context well-formed\<close>

text \<open>What the code relies on: an expansion writes at most the number of bytes asked for.\<close>

definition hkdf_bounded :: "crypto \<Rightarrow> bool" where
  "hkdf_bounded C = (\<forall>h s i n. length (snd (wc_HKDF_Expand C h s i n)) \<le> n)"

lemma hkdf_boundedD: "hkdf_bounded C \<Longrightarrow> length (snd (tls13_hkdf_expand_label C s l x n h)) \<le> unat n"
  by (simp add: hkdf_bounded_def tls13_hkdf_expand_label_def split_beta)

lemma derive_keys_lengths:
  assumes "hkdf_bounded C" "unat n \<le> length k" "12 \<le> length v"
  shows "length (fst (snd (derive_keys_from_raw_secret C k v s n h))) = length k"
    and "length (snd (snd (derive_keys_from_raw_secret C k v s n h))) = length v"
proof -
  have "length (snd (tls13_hkdf_expand_label C s (cs ''key'') [] n h)) \<le> length k"
    using hkdf_boundedD [OF assms(1)] assms(2) order_trans by blast
  moreover have "length (snd (tls13_hkdf_expand_label C s (cs ''iv'') [] 12 h)) \<le> length v"
    using hkdf_boundedD [OF assms(1), of s "cs ''iv''" "[]" 12 h] assms(3) by simp
  ultimately show "length (fst (snd (derive_keys_from_raw_secret C k v s n h))) = length k"
    and "length (snd (snd (derive_keys_from_raw_secret C k v s n h))) = length v"
    by (simp_all add: derive_keys_from_raw_secret_def Let_def split_beta)
qed

lemma keylog_cb_target:
  "tlspeek_keylog_cb C ex sid (Some sec) sz (Some ctx) = (r, t) \<Longrightarrow> r = 0 \<and> t \<noteq> None"
  by (auto simp: tlspeek_keylog_cb_def Let_def split_beta split: if_splits)

lemma keylog_cb_wf:
  assumes "hkdf_bounded C" "ctx_wf ctx"
    and "tlspeek_keylog_cb C ex sid (Some sec) sz (Some ctx) = (r, Some ctx')"
  shows "ctx_wf ctx'"
  using assms(2,3)
  by (auto simp: tlspeek_keylog_cb_def Let_def split_beta ctx_wf_def derive_keys_lengths [OF assms(1)]
      split: if_splits)

lemma run_callbacks_wf:
  assumes "hkdf_bounded C"
  shows "ctx_wf ctx \<Longrightarrow> ctx_wf (run_callbacks C l ctx)"
proof (induction l arbitrary: ctx)
  case Nil
  then show ?case by simp
next
  case (Cons x l)
  obtain sid sec where x: "x = (sid, sec)" by fastforce
  obtain r ctx' where cb:
    "tlspeek_keylog_cb C (Some ctx) sid (Some sec) (int (length sec)) (Some ctx) = (r, Some ctx')"
    using keylog_cb_target by (metis not_None_eq surj_pair)
  then have "ctx_wf ctx'"
    using keylog_cb_wf [OF assms Cons.prems] by blast
  then show ?case
    using cb Cons.IH by (simp add: x)
qed


lemma keylog_cb_ready:
  "tlspeek_keylog_cb C ex sid (Some sec) sz (Some ctx) = (r, Some ctx') \<Longrightarrow>
   keys_ready ctx' = (if sid = SERVER_TRAFFIC_SECRET \<and> (sz = 32 \<or> sz = 48) then 1 else keys_ready ctx)"
  by (auto simp: tlspeek_keylog_cb_def Let_def split_beta CLIENT_TRAFFIC_SECRET_def
      SERVER_TRAFFIC_SECRET_def split: if_splits)

definition ready_secret :: "int \<times> bytes \<Rightarrow> bool" where
  "ready_secret x = (fst x = SERVER_TRAFFIC_SECRET \<and> (length (snd x) = 32 \<or> length (snd x) = 48))"

lemma run_callbacks_ready:
  "keys_ready (run_callbacks C l ctx) \<noteq> 0 \<longleftrightarrow> keys_ready ctx \<noteq> 0 \<or> list_ex ready_secret l"
proof (induction l arbitrary: ctx)
  case Nil
  then show ?case by simp
next
  case (Cons x l)
  obtain sid sec where x: "x = (sid, sec)" by fastforce
  obtain r ctx' where cb:
    "tlspeek_keylog_cb C (Some ctx) sid (Some sec) (int (length sec)) (Some ctx) = (r, Some ctx')"
    using keylog_cb_target by (metis not_None_eq surj_pair)
  then show ?case
    using Cons.IH [of ctx'] keylog_cb_ready [OF cb] by (auto simp: x ready_secret_def)
qed

subsection \<open>What a peek computes\<close>

text \<open>
  The abstract view of the library's promise.  \<open>first_record\<close> splits the first complete record off a
  stream; \<open>open_record\<close> decrypts one with the keys of a context; \<open>peek_record\<close> is the content of the
  first record of a stream, without the inner content type.
\<close>

definition first_record :: "bytes \<Rightarrow> (bytes \<times> bytes) option" where
  "first_record q =
     (if length q < 5 then None
      else let n = 256 * unat (q ! 3) + unat (q ! 4)
           in if length q < 5 + n then None else Some (take 5 q, take n (drop 5 q)))"

definition open_record :: "crypto \<Rightarrow> tlspeek_ctx \<Rightarrow> bytes \<Rightarrow> bytes \<Rightarrow> bytes \<Rightarrow> bytes option" where
  "open_record C ctx header ct tag =
     (let nonce = tls13_compute_nonce (client_write_iv ctx) (read_seq_num ctx);
          r = (if cipher_suite ctx = TLSPEEK_CHACHA20_POLY
               then aead_chacha20_poly1305_decrypt C (client_write_key ctx) nonce header ct tag
               else aead_aes_gcm_decrypt C (client_write_key ctx) nonce header ct tag)
      in if cipher_suite ctx \<in> {TLSPEEK_AES_128_GCM, TLSPEEK_AES_256_GCM, TLSPEEK_CHACHA20_POLY}
            \<and> fst r = 0
         then Some (snd r) else None)"

definition peek_record :: "crypto \<Rightarrow> tlspeek_ctx \<Rightarrow> bytes \<Rightarrow> bytes option" where
  "peek_record C ctx q =
     (case first_record q of
        None \<Rightarrow> None
      | Some (header, body) \<Rightarrow>
          if header ! 0 \<noteq> 0x17 \<or> length body \<le> 16 \<or> 16656 < length body then None
          else map_option (take (length body - 17))
                 (open_record C ctx header (take (length body - 16) body) (drop (length body - 16) body)))"

text \<open>Documented behaviour of the AEAD functions: the plaintext is as long as the ciphertext.\<close>

definition aead_lengths :: "crypto \<Rightarrow> bool" where
  "aead_lengths C =
     ((\<forall>k i n t a out. wc_AesGcmDecrypt C k i n t a = (0, out) \<longrightarrow> length out = length i)
    \<and> (\<forall>k n a i t out. wc_ChaCha20Poly1305_Decrypt C k n a i t = (0, out) \<longrightarrow> length out = length i))"

lemma unat_ucast_16: "unat (ucast (b :: byte) :: 16 word) = unat b"
  using unsigned_less [of b, where ?'a = nat]
  by (simp add: unsigned_ucast_eq take_bit_nat_eq_self)

lemma unat_be16: "unat (be16 hi lo) = 256 * unat hi + unat lo"
proof -
  have "push_bit 8 (ucast hi :: 16 word) AND ucast lo = 0"
    by (rule bit_word_eqI) (auto simp: bit_simps dest: bit_imp_le_length)
  then have "be16 hi lo = push_bit 8 (ucast hi) + ucast lo"
    by (simp add: be16_def disjunctive_add_eq_or)
  also have "unat \<dots> = 256 * unat hi + unat lo"
    using unsigned_less [of hi, where ?'a = nat] unsigned_less [of lo, where ?'a = nat]
    by (simp add: unat_word_ariths push_bit_eq_mult unat_ucast_16)
  finally show ?thesis .
qed


lemma flag_ub_False [simp]: "flag_ub False w = w"
  by (simp add: flag_ub_def)

lemma aead_tag_prefix:
  "aead_aes_gcm_decrypt C k n a c (take 16 t) = aead_aes_gcm_decrypt C k n a c t"
  "aead_chacha20_poly1305_decrypt C k n a c (take 16 t) = aead_chacha20_poly1305_decrypt C k n a c t"
  by (simp_all add: aead_aes_gcm_decrypt_def aead_chacha20_poly1305_decrypt_def)

lemma take_drop_take: "k + m \<le> n \<Longrightarrow> take m (drop k (take n q)) = take m (drop k q)"
  by (simp add: drop_take min_def)

text \<open>The length field of a record header.\<close>

definition reclen :: "bytes \<Rightarrow> nat" where
  "reclen q = 256 * unat (q ! 3) + unat (q ! 4)"

lemma first_record_iff:
  "first_record q = Some (h, b) \<longleftrightarrow>
     5 + reclen q \<le> length q \<and> h = take 5 q \<and> b = take (reclen q) (drop 5 q)"
  by (auto simp: first_record_def reclen_def Let_def not_less)

lemma first_record_None: "first_record q = None \<longleftrightarrow> length q < 5 + reclen q"
  by (auto simp: first_record_def reclen_def Let_def not_less)

lemma first_record_len: "first_record q = Some (h, b) \<Longrightarrow> length b = reclen q"
  by (auto simp: first_record_iff)

lemma reclen_take: "5 \<le> n \<Longrightarrow> reclen (take n q) = reclen q"
  by (simp add: reclen_def)

lemma first_record_prefix:
  assumes "first_record (take n q) = Some (h, b)" and "5 \<le> n"
  shows "first_record q = Some (h, b)"
  using assms by (simp add: first_record_iff reclen_take take_drop_take del: take_drop)

lemma first_record_take:
  assumes a: "first_record q = Some (h, b)" and n: "5 + length b \<le> n"
  shows "first_record (take n q) = Some (h, b)"
proof -
  have "5 + reclen q \<le> n" using n first_record_len [OF a] by simp
  with a show ?thesis
    by (simp add: first_record_iff reclen_take take_drop_take del: take_drop)
qed

text \<open>The decryption step in terms of the abstract view.\<close>

lemma tls_peek_decrypt_eq:
  assumes n: "16 < n" "5 + n \<le> length raw" and b: "b = take n (drop 5 raw)"
  shows "tls_peek_decrypt C ctx sz raw n =
    (case open_record C ctx (take 5 raw) (take (n - 16) b) (drop (n - 16) b) of
       None \<Rightarrow> (-1, [])
     | Some pt \<Rightarrow> (int (min (n - 17) sz), take (min (n - 17) sz) pt))"
proof -
  have ct: "take (n - 16) (drop 5 raw) = take (n - 16) b" using b by simp
  have "take 16 (drop (5 + (n - 16)) raw) = drop (n - 16) b"
    using n b by (simp add: drop_take add.commute)
  then have tag:
    "aead_aes_gcm_decrypt C k m a c (drop (5 + (n - 16)) raw) =
       aead_aes_gcm_decrypt C k m a c (drop (n - 16) b)"
    "aead_chacha20_poly1305_decrypt C k m a c (drop (5 + (n - 16)) raw) =
       aead_chacha20_poly1305_decrypt C k m a c (drop (n - 16) b)" for k m a c
    by (metis aead_tag_prefix)+
  show ?thesis
    unfolding tls_peek_decrypt_def open_record_def tlspeek_sizes Let_def ct tag
    using n by (simp add: split_beta min_def)
qed

text \<open>The body of \<open>tls_read_peek\<close> in terms of the abstract view.\<close>

lemma tls_read_peek_unfold:
  "tls_read_peek C ctx sz w =
     (if sz = 0 \<or> keys_ready ctx = 0 then ((-1, []), w)
      else let w' = snd (sys_status w); q = take SIZEOF_RAW (rxq w (tcp_fd ctx)) in
        if fst (sys_status w) < 0 then ((-1, []), w')
        else case first_record q of
               None \<Rightarrow> ((-1, []), w')
             | Some (h, b) \<Rightarrow>
                 if h ! 0 \<noteq> 0x17 \<or> length b \<le> 16 then ((-1, []), w')
                 else case open_record C ctx h (take (length b - 16) b) (drop (length b - 16) b) of
                        None \<Rightarrow> ((-1, []), w')
                      | Some pt \<Rightarrow>
                          ((int (min (length b - 17) sz), take (min (length b - 17) sz) pt), w'))"
proof (cases "sz = 0 \<or> keys_ready ctx = 0 \<or> fst (sys_status w) < 0")
  case True
  have "fst (sys_status w) < 0 \<Longrightarrow>
          recv_peek (tcp_fd ctx) SIZEOF_RAW w = ((-1, []), snd (sys_status w))"
    by (simp add: recv_peek_def Let_def split_beta)
  with True show ?thesis
    by (cases "sz = 0 \<or> keys_ready ctx = 0") (auto simp: tls_read_peek_def)
next
  case False
  define q where "q = take SIZEOF_RAW (rxq w (tcp_fd ctx))"
  have peek: "recv_peek (tcp_fd ctx) SIZEOF_RAW w = ((int (length q), q), snd (sys_status w))"
    using False by (simp add: recv_peek_def Let_def split_beta q_def)
  have rl: "unat (be16 (q ! 3) (q ! 4)) = reclen q"
    by (simp add: unat_be16 reclen_def)
  have q: "length q \<le> 16661" by (simp add: q_def SIZEOF_RAW_def tlspeek_sizes)
  show ?thesis
  proof (cases "first_record q")
    case None
    then have "length q < 5 + reclen q" by (simp add: first_record_None)
    then have "tls_read_peek C ctx sz w = ((-1, []), snd (sys_status w))"
      using False by (simp add: tls_read_peek_def peek rl tlspeek_sizes Let_def)
    with False None show ?thesis by (simp add: q_def [symmetric])
  next
    case (Some hb)
    then obtain h b where hb: "first_record q = Some (h, b)" by (cases hb) auto
    then have r: "5 + reclen q \<le> length q" "h = take 5 q" "b = take (reclen q) (drop 5 q)"
      by (simp_all add: first_record_iff)
    have lb: "length b = reclen q" using first_record_len [OF hb] .
    have no_ub: "\<not> 16640 < reclen q - 16" using r(1) q by linarith
    have h0: "h ! 0 = q ! 0" using r by simp
    have ne: "\<not> int (length q) \<le> 0" "\<not> int (length q) < 5" "\<not> length q < 5 + reclen q"
      using r(1) by auto
    show ?thesis
    proof (cases "h ! 0 \<noteq> 0x17 \<or> reclen q \<le> 16")
      case True
      then show ?thesis
        using False ne
        by (auto simp: tls_read_peek_def peek rl Let_def tlspeek_sizes q_def [symmetric] hb lb h0)
    next
      case ok: False
      have d: "tls_peek_decrypt C ctx sz q (reclen q) =
        (case open_record C ctx h (take (reclen q - 16) b) (drop (reclen q - 16) b) of
           None \<Rightarrow> (-1, [])
         | Some pt \<Rightarrow> (int (min (reclen q - 17) sz), take (min (reclen q - 17) sz) pt))"
        using ok r by (subst tls_peek_decrypt_eq [OF _ r(1) r(3)]) simp_all
      have "tls_read_peek C ctx sz w = (tls_peek_decrypt C ctx sz q (reclen q), snd (sys_status w))"
        using False ok ne no_ub h0 by (simp add: tls_read_peek_def peek rl tlspeek_sizes)
      then show ?thesis
        using False ok by (simp add: d q_def [symmetric] hb lb split: option.split)
    qed
  qed
qed

lemma open_reclength:
  assumes "aead_lengths C" and "open_record C ctx h ct t = Some pt"
  shows "length pt = length ct"
  using assms
  by (auto simp: open_record_def aead_lengths_def aead_aes_gcm_decrypt_def Let_def split_beta
      aead_chacha20_poly1305_decrypt_def prod_eq_iff split: if_splits)

text \<open>The frame of a peek: nothing but the script and the error number changes.\<close>

lemma tls_read_peek_frame [simp]:
  "fds (snd (tls_read_peek C ctx sz w)) = fds w"
  "rxq (snd (tls_read_peek C ctx sz w)) = rxq w"
  "ssls (snd (tls_read_peek C ctx sz w)) = ssls w"
  "live (snd (tls_read_peek C ctx sz w)) = live w"
  "next_ssl (snd (tls_read_peek C ctx sz w)) = next_ssl w"
  "log (snd (tls_read_peek C ctx sz w)) = log w"
  "ub (snd (tls_read_peek C ctx sz w)) = ub w"
  by (simp_all add: tls_read_peek_unfold Let_def split: option.splits)

lemma tls_read_peek_bounds:
  "fst (tls_read_peek C ctx sz w) = (r, bs) \<Longrightarrow>
     (r = -1 \<and> bs = []) \<or> (0 \<le> r \<and> r \<le> int sz \<and> length bs \<le> nat r)"
  by (auto simp: tls_read_peek_unfold Let_def min_le_iff_disj split: option.splits if_splits)

lemma tls_read_peek_refines:
  assumes "aead_lengths C" and "keys_ready ctx \<noteq> 0" and "0 < sz" and "fst (sys_status w) = 0"
  shows "fst (tls_read_peek C ctx sz w) =
    (case peek_record C ctx (rxq w (tcp_fd ctx)) of
       None \<Rightarrow> (-1, [])
     | Some pt \<Rightarrow> (int (length (take sz pt)), take sz pt))"
proof -
  define q where "q = rxq w (tcp_fd ctx)"
  have sz: "SIZEOF_RAW = 16661" by (simp add: SIZEOF_RAW_def tlspeek_sizes)
  show ?thesis
  proof (cases "first_record (take SIZEOF_RAW q)")
    case None
    have "peek_record C ctx q = None"
    proof (cases "first_record q")
      case (Some hb)
      then obtain h b where hb: "first_record q = Some (h, b)" by (cases hb) auto
      with None have "16656 < length b"
        using first_record_take [OF hb, of SIZEOF_RAW] sz by fastforce
      with hb show ?thesis by (simp add: peek_record_def)
    qed (simp add: peek_record_def)
    with None assms show ?thesis by (simp add: tls_read_peek_unfold q_def)
  next
    case (Some hb)
    then obtain h b where hb: "first_record (take SIZEOF_RAW q) = Some (h, b)" by (cases hb) auto
    have b: "length b \<le> 16656" using hb sz by (auto simp: first_record_iff)
    have q: "first_record q = Some (h, b)" using first_record_prefix [OF hb] sz by simp
    show ?thesis
    proof (cases "h ! 0 \<noteq> 0x17 \<or> length b \<le> 16")
      case True
      with hb q assms show ?thesis
        by (simp add: tls_read_peek_unfold peek_record_def q_def)
    next
      case False
      let ?o = "open_record C ctx h (take (length b - 16) b) (drop (length b - 16) b)"
      have peek: "peek_record C ctx q = map_option (take (length b - 17)) ?o"
        using False b q by (simp add: peek_record_def)
      show ?thesis
      proof (cases ?o)
        case None
        with False hb assms peek show ?thesis by (simp add: tls_read_peek_unfold q_def)
      next
        case (Some pt)
        have "length pt = length b - 16"
          using open_reclength [OF assms(1) Some] by simp
        with Some False hb assms peek show ?thesis
          by (auto simp: tls_read_peek_unfold q_def min_def)
      qed
    qed
  qed
qed


subsection \<open>A record sealed by the client is peeked\<close>

text \<open>
  The client's side of RFC 8446, section 5.2: the content and its type are sealed under the client's
  write key, the nonce of the sequence number and the record header.  \<open>seal\<close> stands for the AEAD
  encryption that belongs to the decryption of the library (key, nonce, additional data, plaintext).
\<close>

definition client_record ::
  "(bytes \<Rightarrow> bytes \<Rightarrow> bytes \<Rightarrow> bytes \<Rightarrow> bytes \<times> bytes) \<Rightarrow> bytes \<Rightarrow> bytes \<Rightarrow> u64 \<Rightarrow> bytes \<Rightarrow> bytes" where
  "client_record seal key iv seq content =
     (let n = length content + 17;
          header = [0x17, 3, 3, of_nat (n div 256), of_nat (n mod 256)];
          (ct, tag) = seal key (rfc8446_nonce iv seq) header (content @ [0x17])
      in header @ ct @ tag)"

definition gcm_inverse ::
  "crypto \<Rightarrow> (bytes \<Rightarrow> bytes \<Rightarrow> bytes \<Rightarrow> bytes \<Rightarrow> bytes \<times> bytes) \<Rightarrow> bool" where
  "gcm_inverse C seal =
     (\<forall>k n a p. length k = 32 \<longrightarrow>
        wc_AesGcmSetKey C k = 0
      \<and> length (fst (seal k n a p)) = length p \<and> length (snd (seal k n a p)) = 16
      \<and> wc_AesGcmDecrypt C k (fst (seal k n a p)) n (snd (seal k n a p)) a = (0, p))"

lemma first_record_client_record:
  assumes "length content \<le> 16639"
    and "length (fst (seal key (rfc8446_nonce iv seq) h (content @ [0x17]))) = length content + 1"
    and "length (snd (seal key (rfc8446_nonce iv seq) h (content @ [0x17]))) = 16"
    and h: "h = [0x17, 3, 3, of_nat ((length content + 17) div 256), of_nat ((length content + 17) mod 256)]"
  shows "first_record (client_record seal key iv seq content @ rest) =
    Some (h, fst (seal key (rfc8446_nonce iv seq) h (content @ [0x17]))
             @ snd (seal key (rfc8446_nonce iv seq) h (content @ [0x17])))"
proof -
  let ?n = "length content + 17"
  have "unat (of_nat (?n div 256) :: byte) = ?n div 256" "unat (of_nat (?n mod 256) :: byte) = ?n mod 256"
    using assms(1) by (auto intro!: unat_of_nat_byte)
  then have "reclen (client_record seal key iv seq content @ rest) = ?n"
    by (simp add: reclen_def client_record_def Let_def split_beta del: of_nat_add)
  then show ?thesis
    using assms(2,3) by (simp add: first_record_iff client_record_def Let_def split_beta h)
qed

lemma peek_client_record:
  assumes "gcm_inverse C seal" "ctx_wf ctx" "length content \<le> 16639"
    and "cipher_suite ctx = TLSPEEK_AES_256_GCM"
  shows "peek_record C ctx
           (client_record seal (client_write_key ctx) (client_write_iv ctx) (read_seq_num ctx) content @ rest)
         = Some content"
proof -
  let ?k = "client_write_key ctx" and ?n = "rfc8446_nonce (client_write_iv ctx) (read_seq_num ctx)"
  define h :: bytes where "h = [0x17, 3, 3, of_nat ((length content + 17) div 256),
    of_nat ((length content + 17) mod 256)]"
  let ?s = "seal ?k ?n h (content @ [0x17])"
  have k: "length ?k = 32" "length (client_write_iv ctx) = 12" using assms(2) by (auto simp: ctx_wf_def)
  then have s: "wc_AesGcmSetKey C ?k = 0" "length (fst ?s) = length content + 1" "length (snd ?s) = 16"
    "wc_AesGcmDecrypt C ?k (fst ?s) ?n (snd ?s) h = (0, content @ [0x17])"
    using assms(1) by (simp_all add: gcm_inverse_def)
  have n: "tls13_compute_nonce (client_write_iv ctx) (read_seq_num ctx) = ?n"
    using k by (simp add: nonce_eq_rfc)
  have l: "length ?n = 12" using k by (simp add: rfc8446_nonce_def be64_def)
  have h0: "h ! 0 = 0x17" by (simp add: h_def)
  have opened: "open_record C ctx h (fst ?s) (snd ?s) = Some (content @ [0x17])"
    using s k l assms(4)
    by (simp add: open_record_def n aead_aes_gcm_decrypt_def tlspeek_ciphers)
  have fr: "first_record (client_record seal ?k (client_write_iv ctx) (read_seq_num ctx) content @ rest)
    = Some (h, fst ?s @ snd ?s)"
    by (rule first_record_client_record [OF assms(3) _ _ h_def]) (use s in auto)
  show ?thesis
    unfolding peek_record_def fr using s(2,3) h0 opened assms(3) by simp
qed


subsection \<open>Properties\<close>

text \<open>
  The invariants stated in \<^verbatim>\<open>tlspeek.h\<close> for \<^verbatim>\<open>tls_read_peek\<close>: on every branch the kernel buffers, the
  descriptors and the wolfSSL sessions are unchanged and no array is overrun (the 16640-byte plaintext
  array holds whatever length field the peer sends); the result is an error or at most \<open>sz\<close> bytes.
\<close>

theorem tls_read_peek_stateless:
  "rxq (snd (tls_read_peek C ctx sz w)) = rxq w
 \<and> fds (snd (tls_read_peek C ctx sz w)) = fds w
 \<and> ssls (snd (tls_read_peek C ctx sz w)) = ssls w
 \<and> log (snd (tls_read_peek C ctx sz w)) = log w
 \<and> ub (snd (tls_read_peek C ctx sz w)) = ub w
 \<and> -1 \<le> fst (fst (tls_read_peek C ctx sz w)) \<and> fst (fst (tls_read_peek C ctx sz w)) \<le> int sz"
  using tls_read_peek_bounds [of C ctx sz w] by (cases "fst (tls_read_peek C ctx sz w)") auto

text \<open>
  C4. \<^verbatim>\<open>tls_read_peek\<close> implements its abstract view: when the receive call succeeds, it returns the
  content of the first record of the connection's queue cut to the caller's buffer, and -1 exactly when
  the queue does not start with a complete application-data record that decrypts.
\<close>

theorem tls_read_peek_refines_record_view:
  assumes "aead_lengths C" and "keys_ready ctx \<noteq> 0" and "0 < sz" and "fst (sys_status w) = 0"
  shows "fst (tls_read_peek C ctx sz w) =
    (case peek_record C ctx (rxq w (tcp_fd ctx)) of
       None \<Rightarrow> (-1, [])
     | Some pt \<Rightarrow> (int (length (take sz pt)), take sz pt))"
  using tls_read_peek_refines [OF assms] .

text \<open>A transparent cipher for concrete runs: the ciphertext is the plaintext, the tag is zero.\<close>

definition clear_crypto :: crypto where
  "clear_crypto =
     \<lparr>wc_AesGcmSetKey = (\<lambda>k. if length k = 32 then 0 else -1),
      wc_AesGcmDecrypt = (\<lambda>k i n t a. if t = zeros 16 then (0, i) else (-180, [])),
      wc_ChaCha20Poly1305_Decrypt = (\<lambda>k n a i t. if t = zeros 16 then (0, i) else (-213, [])),
      wc_HKDF_Expand = (\<lambda>h s i n. (0, zeros n))\<rparr>"

definition clear_seal :: "bytes \<Rightarrow> bytes \<Rightarrow> bytes \<Rightarrow> bytes \<Rightarrow> bytes \<times> bytes" where
  "clear_seal k n a p = (p, zeros 16)"

lemma clear_crypto_lengths: "aead_lengths clear_crypto"
  by (auto simp: aead_lengths_def clear_crypto_def split: if_splits)

lemma clear_crypto_inverse: "gcm_inverse clear_crypto clear_seal"
  by (simp add: gcm_inverse_def clear_crypto_def clear_seal_def)

lemma clear_crypto_hkdf: "hkdf_bounded clear_crypto"
  by (simp add: hkdf_bounded_def clear_crypto_def)

definition ready_ctx :: tlspeek_ctx where
  "ready_ctx = zero_ctx\<lparr>keys_ready := 1, tcp_fd := 5, cipher_suite := TLSPEEK_AES_256_GCM\<rparr>"

lemma ready_ctx_simps [simp]:
  "keys_ready ready_ctx = 1" "tcp_fd ready_ctx = 5" "cipher_suite ready_ctx = TLSPEEK_AES_256_GCM"
  "client_write_key ready_ctx = zeros 32" "client_write_iv ready_ctx = zeros 12"
  "read_seq_num ready_ctx = 0" "ctx_wf ready_ctx"
  by (simp_all add: ready_ctx_def zero_ctx_def ctx_wf_def)

definition one_conn :: "bytes \<Rightarrow> unit world" where
  "one_conn q = (boot [Ok 0, Ok 0, Ok 0, Ok 0])\<lparr>fds := [5], rxq := (\<lambda>fd. if fd = 5 then q else [])\<rparr>"

lemma one_conn_simps [simp]:
  "rxq (one_conn q) 5 = q" "fst (sys_status (one_conn q)) = 0"
  by (simp_all add: one_conn_def sys_status_def next_answer_def)

theorem tls_read_peek_refines_record_view_witness:
  "fst (tls_read_peek clear_crypto ready_ctx 8 (one_conn (cs ''GET ''))) = (-1, [])"
  using tls_read_peek_refines_record_view
          [OF clear_crypto_lengths, of ready_ctx 8 "one_conn (cs ''GET '')"]
  by (simp add: peek_record_def first_record_def)

text \<open>
  C10. The core promise of the library: a request of up to 16639 bytes that the client sent as one
  AES-256-GCM record is returned by \<^verbatim>\<open>tls_read_peek\<close> byte for byte (cut to the caller's buffer), whatever
  follows it in the queue, for every sequence number.
\<close>

theorem tls_read_peek_returns_request:
  assumes "gcm_inverse C seal" and "aead_lengths C" and "ctx_wf ctx" and "keys_ready ctx \<noteq> 0"
    and "cipher_suite ctx = TLSPEEK_AES_256_GCM" and "length request \<le> 16639" and "0 < sz"
    and "fst (sys_status w) = 0"
    and "rxq w (tcp_fd ctx) =
           client_record seal (client_write_key ctx) (client_write_iv ctx) (read_seq_num ctx) request @ rest"
  shows "fst (tls_read_peek C ctx sz w) = (int (length (take sz request)), take sz request)"
  using tls_read_peek_refines [OF assms(2,4,7,8)] peek_client_record [OF assms(1,3,6,5), of rest]
  by (simp add: assms(9))

theorem tls_read_peek_returns_request_witness:
  "fst (tls_read_peek clear_crypto ready_ctx 100
          (one_conn (client_record clear_seal (zeros 32) (zeros 12) 0 (cs ''GET / HTTP/1.1'') @ [1, 2])))
     = (14, cs ''GET / HTTP/1.1'')"
  using tls_read_peek_returns_request
          [OF clear_crypto_inverse clear_crypto_lengths, of ready_ctx "cs ''GET / HTTP/1.1''" 100
             "one_conn (client_record clear_seal (zeros 32) (zeros 12) 0 (cs ''GET / HTTP/1.1'') @ [1, 2])"
             "[1, 2]"]
  by simp

text \<open>
  The secret callback keeps the context's arrays at their sizes for every list of secrets the
  handshake reports, and a zeroed context has its keys ready afterwards exactly when a server traffic
  secret of one of the two supported sizes was among them.
\<close>

theorem keylog_callbacks_wf:
  assumes "hkdf_bounded C"
  shows "ctx_wf (run_callbacks C l zero_ctx)
       \<and> (keys_ready (run_callbacks C l zero_ctx) \<noteq> 0 \<longleftrightarrow> list_ex ready_secret l)"
  using run_callbacks_wf [OF assms ctx_wf_zero, of l] run_callbacks_ready [of C l zero_ctx]
  by (simp add: zero_ctx_def)

theorem keylog_callbacks_wf_witness:
  "keys_ready (run_callbacks clear_crypto [(3, zeros 48), (4, zeros 48)] zero_ctx) \<noteq> 0
 \<and> ctx_wf (run_callbacks clear_crypto [(3, zeros 48), (4, zeros 48)] zero_ctx)"
  using keylog_callbacks_wf [OF clear_crypto_hkdf, of "[(3, zeros 48), (4, zeros 48)]"]
  by (simp add: ready_secret_def SERVER_TRAFFIC_SECRET_def)

lemma open_record_aes:
  "open_record C (ctx\<lparr>cipher_suite := TLSPEEK_AES_128_GCM\<rparr>) h c t =
   open_record C (ctx\<lparr>cipher_suite := TLSPEEK_AES_256_GCM\<rparr>) h c t"
  by (simp add: open_record_def tlspeek_ciphers)

text \<open>
  A session negotiated with AES-128-GCM is peeked with the AES-256 parameters: the code makes no
  difference between the two suites, so the sixteen derived key bytes are used as a 32-byte key whose
  second half is whatever the context's array held.
\<close>

theorem aes128_peeked_as_aes256:
  "tls_read_peek C (ctx\<lparr>cipher_suite := TLSPEEK_AES_128_GCM\<rparr>) sz w =
   tls_read_peek C (ctx\<lparr>cipher_suite := TLSPEEK_AES_256_GCM\<rparr>) sz w"
  unfolding tls_read_peek_unfold open_record_aes by simp

end
