(* ===== verification/TlsSerial.thy ===== *)
theory TlsSerial
  imports TlsPeek
begin

text \<open>
  \<^verbatim>\<open>libtlspeek/lib/tlspeek_serial.c\<close>: the structure that carries a TLS session to another process,
  its layout in memory (what \<open>sendmsg\<close> puts on the Unix socket), and the functions that fill it from
  a context and rebuild a session or a peek context from it.
\<close>

subsection \<open>The serialised session\<close>

definition TLSPEEK_MAX_EXPORT_SZ :: nat where "TLSPEEK_MAX_EXPORT_SZ = 16384"
definition TLSPEEK_MAX_REQUEST_SZ :: nat where "TLSPEEK_MAX_REQUEST_SZ = 8192"

record tlspeek_serial =
  ser_magic :: u32
  ser_cipher_suite :: u32
  ser_client_write_key :: bytes
  ser_client_write_iv :: bytes
  ser_read_seq_num :: u64
  ser_tls_blob :: bytes
  ser_blob_sz :: u32
  ser_http_request :: bytes
  ser_request_len :: u32

definition zero_serial :: tlspeek_serial where
  "zero_serial = \<lparr>ser_magic = 0, ser_cipher_suite = 0, ser_client_write_key = zeros 32,
                  ser_client_write_iv = zeros 12, ser_read_seq_num = 0, ser_tls_blob = zeros 16384,
                  ser_blob_sz = 0, ser_http_request = zeros 8192, ser_request_len = 0\<rparr>"

definition serial_wf :: "tlspeek_serial \<Rightarrow> bool" where
  "serial_wf s = (length (ser_client_write_key s) = 32 \<and> length (ser_client_write_iv s) = 12
                \<and> length (ser_tls_blob s) = 16384 \<and> length (ser_http_request s) = 8192)"

lemma serial_wf_zero [simp]: "serial_wf zero_serial"
  by (simp add: serial_wf_def zero_serial_def)

subsection \<open>Layout on the wire\<close>

text \<open>Little-endian integers; the structure has four bytes of padding in front of its 64-bit field.\<close>

fun le_bytes :: "nat \<Rightarrow> nat \<Rightarrow> bytes" where
  "le_bytes 0 x = []"
| "le_bytes (Suc n) x = of_nat (x mod 256) # le_bytes n (x div 256)"

fun le_val :: "bytes \<Rightarrow> nat" where
  "le_val [] = 0"
| "le_val (b # r) = unat b + 256 * le_val r"

definition slice :: "nat \<Rightarrow> nat \<Rightarrow> bytes \<Rightarrow> bytes" where
  "slice off n b = take n (drop off b)"

definition serial_bytes :: "tlspeek_serial \<Rightarrow> bytes" where
  "serial_bytes s =
     le_bytes 4 (unat (ser_magic s)) @ le_bytes 4 (unat (ser_cipher_suite s))
     @ ser_client_write_key s @ ser_client_write_iv s @ zeros 4
     @ le_bytes 8 (unat (ser_read_seq_num s)) @ ser_tls_blob s
     @ le_bytes 4 (unat (ser_blob_sz s)) @ ser_http_request s
     @ le_bytes 4 (unat (ser_request_len s))"

definition SIZEOF_serial :: nat where "SIZEOF_serial = 24648"

definition bytes_serial :: "bytes \<Rightarrow> tlspeek_serial" where
  "bytes_serial b =
     \<lparr>ser_magic = of_nat (le_val (slice 0 4 b)),
      ser_cipher_suite = of_nat (le_val (slice 4 4 b)),
      ser_client_write_key = slice 8 32 b,
      ser_client_write_iv = slice 40 12 b,
      ser_read_seq_num = of_nat (le_val (slice 56 8 b)),
      ser_tls_blob = slice 64 16384 b,
      ser_blob_sz = of_nat (le_val (slice 16448 4 b)),
      ser_http_request = slice 16452 8192 b,
      ser_request_len = of_nat (le_val (slice 24644 4 b))\<rparr>"

lemma length_le_bytes [simp]: "length (le_bytes n x) = n"
  by (induction n arbitrary: x) auto

lemma le_val_le_bytes: "le_val (le_bytes n x) = x mod 256 ^ n"
proof (induction n arbitrary: x)
  case 0
  then show ?case by simp
next
  case (Suc n)
  have "unat (of_nat (x mod 256) :: byte) = x mod 256"
    by (intro unat_of_nat_byte) simp
  then show ?case
    by (simp add: Suc mod_mult2_eq)
qed

lemma word_le_bytes_4: "of_nat (le_val (le_bytes 4 (unat w))) = (w :: u32)"
  using unsigned_less [of w, where ?'a = nat] by (simp add: le_val_le_bytes)

lemma word_le_bytes_8: "of_nat (le_val (le_bytes 8 (unat w))) = (w :: u64)"
  using unsigned_less [of w, where ?'a = nat] by (simp add: le_val_le_bytes)

lemma slice_append_skip:
  "length a \<le> off \<Longrightarrow> slice off n (a @ b) = slice (off - length a) n b"
  by (simp add: slice_def)

lemma slice_append_hit: "length a = n \<Longrightarrow> slice 0 n (a @ b) = a"
  by (simp add: slice_def)

lemma slice_all: "length a = n \<Longrightarrow> slice 0 n a = a"
  by (simp add: slice_def)

lemmas slice_simps = slice_append_skip slice_append_hit slice_all

lemma length_serial_bytes: "serial_wf s \<Longrightarrow> length (serial_bytes s) = SIZEOF_serial"
  by (simp add: serial_bytes_def serial_wf_def SIZEOF_serial_def)

lemma bytes_serial_serial_bytes: "serial_wf s \<Longrightarrow> bytes_serial (serial_bytes s) = s"
  by (simp add: bytes_serial_def serial_bytes_def serial_wf_def slice_simps word_le_bytes_4
      word_le_bytes_8)

subsection \<open>Filling and restoring\<close>

definition tlspeek_serialize ::
  "'s wolfssl \<Rightarrow> tlspeek_ctx \<Rightarrow> 's world \<Rightarrow> tlspeek_serial \<times> 's world" where
  "tlspeek_serialize L ctx w =
     (let serial = zero_serial\<lparr>ser_magic := TLSPEEK_MAGIC,
                               ser_cipher_suite := cipher_suite ctx,
                               ser_client_write_key := client_write_key ctx,
                               ser_client_write_iv := client_write_iv ctx,
                               ser_read_seq_num := read_seq_num ctx,
                               ser_blob_sz := of_nat TLSPEEK_MAX_EXPORT_SZ\<rparr>;
          ((ret, blob), w) =
            (case ssl ctx of None \<Rightarrow> ((-1, []), w) | Some p \<Rightarrow> wolfSSL_tls_export L p w)
      in if ret \<le> 0 then (serial, w)
         else (serial\<lparr>ser_tls_blob := overwrite (ser_tls_blob serial) blob,
                      ser_blob_sz := of_nat (length blob)\<rparr>, w))"

definition tlspeek_restore ::
  "'s wolfssl \<Rightarrow> nat \<Rightarrow> tlspeek_serial \<Rightarrow> 's world \<Rightarrow> int \<times> 's world" where
  "tlspeek_restore L p serial w =
     (if ser_magic serial \<noteq> TLSPEEK_MAGIC then (-1, w)
      else
        (let w = flag_ub (TLSPEEK_MAX_EXPORT_SZ < unat (ser_blob_sz serial)) w;
             (ret, w) = wolfSSL_tls_import L p
                          (take (unat (ser_blob_sz serial)) (ser_tls_blob serial)) w
         in if ret \<le> 0 then (-1, w) else (0, w)))"

definition tlspeek_restore_peek_ctx ::
  "int \<Rightarrow> tlspeek_serial option \<Rightarrow> int \<times> tlspeek_ctx option" where
  "tlspeek_restore_peek_ctx fd serial_p =
     (case serial_p of
        None \<Rightarrow> (-1, None)
      | Some serial \<Rightarrow>
          if ser_magic serial \<noteq> TLSPEEK_MAGIC \<or> fd < 0 then (-1, None)
          else (0, Some (zero_ctx\<lparr>client_write_key := ser_client_write_key serial,
                                  client_write_iv := ser_client_write_iv serial,
                                  read_seq_num := ser_read_seq_num serial,
                                  cipher_suite := ser_cipher_suite serial,
                                  tcp_fd := fd, keys_ready := 1\<rparr>)))"

lemma tlspeek_restore_frame [simp]:
  "fds (snd (tlspeek_restore L p s w)) = fds w" "rxq (snd (tlspeek_restore L p s w)) = rxq w"
  "log (snd (tlspeek_restore L p s w)) = log w" "live (snd (tlspeek_restore L p s w)) = live w"
  "next_ssl (snd (tlspeek_restore L p s w)) = next_ssl w"
  by (simp_all add: tlspeek_restore_def Let_def split_beta)

lemma tlspeek_restore_range: "fst (tlspeek_restore L p s w) = 0 \<or> fst (tlspeek_restore L p s w) = -1"
  by (simp add: tlspeek_restore_def Let_def split_beta)

lemma ub_tlspeek_restore:
  "ub (snd (tlspeek_restore L p s w)) =
     (ub w \<or> (ser_magic s = TLSPEEK_MAGIC \<and> (16384 < unat (ser_blob_sz s) \<or> p \<notin> live w)))"
  by (auto simp: tlspeek_restore_def Let_def split_beta TLSPEEK_MAX_EXPORT_SZ_def)

text \<open>A peek depends on the key, the IV, the sequence number and the suite only.\<close>

lemma open_record_cong:
  "client_write_key c = client_write_key d \<Longrightarrow> client_write_iv c = client_write_iv d \<Longrightarrow>
   read_seq_num c = read_seq_num d \<Longrightarrow> cipher_suite c = cipher_suite d \<Longrightarrow>
   open_record C c = open_record C d"
  by (intro ext) (simp add: open_record_def Let_def)

lemma peek_record_cong:
  "client_write_key c = client_write_key d \<Longrightarrow> client_write_iv c = client_write_iv d \<Longrightarrow>
   read_seq_num c = read_seq_num d \<Longrightarrow> cipher_suite c = cipher_suite d \<Longrightarrow>
   peek_record C c = peek_record C d"
  by (intro ext) (simp add: peek_record_def open_record_cong [of c d] split: option.split)

lemma serialize_peek_fields:
  "tlspeek_restore_peek_ctx fd (Some (fst (tlspeek_serialize L ctx w))) = (0, Some ctx') \<Longrightarrow>
     client_write_key ctx' = client_write_key ctx \<and> client_write_iv ctx' = client_write_iv ctx
   \<and> read_seq_num ctx' = read_seq_num ctx \<and> cipher_suite ctx' = cipher_suite ctx
   \<and> tcp_fd ctx' = fd \<and> keys_ready ctx' = 1"
  by (auto simp: tlspeek_restore_peek_ctx_def tlspeek_serialize_def Let_def split_beta
      split: if_splits option.splits)

text \<open>
  What the holder of a serialised session sees at the head of a queue, whatever descriptor the
  connection has in its process.
\<close>

definition serial_ctx :: "int \<Rightarrow> tlspeek_serial \<Rightarrow> tlspeek_ctx" where
  "serial_ctx fd s = zero_ctx\<lparr>client_write_key := ser_client_write_key s,
                             client_write_iv := ser_client_write_iv s,
                             read_seq_num := ser_read_seq_num s, cipher_suite := ser_cipher_suite s,
                             tcp_fd := fd, keys_ready := 1\<rparr>"

definition serial_view :: "crypto \<Rightarrow> tlspeek_serial \<Rightarrow> bytes \<Rightarrow> bytes option" where
  "serial_view C s q = peek_record C (serial_ctx 0 s) q"

lemma restore_peek_ctx_eq:
  "tlspeek_restore_peek_ctx fd (Some s) =
     (if ser_magic s \<noteq> TLSPEEK_MAGIC \<or> fd < 0 then (-1, None) else (0, Some (serial_ctx fd s)))"
  by (simp add: tlspeek_restore_peek_ctx_def serial_ctx_def)

lemma serial_view_any: "peek_record C (serial_ctx fd s) q = serial_view C s q"
  unfolding serial_view_def by (rule fun_cong [OF peek_record_cong]) (simp_all add: serial_ctx_def)

lemma serial_peek:
  assumes "aead_lengths C" "0 < sz" "fst (sys_status w) = 0"
  shows "fst (tls_read_peek C (serial_ctx fd s) sz w) =
    (case serial_view C s (rxq w fd) of
       None \<Rightarrow> (-1, [])
     | Some pt \<Rightarrow> (int (length (take sz pt)), take sz pt))"
proof -
  have "keys_ready (serial_ctx fd s) \<noteq> 0" "tcp_fd (serial_ctx fd s) = fd" by (simp_all add: serial_ctx_def)
  with tls_read_peek_refines [OF assms(1) this(1) assms(2,3)] show ?thesis by (simp add: serial_view_any)
qed

lemma serial_view_client_record:
  assumes "gcm_inverse C seal" "serial_wf s" "length content \<le> 16639"
    and "ser_cipher_suite s = TLSPEEK_AES_256_GCM"
  shows "serial_view C s (client_record seal (ser_client_write_key s) (ser_client_write_iv s)
           (ser_read_seq_num s) content @ rest) = Some content"
proof -
  have "ctx_wf (serial_ctx 0 s)" "cipher_suite (serial_ctx 0 s) = TLSPEEK_AES_256_GCM"
    using assms(2,4) by (simp_all add: ctx_wf_def serial_ctx_def zero_ctx_def serial_wf_def)
  from peek_client_record [OF assms(1) this(1) assms(3) this(2), of rest] show ?thesis
    by (simp add: serial_view_def serial_ctx_def)
qed

text \<open>A session store whose sessions are their own export, for concrete runs.\<close>

definition echo_ssl :: "bytes wolfssl" where
  "echo_ssl =
     \<lparr>ws_fresh = [], ws_set_fd = (\<lambda>_ s. s), ws_accept = (\<lambda>_ s. ([(3, zeros 48), (4, zeros 48)], s)),
      ws_cipher_name = (\<lambda>_. Some (cs ''TLS_AES_256_GCM_SHA384'')), ws_read = (\<lambda>_ _ s. s),
      ws_write = (\<lambda>_ _ s. s), ws_export = (\<lambda>s. (1, s)), ws_import = (\<lambda>b s. (1, b)),
      ws_client_key = (\<lambda>_. Some (zeros 32)), ws_client_iv = (\<lambda>_. Some (zeros 12)),
      ws_key_size = (\<lambda>_. 32), ws_iv_size = (\<lambda>_. 12), ws_peer_seq = (\<lambda>_. (0, 0)),
      ws_pending = (\<lambda>_. 0)\<rparr>"


subsection \<open>Properties\<close>

text \<open>
  C15. Peeking migrates: a process that rebuilds a peek context from the serialised one, for whatever
  descriptor it received the connection under, peeks exactly what the sender would have peeked from the
  same queue.  The rebuild fails only for a negative descriptor.
\<close>

theorem peek_context_migrates:
  assumes "0 \<le> fd"
  shows "\<exists>ctx'. tlspeek_restore_peek_ctx fd (Some (fst (tlspeek_serialize L ctx w))) = (0, Some ctx')
              \<and> tcp_fd ctx' = fd \<and> keys_ready ctx' = 1
              \<and> (\<forall>q. peek_record C ctx' q = peek_record C ctx q)"
proof -
  have "ser_magic (fst (tlspeek_serialize L ctx w)) = TLSPEEK_MAGIC"
    by (simp add: tlspeek_serialize_def Let_def split_beta)
  with assms obtain ctx' where
    r: "tlspeek_restore_peek_ctx fd (Some (fst (tlspeek_serialize L ctx w))) = (0, Some ctx')"
    by (simp add: tlspeek_restore_peek_ctx_def)
  with serialize_peek_fields [OF r] peek_record_cong [of ctx' ctx C] show ?thesis
    by auto
qed

theorem peek_context_migrates_witness:
  "\<exists>ctx'. tlspeek_restore_peek_ctx 7 (Some (fst (tlspeek_serialize echo_ssl ready_ctx (boot [])))) =
             (0, Some ctx') \<and> tcp_fd ctx' = 7"
  using peek_context_migrates [of 7 echo_ssl ready_ctx "boot []"] by fastforce

text \<open>
  Restoring what was serialised hands the library exactly the exported blob, without reading past
  the array: if importing an exported blob reproduces the session, then after \<^verbatim>\<open>tlspeek_restore\<close> the new
  session equals the exported one.
\<close>

theorem serialized_session_restores:
  assumes "ssl ctx = Some p" and "ssls w p = Some s" and "ws_export L s = (r, blob)" and "0 < r"
    and "length blob \<le> 16384" and "ssls v q = Some s0" and "ws_import L blob s0 = (r', s)" and "0 < r'"
  shows "fst (tlspeek_restore L q (fst (tlspeek_serialize L ctx w)) v) = 0
       \<and> ssls (snd (tlspeek_restore L q (fst (tlspeek_serialize L ctx w)) v)) = (ssls v)(q \<mapsto> s)
       \<and> ub (snd (tlspeek_restore L q (fst (tlspeek_serialize L ctx w)) v)) = ub v"
proof -
  have b: "unat (of_nat (length blob) :: u32) = length blob"
    using assms(5) by (simp add: unat_of_nat take_bit_nat_eq_self)
  have "wolfSSL_tls_export L p w = ((r, blob), w)"
    using assms(2,3) by (simp add: wolfSSL_tls_export_def ssl_query_def)
  then have s: "fst (tlspeek_serialize L ctx w) =
      zero_serial\<lparr>ser_magic := TLSPEEK_MAGIC, ser_cipher_suite := cipher_suite ctx,
                  ser_client_write_key := client_write_key ctx,
                  ser_client_write_iv := client_write_iv ctx, ser_read_seq_num := read_seq_num ctx,
                  ser_blob_sz := of_nat (length blob),
                  ser_tls_blob := overwrite (zeros 16384) blob\<rparr>"
    using assms(1,4) by (simp add: tlspeek_serialize_def Let_def zero_serial_def)
  show ?thesis
    using assms(5-8) by (simp add: s tlspeek_restore_def Let_def b wolfSSL_tls_import_def
        TLSPEEK_MAX_EXPORT_SZ_def flag_ub_def)
qed

theorem serialized_session_restores_witness:
  "fst (tlspeek_restore echo_ssl 0
          (fst (tlspeek_serialize echo_ssl (ready_ctx\<lparr>ssl := Some 3\<rparr>)
                  ((boot [])\<lparr>ssls := [3 \<mapsto> [1, 2, 3]]\<rparr>)))
          ((boot [])\<lparr>ssls := [0 \<mapsto> []]\<rparr>)) = 0"
  using serialized_session_restores
          [of "ready_ctx\<lparr>ssl := Some 3\<rparr>" 3 "(boot [])\<lparr>ssls := [3 \<mapsto> [1, 2, 3]]\<rparr>" "[1, 2, 3]"
              echo_ssl 1 "[1, 2, 3]" "(boot [])\<lparr>ssls := [0 \<mapsto> []]\<rparr>" 0 "[]" 1]
  by (simp add: echo_ssl_def)

end
