(* ===== verification/SendFd.thy ===== *)
theory SendFd
  imports TlsSerial
begin

text \<open>
  \<^verbatim>\<open>libtlspeek/common/sendfd.c\<close> and \<^verbatim>\<open>unix_socket.c\<close>: passing a descriptor with a payload over a Unix
  socket, and the socket helpers.  The locale \<open>fd_handoff\<close> is the contract of every function of the
  repository that gives a client connection away; the gateways and workers interpret it.
\<close>

subsection \<open>\<^verbatim>\<open>sendfd.c\<close>\<close>

definition sendfd_with_state :: "int \<Rightarrow> int \<Rightarrow> bytes \<Rightarrow> 's world \<Rightarrow> int \<times> 's world" where
  "sendfd_with_state unix_sock fd_to_send payload w =
     (let (sent, w) = sendmsg_fd unix_sock fd_to_send payload w
      in if sent < 0 then (-1, w) else (0, close fd_to_send w))"

text \<open>The results are the return value, the descriptor stored by the call (if any), the data.\<close>

definition recvfd_with_state ::
  "nat \<Rightarrow> 's world \<Rightarrow> (int \<times> int option \<times> bytes) \<times> 's world" where
  "recvfd_with_state payload_len w =
     (let ((rcvd, m), w) = recvmsg payload_len w
      in if rcvd < 0 then ((-1, None, rm_data m), w)
         else if rcvd = 0 then ((-1, None, rm_data m), w)
         else if rm_ctrunc m then ((-1, None, rm_data m), w)
         else (case rm_cmsg m of
                 None \<Rightarrow> ((-1, None, rm_data m), w)
               | Some c \<Rightarrow>
                   if cmsg_level c \<noteq> SOL_SOCKET \<or> cmsg_type c \<noteq> SCM_RIGHTS
                      \<or> cmsg_len c \<noteq> CMSG_LEN_int
                   then ((-1, None, rm_data m), w)
                   else ((0, Some (rm_fd m), rm_data m), w)))"

subsection \<open>\<^verbatim>\<open>unix_socket.c\<close>\<close>

text \<open>\<open>strncpy\<close> into \<open>sun_path\<close>, which has 108 bytes.\<close>

definition sun_path :: "bytes \<Rightarrow> bytes" where
  "sun_path path = take 107 (cstr path)"

definition unix_server_socket :: "bytes \<Rightarrow> 's world \<Rightarrow> int \<times> 's world" where
  "unix_server_socket path w =
     (let (_, w) = sys_status w; w = emit (EvUnlink path) w;
          (fd, w) = sys_newfd w
      in if fd < 0 then (-1, w)
         else
           (let (r, w) = sys_status w
            in if r < 0 then (-1, close fd w)
               else
                 (let (r, w) = sys_status w
                  in if r < 0 then (-1, close fd w)
                     else (fd, emit (EvListen fd (sun_path path)) w))))"

definition unix_set_nonblocking :: "int \<Rightarrow> 's world \<Rightarrow> int \<times> 's world" where
  "unix_set_nonblocking fd w =
     (let (flags, w) = sys_value w
      in if flags < 0 then (-1, w)
         else
           (let (r, w) = sys_status w
            in if r < 0 then (-1, w) else (0, emit (EvNonblock fd) w)))"

definition unix_accept :: "'s world \<Rightarrow> int \<times> 's world" where
  "unix_accept w =
     (let (conn_fd, w) = sys_newfd w
      in if conn_fd < 0 then (-1, w) else (conn_fd, w))"

definition unix_client_connect :: "bytes \<Rightarrow> 's world \<Rightarrow> int \<times> 's world" where
  "unix_client_connect path w =
     (let (fd, w) = sys_newfd w
      in if fd < 0 then (-1, w)
         else
           (let (r, w) = sys_status w
            in if r < 0 then (-1, close fd w)
               else (fd, emit (EvConnect fd (sun_path path)) w)))"

subsection \<open>Their effect on the descriptor table\<close>

text \<open>A process's table lists each descriptor once; \<open>newfd\<close> and \<open>close\<close> keep it so.\<close>

definition fd_wf :: "'s world \<Rightarrow> bool" where
  "fd_wf w = distinct (fds w)"

lemma sendfd_result: "fst (sendfd_with_state u fd p w) = 0 \<or> fst (sendfd_with_state u fd p w) = -1"
  by (simp add: sendfd_with_state_def Let_def split_beta)

lemma sendmsg_log:
  "log (snd (sendmsg_fd u fd p w)) =
     (if fst (sendmsg_fd u fd p w) < 0 then log w
      else EvSendFd u fd (take (nat (fst (sendmsg_fd u fd p w))) p) # log w)"
  by (simp add: sendmsg_fd_def Let_def split_beta min_def split: answer.splits)

lemma sendfd_frame [simp]:
  "fds (snd (sendfd_with_state u fd p w)) =
     (if fst (sendfd_with_state u fd p w) = 0 then remove1 fd (fds w) else fds w)"
  "rxq (snd (sendfd_with_state u fd p w)) = rxq w"
  "ssls (snd (sendfd_with_state u fd p w)) = ssls w"
  "live (snd (sendfd_with_state u fd p w)) = live w"
  "next_ssl (snd (sendfd_with_state u fd p w)) = next_ssl w"
  "ub (snd (sendfd_with_state u fd p w)) = ub w"
  by (simp_all add: sendfd_with_state_def Let_def split_beta)

lemma sendfd_log:
  "fst (sendfd_with_state u fd p w) = 0 \<Longrightarrow>
     \<exists>k. log (snd (sendfd_with_state u fd p w)) =
       (if fd \<in> set (fds w) then EvClose fd else EvBadClose fd) # EvSendFd u fd (take k p) # log w"
  "fst (sendfd_with_state u fd p w) \<noteq> 0 \<Longrightarrow> log (snd (sendfd_with_state u fd p w)) = log w"
  by (auto simp: sendfd_with_state_def Let_def split_beta sendmsg_log split: if_splits)

lemma connect_frame [simp]:
  "rxq (snd (unix_client_connect path w)) = rxq w"
  "ssls (snd (unix_client_connect path w)) = ssls w"
  "live (snd (unix_client_connect path w)) = live w"
  "next_ssl (snd (unix_client_connect path w)) = next_ssl w"
  "ub (snd (unix_client_connect path w)) = ub w"
  by (simp_all add: unix_client_connect_def Let_def split_beta)

lemma connect_fds [simp]:
  "fds (snd (unix_client_connect path w)) =
     (if fst (unix_client_connect path w) < 0 then fds w
      else fst (unix_client_connect path w) # fds w)"
  by (simp add: unix_client_connect_def Let_def split_beta)

lemma connect_fresh:
  "0 \<le> fst (unix_client_connect path w) \<Longrightarrow> fst (unix_client_connect path w) \<notin> set (fds w)"
  using sys_newfd_fresh [of w] by (auto simp: unix_client_connect_def Let_def split_beta split: if_splits)

lemma connect_log:
  "\<exists>evs. log (snd (unix_client_connect path w)) = evs @ log w
       \<and> (\<forall>e \<in> set evs. \<exists>fd. fd \<notin> set (fds w) \<and> (e = EvClose fd \<or> e = EvConnect fd (sun_path path)))"
  using sys_newfd_fresh [of w]
  by (auto simp: unix_client_connect_def Let_def split_beta)

lemma unix_accept_frame [simp]:
  "rxq (snd (unix_accept w)) = rxq w" "ssls (snd (unix_accept w)) = ssls w"
  "live (snd (unix_accept w)) = live w" "next_ssl (snd (unix_accept w)) = next_ssl w"
  "ub (snd (unix_accept w)) = ub w" "log (snd (unix_accept w)) = log w"
  by (simp_all add: unix_accept_def Let_def split_beta)

lemma unix_accept_fds [simp]:
  "fds (snd (unix_accept w)) =
     (if fst (unix_accept w) < 0 then fds w else fst (unix_accept w) # fds w)"
  by (simp add: unix_accept_def Let_def split_beta)

lemma unix_accept_fresh:
  "0 \<le> fst (unix_accept w) \<Longrightarrow> fst (unix_accept w) \<notin> set (fds w)"
  using sys_newfd_fresh [of w] by (simp add: unix_accept_def Let_def split_beta split: if_splits)

lemma recvfd_frame [simp]:
  "rxq (snd (recvfd_with_state n w)) = rxq w" "ssls (snd (recvfd_with_state n w)) = ssls w"
  "live (snd (recvfd_with_state n w)) = live w" "next_ssl (snd (recvfd_with_state n w)) = next_ssl w"
  "ub (snd (recvfd_with_state n w)) = ub w" "log (snd (recvfd_with_state n w)) = log w"
  by (simp_all add: recvfd_with_state_def Let_def split_beta split: option.splits)

lemma recvfd_ok:
  assumes "fst (recvfd_with_state n w) = (0, f, d)"
  shows "\<exists>fd. f = Some fd \<and> 0 \<le> fd \<and> fd \<notin> set (fds w)
            \<and> fds (snd (recvfd_with_state n w)) = fd # fds w \<and> length d \<le> n \<and> d \<noteq> []"
proof -
  have "rights_count (Some c) = Suc 0" if "cmsg_level c = SOL_SOCKET" "cmsg_type c = SCM_RIGHTS"
    "cmsg_len c = CMSG_LEN_int" for c
    using that by (simp add: rights_count_def CMSG_LEN_int_def)
  with assms lowest_free_fresh [of "fds w"] show ?thesis
    by (auto simp: recvfd_with_state_def recvmsg_def Let_def split_beta
        split: answer.splits option.splits if_splits)
qed

text \<open>
  What the senders of this repository put into a message: at most one descriptor, with data (the kernel
  attaches it to the first byte), in a control message that fits the receiver's buffer.  Whether the message
  arrives at all, how much of it, and whether it carries the descriptor, is left open.
\<close>

definition one_descriptor :: "'s world \<Rightarrow> bool" where
  "one_descriptor w =
     (case fst (next_answer w) of
        Msg d c t \<Rightarrow> 0 < rights_count c \<longrightarrow> c = Some fd_cmsg \<and> \<not> t \<and> d \<noteq> []
      | _ \<Rightarrow> True)"

text \<open>Such a message is either received or leaves the table as it was.\<close>

lemma recvfd_result: "fst (fst (recvfd_with_state n w)) = 0 \<or> fst (fst (recvfd_with_state n w)) = -1"
  by (simp add: recvfd_with_state_def Let_def split_beta split: option.split)

lemma recvfd_failed:
  assumes "fst (fst (recvfd_with_state n w)) \<noteq> 0" and "one_descriptor w" and "0 < n"
  shows "fds (snd (recvfd_with_state n w)) = fds w"
proof (cases "fst (next_answer w)")
  case (Msg d c t)
  show ?thesis
  proof (cases "rights_count c")
    case 0
    with Msg show ?thesis
      by (simp add: recvfd_with_state_def recvmsg_def Let_def split_beta split: option.split)
  next
    case (Suc k)
    with assms(2) Msg have c: "c = Some fd_cmsg" "\<not> t" "d \<noteq> []" by (simp_all add: one_descriptor_def)
    then have "min (length d) n \<noteq> 0" using assms(3) by simp
    with c Msg assms(1) show ?thesis
      by (auto simp: recvfd_with_state_def recvmsg_def fd_cmsg_def Let_def split_beta split: if_splits)
  qed
qed (simp_all add: recvfd_with_state_def recvmsg_def Let_def split_beta)

subsection \<open>What handling a connection keeps\<close>

text \<open>What every handler of a connection keeps: sessions balanced, table well formed, no bad close.\<close>

definition bad_closes :: "event list \<Rightarrow> nat" where
  "bad_closes evs = length (filter (\<lambda>e. \<exists>fd. e = EvBadClose fd) evs)"

lemma bad_closes_simps [simp]:
  "bad_closes [] = 0"
  "bad_closes (e # l) = (case e of EvBadClose _ \<Rightarrow> Suc (bad_closes l) | _ \<Rightarrow> bad_closes l)"
  "bad_closes (l @ m) = bad_closes l + bad_closes m"
  by (auto simp: bad_closes_def split: event.split)

definition tidy :: "'s world \<Rightarrow> 's world \<Rightarrow> bool" where
  "tidy w w' = (live w' = live w \<and> ub w' = ub w \<and> rxq w' = rxq w
              \<and> bad_closes (log w') = bad_closes (log w))"

lemma fd_wf_close: "fd_wf w \<Longrightarrow> fd_wf (close fd w)"
  by (simp add: fd_wf_def)

lemma connect_bad_closes:
  "bad_closes (log (snd (unix_client_connect path w))) = bad_closes (log w)"
  using sys_newfd_fresh [of w] by (simp add: unix_client_connect_def Let_def split_beta)

lemma sendfd_bad_closes:
  "fd \<in> set (fds w) \<Longrightarrow> bad_closes (log (snd (sendfd_with_state u fd p w))) = bad_closes (log w)"
  by (simp add: sendfd_with_state_def Let_def split_beta sendmsg_log)

lemma peek_len_bound: "fst (fst (tls_read_peek C ctx sz w)) \<le> int sz"
  using tls_read_peek_bounds [of C ctx sz w] by (cases "fst (tls_read_peek C ctx sz w)") auto

subsection \<open>The contract of a hand-off\<close>

text \<open>The events a step added to the log.\<close>

definition events_since :: "'s world \<Rightarrow> 's world \<Rightarrow> event list" where
  "events_since w w' = take (length (log w') - length (log w)) (log w')"

lemma events_since_append: "log w' = evs @ log w \<Longrightarrow> events_since w w' = evs"
  by (simp add: events_since_def)

locale fd_handoff =
  fixes handoff :: "int \<Rightarrow> 's world \<Rightarrow> int \<times> 's world"
  assumes result: "fst (handoff fd w) = 0 \<or> fst (handoff fd w) = -1"
    and extends: "\<exists>evs. log (snd (handoff fd w)) = evs @ log w"
    and table: "fd_wf w \<Longrightarrow> fd \<in> set (fds w) \<Longrightarrow> 0 \<le> fd \<Longrightarrow>
          fd_wf (snd (handoff fd w)) \<and> set (fds (snd (handoff fd w))) = set (fds w) - {fd}"
    and closed_once: "fd_wf w \<Longrightarrow> fd \<in> set (fds w) \<Longrightarrow> 0 \<le> fd \<Longrightarrow>
          count_list (events_since w (snd (handoff fd w))) (EvClose fd) = 1
        \<and> EvBadClose x \<notin> set (events_since w (snd (handoff fd w)))"
    and delivered: "fd_wf w \<Longrightarrow> fd \<in> set (fds w) \<Longrightarrow> 0 \<le> fd \<Longrightarrow>
          fst (handoff fd w) = 0 \<longleftrightarrow>
            (\<exists>sock payload. EvSendFd sock fd payload \<in> set (events_since w (snd (handoff fd w))))"
    and frame: "rxq (snd (handoff fd w)) = rxq w \<and> live (snd (handoff fd w)) = live w
              \<and> ub (snd (handoff fd w)) = ub w"

text \<open>A relay serves many connections: a sequence of hand-offs.\<close>

fun run_handoffs :: "(int \<Rightarrow> 's world \<Rightarrow> int \<times> 's world) \<Rightarrow> int list \<Rightarrow> 's world \<Rightarrow> 's world" where
  "run_handoffs h [] w = w"
| "run_handoffs h (fd # l) w = run_handoffs h l (snd (h fd w))"

context fd_handoff
begin

lemma handoffs_table:
  "fd_wf w \<Longrightarrow> distinct l \<Longrightarrow> set l \<subseteq> set (fds w) \<Longrightarrow> (\<forall>fd \<in> set l. 0 \<le> fd) \<Longrightarrow>
     fd_wf (run_handoffs handoff l w) \<and> set (fds (run_handoffs handoff l w)) = set (fds w) - set l"
proof (induction l arbitrary: w)
  case Nil
  then show ?case by simp
next
  case (Cons fd l)
  from Cons.prems have "fd_wf (snd (handoff fd w)) \<and> set (fds (snd (handoff fd w))) = set (fds w) - {fd}"
    by (intro table) auto
  then have t: "fd_wf (snd (handoff fd w))" "set (fds (snd (handoff fd w))) = set (fds w) - {fd}"
    by simp_all
  have sub: "set l \<subseteq> set (fds (snd (handoff fd w)))" using Cons.prems t(2) by auto
  have "fd_wf (run_handoffs handoff l (snd (handoff fd w)))
      \<and> set (fds (run_handoffs handoff l (snd (handoff fd w)))) = set (fds (snd (handoff fd w))) - set l"
    using Cons.prems by (intro Cons.IH [OF t(1) _ sub]) auto
  with t(2) show ?case by auto
qed

lemma handoffs_frame:
  "rxq (run_handoffs handoff l w) = rxq w \<and> live (run_handoffs handoff l w) = live w
 \<and> ub (run_handoffs handoff l w) = ub w"
  using frame by (induction l arbitrary: w) simp_all

lemma handoff_owned_by_one:
  assumes "fd_wf w" "fd \<in> set (fds w)" "0 \<le> fd"
  shows "fd \<notin> set (fds (snd (handoff fd w)))
       \<and> (fst (handoff fd w) = -1 \<or> (\<exists>sock payload.
            EvSendFd sock fd payload \<in> set (events_since w (snd (handoff fd w)))))"
  using table [OF assms] delivered [OF assms] result [of fd w] by auto

end


subsection \<open>The shape the hand-offs share\<close>

text \<open>
  Connect to the receiver, send, close the connection, and close the client's descriptor here if it was
  not passed on (\<open>sendfd_with_state\<close> closes it when it was).
\<close>

definition connect_and_send :: "bytes \<Rightarrow> bytes \<Rightarrow> int \<Rightarrow> 's world \<Rightarrow> int \<times> 's world" where
  "connect_and_send path payload fd w =
     (let (u, w) = unix_client_connect path w
      in if u < 0 then (-1, close fd w)
         else (let (rc, w) = sendfd_with_state u fd payload w; w = close u w
               in if rc \<noteq> 0 then (-1, close fd w) else (0, w)))"

lemma connect_fails_log:
  assumes "fst (unix_client_connect path w) < 0"
  shows "\<exists>evs. log (snd (unix_client_connect path w)) = evs @ log w
             \<and> (\<forall>e \<in> set evs. \<exists>x. x \<notin> set (fds w) \<and> e = EvClose x)"
proof (cases "fst (sys_newfd w) < 0")
  case True
  then show ?thesis by (intro exI [of _ "[]"]) (simp add: unix_client_connect_def split_beta)
next
  case False
  with assms have "log (snd (unix_client_connect path w)) = [EvClose (fst (sys_newfd w))] @ log w"
    by (auto simp: unix_client_connect_def Let_def split_beta split: if_splits)
  with False sys_newfd_fresh [of w] show ?thesis by (intro exI conjI) auto
qed

lemma connect_ok_log:
  "0 \<le> fst (unix_client_connect path w) \<Longrightarrow>
     log (snd (unix_client_connect path w)) =
       EvConnect (fst (unix_client_connect path w)) (sun_path path) # log w"
  by (simp add: unix_client_connect_def Let_def split_beta split: if_splits)

text \<open>The events of a hand-off, in the three cases.\<close>

lemma connect_and_send_cases:
  assumes fd: "fd \<in> set (fds w)" "0 \<le> fd" and wf: "fd_wf w"
  obtains (no_connection) evs where "fst (connect_and_send path pl fd w) = -1"
      "log (snd (connect_and_send path pl fd w)) = EvClose fd # evs @ log w"
      "\<forall>e \<in> set evs. \<exists>x. x \<notin> set (fds w) \<and> e = EvClose x"
    | (not_sent) u where "fst (connect_and_send path pl fd w) = -1" "u \<notin> set (fds w)"
      "log (snd (connect_and_send path pl fd w)) =
         [EvClose fd, EvClose u, EvConnect u (sun_path path)] @ log w"
    | (sent) u k where "fst (connect_and_send path pl fd w) = 0" "u \<notin> set (fds w)"
      "log (snd (connect_and_send path pl fd w)) =
         [EvClose u, EvClose fd, EvSendFd u fd (take k pl), EvConnect u (sun_path path)] @ log w"
proof -
  define u w1 where "u = fst (unix_client_connect path w)" and "w1 = snd (unix_client_connect path w)"
  show thesis
  proof (cases "u < 0")
    case True
    obtain evs where "log w1 = evs @ log w" "\<forall>e \<in> set evs. \<exists>x. x \<notin> set (fds w) \<and> e = EvClose x"
      using connect_fails_log [of path w] True by (auto simp: u_def w1_def)
    with True fd show thesis
      by (intro no_connection [of evs]) (auto simp: connect_and_send_def split_beta u_def w1_def)
  next
    case False
    have uf: "u \<notin> set (fds w)" and f1: "fds w1 = u # fds w"
      and l1: "log w1 = EvConnect u (sun_path path) # log w"
      using False connect_fresh [of path w] connect_ok_log [of path w] by (auto simp: u_def w1_def)
    have nu: "u \<noteq> fd" using uf fd by auto
    show thesis
    proof (cases "fst (sendfd_with_state u fd pl w1) = 0")
      case True
      obtain k where "log (snd (sendfd_with_state u fd pl w1)) =
          EvClose fd # EvSendFd u fd (take k pl) # log w1"
        using sendfd_log(1) [OF True] f1 fd by auto
      with True False uf f1 l1 nu fd show thesis
        by (intro sent [of u k]) (auto simp: connect_and_send_def split_beta Let_def u_def w1_def)
    next
      case no: False
      have "log (snd (sendfd_with_state u fd pl w1)) = log w1"
        using sendfd_log(2) [OF no] .
      with no False uf f1 l1 nu fd show thesis
        by (intro not_sent [of u]) (auto simp: connect_and_send_def split_beta Let_def u_def w1_def)
    qed
  qed
qed

lemma connect_and_send_frame:
  "rxq (snd (connect_and_send path pl fd w)) = rxq w"
  "live (snd (connect_and_send path pl fd w)) = live w"
  "ub (snd (connect_and_send path pl fd w)) = ub w"
  "next_ssl (snd (connect_and_send path pl fd w)) = next_ssl w"
  by (simp_all add: connect_and_send_def Let_def split_beta)

lemma connect_and_send_table:
  assumes "fd_wf w" "fd \<in> set (fds w)"
  shows "fd_wf (snd (connect_and_send path pl fd w))
       \<and> set (fds (snd (connect_and_send path pl fd w))) = set (fds w) - {fd}"
proof (cases "fst (unix_client_connect path w) < 0")
  case True
  with assms show ?thesis by (simp add: connect_and_send_def split_beta fd_wf_def)
next
  case False
  then have "fst (unix_client_connect path w) \<notin> set (fds w)" using connect_fresh [of path w] by auto
  with False assms show ?thesis
    by (auto simp: connect_and_send_def split_beta Let_def fd_wf_def)
qed

lemma connect_and_send_tidy:
  assumes "fd_wf w" "fd \<in> set (fds w)" "0 \<le> fd"
  shows "tidy w (snd (connect_and_send path pl fd w))"
proof -
  have ev: "bad_closes evs = 0" if "\<forall>e \<in> set evs. \<exists>x. x \<notin> set (fds w) \<and> e = EvClose x" for evs
    using that by (induction evs) auto
  show ?thesis
    by (cases rule: connect_and_send_cases [OF assms(2,3,1), of path pl])
       (use ev in \<open>auto simp: tidy_def connect_and_send_frame\<close>)
qed

lemma connect_and_send_extends: "\<exists>evs. log (snd (connect_and_send path pl fd w)) = evs @ log w"
proof -
  obtain evs where c: "log (snd (unix_client_connect path w)) = evs @ log w"
    using connect_log by blast
  have s: "\<exists>evs. log (snd (sendfd_with_state u fd pl w)) = evs @ log w" for u and w :: "'a world"
    by (simp add: sendfd_with_state_def split_beta sendmsg_log)
  show ?thesis
    using c s [of "fst (unix_client_connect path w)" "snd (unix_client_connect path w)"]
    by (auto simp: connect_and_send_def Let_def split_beta)
qed

lemma connect_and_send_handoff: "fd_handoff (connect_and_send path pl)"
proof (unfold_locales, goal_cases)
  case (1 fd w)
  then show ?case by (simp add: connect_and_send_def Let_def split_beta)
next
  case (2 fd w)
  then show ?case by (rule connect_and_send_extends)
next
  case (3 w fd)
  then show ?case by (intro connect_and_send_table)
next
  case (4 w fd x)
  show ?case
    by (cases rule: connect_and_send_cases [OF 4(2,3,1), of path pl])
       (use 4 in \<open>auto simp: events_since_def count_list_0_iff\<close>)
next
  case (5 w fd)
  show ?case
    by (cases rule: connect_and_send_cases [OF 5(2,3,1), of path pl])
       (use 5 in \<open>auto simp: events_since_def\<close>)
next
  case (6 fd w)
  then show ?case by (simp add: connect_and_send_frame)
qed


text \<open>A function that refuses a negative descriptor and hands off otherwise.\<close>

lemma fd_handoff_guarded:
  assumes h: "fd_handoff h" and pos: "\<And>fd w. 0 \<le> fd \<Longrightarrow> g fd w = h fd w"
    and neg: "\<And>fd w. fd < 0 \<Longrightarrow> g fd w = (-1, set_errno e w)"
  shows "fd_handoff g"
proof (unfold_locales, goal_cases)
  case (1 fd w)
  then show ?case using pos neg fd_handoff.result [OF h, of fd w] by (cases "0 \<le> fd") auto
next
  case (2 fd w)
  then show ?case using pos neg fd_handoff.extends [OF h, of fd w] by (cases "0 \<le> fd") auto
next
  case (3 w fd)
  then show ?case using pos fd_handoff.table [OF h, of w fd] by simp
next
  case (4 w fd x)
  then show ?case using pos fd_handoff.closed_once [OF h, of w fd x] by simp
next
  case (5 w fd)
  then show ?case using pos fd_handoff.delivered [OF h, of w fd] by simp
next
  case (6 fd w)
  then show ?case using pos neg fd_handoff.frame [OF h, of fd w] by (cases "0 \<le> fd") auto
qed

subsection \<open>Properties\<close>

text \<open>
  A message that carries more than one descriptor is refused, but the kernel has installed its
  descriptors in the receiver's table by then and the function closes none of them: every such message costs
  the receiver as many descriptors as it carried.
\<close>

theorem recvfd_malformed_leaks:
  assumes "script w = Msg d (Some c) t # as" and "cmsg_level c = SOL_SOCKET" and "cmsg_type c = SCM_RIGHTS"
    and "cmsg_len c = 16 + 4 * k" and "2 \<le> k"
  shows "fst (fst (recvfd_with_state n w)) = -1
       \<and> set (fds w) \<subseteq> set (fds (snd (recvfd_with_state n w)))
       \<and> card (set (fds (snd (recvfd_with_state n w))) - set (fds w)) = k"
proof -
  obtain l w1 where l: "install_fds k (w\<lparr>script := as\<rparr>) = (l, w1)" by fastforce
  note r = install_fds_result [OF l]
  have "rights_count (Some c) = k" using assms by (simp add: rights_count_def)
  then have w1: "snd (recvfd_with_state n w) = w1" and "fst (fst (recvfd_with_state n w)) = -1"
    using assms l
    by (auto simp: recvfd_with_state_def recvmsg_def next_answer_def CMSG_LEN_int_def Let_def)
  moreover have "set (fds w1) - set (fds w) = set l" using r by auto
  moreover have "card (set l) = k" using r distinct_card [of l] by simp
  ultimately show ?thesis using r by auto
qed

theorem recvfd_malformed_leaks_witness:
  "card (set (fds (snd (recvfd_with_state 8
     (boot [Msg [1] (Some (fd_cmsg\<lparr>cmsg_len := 24\<rparr>)) False] :: unit world))))) = 2"
  using recvfd_malformed_leaks [of "boot [Msg [1] (Some (fd_cmsg\<lparr>cmsg_len := 24\<rparr>)) False] :: unit world"
      "[1]" "fd_cmsg\<lparr>cmsg_len := 24\<rparr>" False "[]" 2 8]
  by (simp add: fd_cmsg_def)

end
