(* ===== verification/Gateway.thy ===== *)
theory Gateway
  imports SendFd
begin

text \<open>
  \<^verbatim>\<open>libtlspeek/gateway/router.c\<close> and \<^verbatim>\<open>gateway.c\<close>: the routing decision, the listener, and the
  handling of one connection from the handshake to the hand-off.  The pre-forked children run the
  accept loop for ever; it is the step relation \<open>gw_step\<close>, one step per \<open>accept\<close>.
\<close>

subsection \<open>\<^verbatim>\<open>router.c\<close>\<close>

definition route_request :: "bytes option \<Rightarrow> int \<Rightarrow> int" where
  "route_request headers len =
     (case headers of
        None \<Rightarrow> 0
      | Some h \<Rightarrow>
          if len \<le> 0 then 0
          else if strstr_found h (cs ''GET /function/hello'') then 0
          else if strstr_found h (cs ''GET /function/compute'') then 1
          else if strstr_found h (cs ''POST /function/echo'') then 0
          else if strstr_found h (cs ''GET /function/status'') then 1
          else if strstr_found h (cs ''GET /function/'') then 0
          else 0)"

subsection \<open>\<^verbatim>\<open>gateway.c\<close>\<close>

definition gw_set_nonblocking :: "int \<Rightarrow> 's world \<Rightarrow> int \<times> 's world" where
  "gw_set_nonblocking fd w =
     (let (flags, w) = sys_value w
      in if flags < 0 then (-1, w)
         else
           (let (r, w) = sys_status w
            in if r < 0 then (-1, w) else (0, emit (EvNonblock fd) w)))"

text \<open>\<open>setsockopt\<close> has no effect on the model's state and its result is ignored.\<close>

definition create_tcp_listener :: "'s world \<Rightarrow> int \<times> 's world" where
  "create_tcp_listener w =
     (let (sock, w) = sys_newfd w
      in if sock < 0 then (-1, w)
         else
           (let (r, w) = sys_status w
            in if r < 0 then (-1, close sock w)
               else
                 (let (r, w) = sys_status w
                  in if r < 0 then (-1, close sock w)
                     else
                       (let (r, w) = gw_set_nonblocking sock w
                        in if r < 0 then (-1, close sock w) else (sock, w)))))"

text \<open>Step 4, the suite taken from the name of the cipher.\<close>

definition gw_cipher_suite :: "bytes option \<Rightarrow> tlspeek_cipher_t \<Rightarrow> tlspeek_cipher_t" where
  "gw_cipher_suite cipher_name current =
     (case cipher_name of
        None \<Rightarrow> current
      | Some n \<Rightarrow>
          if strstr_found n (cs ''CHACHA20'') then TLSPEEK_CHACHA20_POLY
          else if strstr_found n (cs ''AES-128'') then TLSPEEK_AES_128_GCM
          else TLSPEEK_AES_256_GCM)"

text \<open>Step 7, the structure that is sent.\<close>

definition gw_serial :: "tlspeek_ctx \<Rightarrow> bytes \<Rightarrow> tlspeek_serial" where
  "gw_serial peek_ctx blob =
     zero_serial\<lparr>ser_magic := TLSPEEK_MAGIC,
                 ser_cipher_suite := cipher_suite peek_ctx,
                 ser_client_write_key := client_write_key peek_ctx,
                 ser_client_write_iv := client_write_iv peek_ctx,
                 ser_read_seq_num := read_seq_num peek_ctx,
                 ser_tls_blob := overwrite (ser_tls_blob zero_serial) blob,
                 ser_blob_sz := of_nat (length blob),
                 ser_request_len := 0\<rparr>"

text \<open>Step 9, the transfer.\<close>

definition gw_sock_path :: "int \<Rightarrow> bytes" where
  "gw_sock_path worker_id = take 63 (cs ''worker_'' @ dec_int worker_id @ cs ''.sock'')"

definition gw_transfer :: "int \<Rightarrow> int \<Rightarrow> tlspeek_serial \<Rightarrow> 's world \<Rightarrow> 's world" where
  "gw_transfer client_fd worker_id serial w =
     (let (uds_fd, w) = unix_client_connect (gw_sock_path worker_id) w
      in if uds_fd < 0 then close client_fd w
         else
           (let (r, w) = sendfd_with_state uds_fd client_fd (serial_bytes serial) w
            in if r \<noteq> 0 then close uds_fd w else close uds_fd w))"

text \<open>Steps 5 to 9: peek, route, export, detach, transfer.\<close>

definition gw_route_and_transfer ::
  "'s wolfssl \<Rightarrow> crypto \<Rightarrow> int \<Rightarrow> int \<Rightarrow> nat \<Rightarrow> tlspeek_ctx \<Rightarrow> 's world \<Rightarrow> 's world" where
  "gw_route_and_transfer L C client_fd n_workers p peek_ctx w =
     (let ((headers_len, headers), w) = tls_read_peek C peek_ctx (TLSPEEK_MAX_REQUEST_SZ - 1) w
      in if headers_len \<le> 0 then close client_fd (wolfSSL_free p w)
         else
           (let w = flag_ub (int TLSPEEK_MAX_REQUEST_SZ \<le> headers_len) w;
                wid = route_request (Some headers) headers_len;
                worker_id = (if wid < 0 \<or> n_workers \<le> wid then 0 else wid);
                ((export_ret, blob), w) = wolfSSL_tls_export L p w
            in if export_ret < 0 then close client_fd (wolfSSL_free p w)
               else
                 (let w = wolfSSL_free p (wolfSSL_set_fd L p (-1) w)
                  in gw_transfer client_fd worker_id (gw_serial peek_ctx blob) w)))"

definition handle_connection ::
  "'s wolfssl \<Rightarrow> crypto \<Rightarrow> int \<Rightarrow> int \<Rightarrow> 's world \<Rightarrow> 's world" where
  "handle_connection L C client_fd n_workers w =
     (let (ssl_p, w) = wolfSSL_new L w
      in case ssl_p of
           None \<Rightarrow> close client_fd w
         | Some p \<Rightarrow>
             (let w = wolfSSL_set_fd L p client_fd w;
                  peek_ctx = zero_ctx\<lparr>tcp_fd := client_fd, ssl := Some p\<rparr>;
                  ((ok, _, secrets), w) = wolfSSL_accept L p w;
                  peek_ctx = run_callbacks C secrets peek_ctx
              in if \<not> ok then close client_fd (wolfSSL_free p w)
                 else if keys_ready peek_ctx = 0
                 then close client_fd (wolfSSL_free p (wolfSSL_shutdown p w))
                 else
                   (let (cipher_name, w) = ssl_query (ws_cipher_name L) None p w;
                        peek_ctx = peek_ctx\<lparr>cipher_suite :=
                                     gw_cipher_suite cipher_name (cipher_suite peek_ctx)\<rparr>
                    in gw_route_and_transfer L C client_fd n_workers p peek_ctx w)))"

text \<open>One round of the accept loop of a child process.\<close>

definition gw_accept_round :: "'s wolfssl \<Rightarrow> crypto \<Rightarrow> int \<Rightarrow> 's world \<Rightarrow> 's world" where
  "gw_accept_round L C n_workers w =
     (let (client_fd, w) = sys_newfd w
      in if client_fd < 0 then w else handle_connection L C client_fd n_workers w)"

inductive gw_step :: "'s wolfssl \<Rightarrow> crypto \<Rightarrow> int \<Rightarrow> 's world \<Rightarrow> 's world \<Rightarrow> bool"
  for L :: "'s wolfssl" and C :: crypto and n :: int where
  accept_one: "gw_step L C n w (gw_accept_round L C n w)"
| kernel_delivers: "gw_step L C n w (w\<lparr>script := as, rxq := q\<rparr>)"

inductive gw_reach :: "'s wolfssl \<Rightarrow> crypto \<Rightarrow> int \<Rightarrow> 's world \<Rightarrow> 's world \<Rightarrow> bool"
  for L :: "'s wolfssl" and C :: crypto and n :: int and w0 :: "'s world" where
  start: "gw_reach L C n w0 w0"
| step: "gw_reach L C n w0 w \<Longrightarrow> gw_step L C n w w' \<Longrightarrow> gw_reach L C n w0 w'"

inductive_cases gw_stepE: "gw_step L C n w w'"

subsection \<open>The transfer\<close>

lemma gw_transfer_connect_fails:
  "fst (unix_client_connect (gw_sock_path k) w) < 0 \<Longrightarrow>
     gw_transfer fd k s w = close fd (snd (unix_client_connect (gw_sock_path k) w))"
  by (simp add: gw_transfer_def split_beta)

lemma gw_transfer_connected:
  "0 \<le> fst (unix_client_connect (gw_sock_path k) w) \<Longrightarrow>
     gw_transfer fd k s w =
       close (fst (unix_client_connect (gw_sock_path k) w))
         (snd (sendfd_with_state (fst (unix_client_connect (gw_sock_path k) w)) fd (serial_bytes s)
                (snd (unix_client_connect (gw_sock_path k) w))))"
  by (simp add: gw_transfer_def split_beta)

definition gw_sent :: "int \<Rightarrow> int \<Rightarrow> tlspeek_serial \<Rightarrow> 's world \<Rightarrow> bool" where
  "gw_sent client_fd k s w =
     (0 \<le> fst (unix_client_connect (gw_sock_path k) w)
    \<and> fst (sendfd_with_state (fst (unix_client_connect (gw_sock_path k) w)) client_fd (serial_bytes s)
             (snd (unix_client_connect (gw_sock_path k) w))) = 0)"

lemma gw_transfer_tidy:
  assumes "fd \<in> set (fds w)"
  shows "tidy w (gw_transfer fd k s w)"
proof (cases "fst (unix_client_connect (gw_sock_path k) w) < 0")
  case True
  with assms show ?thesis
    by (simp add: gw_transfer_connect_fails tidy_def connect_bad_closes)
next
  case False
  have "fst (unix_client_connect (gw_sock_path k) w) \<noteq> fd"
    using connect_fresh [of "gw_sock_path k" w] False assms by auto
  with False assms show ?thesis
    by (simp add: gw_transfer_connected tidy_def connect_bad_closes sendfd_bad_closes)
qed

lemma gw_transfer_fds:
  assumes "fd \<in> set (fds w)" "fd_wf w"
  shows "fd_wf (gw_transfer fd k s w)
       \<and> set (fds (gw_transfer fd k s w)) =
           (if 0 \<le> fst (unix_client_connect (gw_sock_path k) w) \<and> \<not> gw_sent fd k s w
            then set (fds w) else set (fds w) - {fd})"
proof (cases "fst (unix_client_connect (gw_sock_path k) w) < 0")
  case True
  with assms show ?thesis
    by (simp add: gw_transfer_connect_fails fd_wf_def gw_sent_def)
next
  case False
  have n: "fst (unix_client_connect (gw_sock_path k) w) \<notin> set (fds w)"
    using connect_fresh [of "gw_sock_path k" w] False by auto
  with False assms show ?thesis
    by (auto simp: gw_transfer_connected fd_wf_def gw_sent_def)
qed


subsection \<open>One connection\<close>

text \<open>
  The three ways out of steps 5 to 9: nothing usable was peeked, the session could not be exported,
  the connection went to the transfer.
\<close>

definition gw_before_transfer ::
  "'s wolfssl \<Rightarrow> crypto \<Rightarrow> nat \<Rightarrow> tlspeek_ctx \<Rightarrow> 's world \<Rightarrow> 's world" where
  "gw_before_transfer L C p ctx w =
     wolfSSL_free p (wolfSSL_set_fd L p (-1) (snd (wolfSSL_tls_export L p
       (snd (tls_read_peek C ctx 8191 w)))))"

definition gw_target :: "crypto \<Rightarrow> int \<Rightarrow> tlspeek_ctx \<Rightarrow> 's world \<Rightarrow> int" where
  "gw_target C n ctx w =
     (let (len, h) = fst (tls_read_peek C ctx 8191 w); wid = route_request (Some h) len
      in if wid < 0 \<or> n \<le> wid then 0 else wid)"

lemma gw_route_and_transfer_cases:
  obtains (dropped) w1 where "gw_route_and_transfer L C fd n p ctx w = close fd (wolfSSL_free p w1)"
      "fds w1 = fds w" "rxq w1 = rxq w" "live w1 = live w" "log w1 = log w"
      "next_ssl w1 = next_ssl w" "p \<in> live w \<Longrightarrow> ub w1 = ub w"
    | (transferred) blob where
      "gw_route_and_transfer L C fd n p ctx w =
         gw_transfer fd (gw_target C n ctx w) (gw_serial ctx blob) (gw_before_transfer L C p ctx w)"
      "0 < fst (fst (tls_read_peek C ctx 8191 w))"
      "fst (wolfSSL_tls_export L p (snd (tls_read_peek C ctx 8191 w))) =
         (fst (fst (wolfSSL_tls_export L p (snd (tls_read_peek C ctx 8191 w)))), blob)"
      "0 \<le> fst (fst (wolfSSL_tls_export L p (snd (tls_read_peek C ctx 8191 w))))"
proof -
  obtain len h v where pk: "tls_read_peek C ctx 8191 w = ((len, h), v)" by (metis prod.exhaust)
  have v: "fds v = fds w" "rxq v = rxq w" "live v = live w" "log v = log w" "ub v = ub w"
    "next_ssl v = next_ssl w"
    using tls_read_peek_frame [of C ctx 8191 w] by (simp_all add: pk)
  have len: "len \<le> 8191" using peek_len_bound [of C ctx 8191 w] by (simp add: pk)
  have fl: "flag_ub False v = v" by (simp add: flag_ub_def)
  show thesis
  proof (cases "len \<le> 0")
    case True
    then show thesis
      by (intro dropped [of v]) (simp_all add: gw_route_and_transfer_def TLSPEEK_MAX_REQUEST_SZ_def pk v)
  next
    case pos: False
    obtain r blob u where ex: "wolfSSL_tls_export L p v = ((r, blob), u)" by (metis prod.exhaust)
    have u: "fds u = fds v" "rxq u = rxq v" "live u = live v" "log u = log v"
      "next_ssl u = next_ssl v" "p \<in> live v \<Longrightarrow> ub u = ub v"
      using tls_export_frame [of L p v] by (simp_all add: ex)
    show thesis
    proof (cases "r < 0")
      case True
      with pos len show thesis
        by (intro dropped [of u])
           (simp_all add: gw_route_and_transfer_def TLSPEEK_MAX_REQUEST_SZ_def pk ex fl u v)
    next
      case False
      with pos len show thesis
        by (intro transferred [of blob])
           (simp_all add: gw_route_and_transfer_def TLSPEEK_MAX_REQUEST_SZ_def pk ex fl
              gw_target_def gw_before_transfer_def Let_def)
    qed
  qed
qed

lemma gw_before_transfer_frame:
  "fds (gw_before_transfer L C p ctx w) = fds w" "rxq (gw_before_transfer L C p ctx w) = rxq w"
  "live (gw_before_transfer L C p ctx w) = live w - {p}"
  "p \<in> live w \<Longrightarrow> ub (gw_before_transfer L C p ctx w) = ub w"
  "bad_closes (log (gw_before_transfer L C p ctx w)) = bad_closes (log w)"
  "next_ssl (gw_before_transfer L C p ctx w) = next_ssl w"
  by (simp_all add: gw_before_transfer_def)

lemma gw_transfer_next_ssl: "next_ssl (gw_transfer fd k s w) = next_ssl w"
  by (simp add: gw_transfer_def Let_def split_beta)

lemma gw_route_and_transfer_resources:
  fixes L :: "'s wolfssl" and C :: crypto and n :: int and ctx :: tlspeek_ctx
  assumes "fd \<in> set (fds w)" "fd_wf w" "p \<in> live w"
  defines "w' \<equiv> gw_route_and_transfer L C fd n p ctx w"
  shows "live w' = live w - {p} \<and> ub w' = ub w \<and> rxq w' = rxq w \<and> next_ssl w' = next_ssl w
       \<and> bad_closes (log w') = bad_closes (log w) \<and> fd_wf w'
       \<and> (set (fds w') = set (fds w) - {fd} \<or> set (fds w') = set (fds w))"
proof (cases rule: gw_route_and_transfer_cases [of L C fd n p ctx w])
  case (dropped w1)
  with assms show ?thesis by (simp add: w'_def fd_wf_def)
next
  case (transferred blob)
  have in': "fd \<in> set (fds (gw_before_transfer L C p ctx w))" and
    wf': "fd_wf (gw_before_transfer L C p ctx w)"
    using assms(1,2) by (simp_all add: fd_wf_def gw_before_transfer_frame)
  from gw_transfer_tidy [OF in', of "gw_target C n ctx w" "gw_serial ctx blob"]
    gw_transfer_fds [OF in' wf', of "gw_target C n ctx w" "gw_serial ctx blob"] assms(3)
  show ?thesis
    by (simp add: w'_def transferred(1) tidy_def gw_transfer_next_ssl gw_before_transfer_frame
        split: if_splits)
qed

lemma handle_connection_resources:
  assumes fd: "fd \<in> set (fds w)" and wf: "fd_wf w" "ssl_wf w"
  shows "tidy w (handle_connection L C fd n w) \<and> fd_wf (handle_connection L C fd n w)
       \<and> ssl_wf (handle_connection L C fd n w)
       \<and> (set (fds (handle_connection L C fd n w)) = set (fds w) - {fd}
        \<or> set (fds (handle_connection L C fd n w)) = set (fds w))"
proof (cases "fst (wolfSSL_new L w)")
  case None
  with assms have "handle_connection L C fd n w = close fd (snd (wolfSSL_new L w))"
    by (simp add: handle_connection_def split_beta)
  then show ?thesis using assms None
    by (simp add: tidy_def fd_wf_def ssl_wf_def)
next
  case (Some p)
  define w1 where "w1 = wolfSSL_set_fd L p fd (snd (wolfSSL_new L w))"
  define w2 where "w2 = snd (wolfSSL_accept L p w1)"
  define ctx where "ctx = run_callbacks C (snd (snd (fst (wolfSSL_accept L p w1))))
     (zero_ctx\<lparr>tcp_fd := fd, ssl := Some p\<rparr>)"
  define w3 where "w3 = snd (ssl_query (ws_cipher_name L) None p w2)"
  have p: "p = next_ssl w" "p \<notin> live w"
    using wolfSSL_new_ptr [OF Some] ssl_wf_fresh [OF wf(2)] by auto
  have nx: "next_ssl (snd (wolfSSL_new L w)) = Suc (next_ssl w)"
    using Some by simp
  have w2: "fds w2 = fds w" "rxq w2 = rxq w" "live w2 = insert p (live w)" "log w2 = log w"
    "ub w2 = ub w" "next_ssl w2 = Suc (next_ssl w)"
    by (simp_all add: w1_def w2_def Some nx)
  have w3: "fds w3 = fds w" "rxq w3 = rxq w" "live w3 = insert p (live w)" "log w3 = log w"
    "ub w3 = ub w" "next_ssl w3 = Suc (next_ssl w)"
    by (simp_all add: w3_def w2)
  define ctx' where "ctx' = ctx\<lparr>cipher_suite :=
     gw_cipher_suite (fst (ssl_query (ws_cipher_name L) None p w2)) (cipher_suite ctx)\<rparr>"
  have eq: "handle_connection L C fd n w =
      (if \<not> fst (fst (wolfSSL_accept L p w1)) then close fd (wolfSSL_free p w2)
       else if keys_ready ctx = 0 then close fd (wolfSSL_free p (wolfSSL_shutdown p w2))
       else gw_route_and_transfer L C fd n p ctx' w3)"
    unfolding handle_connection_def w3_def w2_def ctx'_def ctx_def w1_def
    using Some by (simp add: split_beta Let_def)
  have r: "live (gw_route_and_transfer L C fd n p ctx' w3) = live w
       \<and> ub (gw_route_and_transfer L C fd n p ctx' w3) = ub w
       \<and> rxq (gw_route_and_transfer L C fd n p ctx' w3) = rxq w
       \<and> next_ssl (gw_route_and_transfer L C fd n p ctx' w3) = Suc (next_ssl w)
       \<and> bad_closes (log (gw_route_and_transfer L C fd n p ctx' w3)) = bad_closes (log w)
       \<and> fd_wf (gw_route_and_transfer L C fd n p ctx' w3)
       \<and> (set (fds (gw_route_and_transfer L C fd n p ctx' w3)) = set (fds w) - {fd}
        \<or> set (fds (gw_route_and_transfer L C fd n p ctx' w3)) = set (fds w))"
    using gw_route_and_transfer_resources [where fd = fd and w = w3 and p = p and L = L and C = C and n = n and ctx = ctx'] w3 fd wf(1) p(2)
    by (simp add: fd_wf_def)
  have lv: "live w - {p} = live w" using p(2) by simp
  show ?thesis
    using r wf fd unfolding eq by (auto simp: tidy_def w2 lv fd_wf_def ssl_wf_def)
qed


subsection \<open>What becomes of the client\<close>

text \<open>
  Read off the events of a handler: the client's descriptor is still open exactly when a worker was
  connected to and the client was not sent.
\<close>

definition left_behind :: "int \<Rightarrow> event list \<Rightarrow> bool" where
  "left_behind fd evs =
     ((\<exists>uds path. EvConnect uds path \<in> set evs) \<and> (\<forall>uds d. EvSendFd uds fd d \<notin> set evs))"

definition client_fate :: "int \<Rightarrow> 's world \<Rightarrow> 's world \<Rightarrow> bool" where
  "client_fate fd w w' =
     (\<exists>evs. log w' = evs @ log w
        \<and> set (fds w') = (if left_behind fd evs then set (fds w) else set (fds w) - {fd}))"

lemma client_fateD:
  "client_fate fd w w' \<Longrightarrow>
     set (fds w') = (if left_behind fd (events_since w w') then set (fds w) else set (fds w) - {fd})"
proof -
  assume "client_fate fd w w'"
  then obtain evs where e: "log w' = evs @ log w"
    "set (fds w') = (if left_behind fd evs then set (fds w) else set (fds w) - {fd})"
    unfolding client_fate_def by blast
  show ?thesis unfolding events_since_append [OF e(1)] by (rule e(2))
qed

text \<open>What happens to sessions only does not matter.\<close>

definition sessions_only :: "'s world \<Rightarrow> 's world \<Rightarrow> bool" where
  "sessions_only w w' =
     (fds w' = fds w \<and> (\<exists>evs. log w' = evs @ log w \<and> (\<forall>e \<in> set evs. \<exists>p. e = EvSslFree p \<or> e = EvSslShutdown p)))"

lemma sessions_only_same: "fds w' = fds w \<Longrightarrow> log w' = log w \<Longrightarrow> sessions_only w w'"
  by (simp add: sessions_only_def)

lemma sessions_only_free: "sessions_only w v \<Longrightarrow> sessions_only w (wolfSSL_free p v)"
  by (auto simp: sessions_only_def intro: exI [of _ "EvSslFree p # _"])

lemma sessions_only_shutdown: "sessions_only w v \<Longrightarrow> sessions_only w (wolfSSL_shutdown p v)"
  by (auto simp: sessions_only_def intro: exI [of _ "EvSslShutdown p # _"])

lemma client_fate_sessions:
  assumes "sessions_only w w1" and "client_fate fd w1 w'"
  shows "client_fate fd w w'"
proof -
  obtain evs where e: "log w1 = evs @ log w" "fds w1 = fds w"
    "\<forall>e \<in> set evs. \<exists>p. e = EvSslFree p \<or> e = EvSslShutdown p"
    using assms(1) by (auto simp: sessions_only_def)
  obtain l where l: "log w' = l @ log w1"
    "set (fds w') = (if left_behind fd l then set (fds w1) else set (fds w1) - {fd})"
    using assms(2) by (auto simp: client_fate_def)
  have "EvConnect u p \<notin> set evs" "EvSendFd u fd d \<notin> set evs" for u p d using e(3) by auto
  then have "left_behind fd (l @ evs) = left_behind fd l" by (simp add: left_behind_def)
  with l e show ?thesis unfolding client_fate_def by (intro exI [of _ "l @ evs"]) simp
qed

lemma client_fate_closed:
  assumes "sessions_only w v" and "fd \<in> set (fds w)" and "fd_wf w"
  shows "client_fate fd w (close fd v)"
proof -
  have f: "fds v = fds w" using assms(1) by (simp add: sessions_only_def)
  then have "log (close fd v) = [EvClose fd] @ log v" "set (fds (close fd v)) = set (fds v) - {fd}"
    using assms(2,3) by (simp_all add: fd_wf_def)
  moreover have "\<not> left_behind fd [EvClose fd]" by (simp add: left_behind_def)
  ultimately have "client_fate fd v (close fd v)" unfolding client_fate_def by (intro exI [of _ "[EvClose fd]"]) simp
  then show ?thesis using client_fate_sessions [OF assms(1)] by blast
qed

lemma gw_transfer_fate:
  assumes "fd \<in> set (fds w)" and "fd_wf w"
  shows "client_fate fd w (gw_transfer fd k s w)"
proof -
  let ?u = "fst (unix_client_connect (gw_sock_path k) w)"
  let ?w = "snd (unix_client_connect (gw_sock_path k) w)"
  note t = gw_transfer_fds [OF assms, of k s]
  show ?thesis
  proof (cases "?u < 0")
    case True
    then obtain evs where "log ?w = evs @ log w" "\<forall>e \<in> set evs. \<exists>x. x \<notin> set (fds w) \<and> e = EvClose x"
      using connect_fails_log by blast
    moreover from this(2) have "\<not> left_behind fd (EvClose fd # evs)" by (auto simp: left_behind_def)
    ultimately show ?thesis
      using True t assms(1) unfolding client_fate_def
      by (intro exI [of _ "EvClose fd # evs"]) (simp add: gw_transfer_connect_fails)
  next
    case False
    then have u: "?u \<notin> set (fds w)" "log ?w = EvConnect ?u (sun_path (gw_sock_path k)) # log w"
      "fds ?w = ?u # fds w" using connect_fresh [of "gw_sock_path k" w] connect_ok_log [of "gw_sock_path k" w] by auto
    show ?thesis
    proof (cases "gw_sent fd k s w")
      case True
      then obtain m where "log (snd (sendfd_with_state ?u fd (serial_bytes s) ?w)) =
          EvClose fd # EvSendFd ?u fd (take m (serial_bytes s)) # log ?w"
        using sendfd_log(1) [of ?u fd "serial_bytes s" ?w] assms(1) u(3) by (auto simp: gw_sent_def)
      moreover have "fd \<in> set (fds (snd (sendfd_with_state ?u fd (serial_bytes s) ?w))) \<or> fst (sendfd_with_state ?u fd (serial_bytes s) ?w) = 0"
        using True by (simp add: gw_sent_def)
      ultimately show ?thesis
        using True False t u assms(1) unfolding client_fate_def gw_transfer_connected [OF leI [OF False]]
        by (intro exI [of _ "[EvClose ?u, EvClose fd, EvSendFd ?u fd (take m (serial_bytes s)), EvConnect ?u (sun_path (gw_sock_path k))]"])
           (auto simp: left_behind_def gw_sent_def)
    next
      case no: False
      then have "log (snd (sendfd_with_state ?u fd (serial_bytes s) ?w)) = log ?w"
        "fst (sendfd_with_state ?u fd (serial_bytes s) ?w) \<noteq> 0"
        using False sendfd_log(2) [of ?u fd "serial_bytes s" ?w] by (auto simp: gw_sent_def)
      with no False t u assms(1) show ?thesis
        unfolding client_fate_def gw_transfer_connected [OF leI [OF False]]
        by (intro exI [of _ "[EvClose ?u, EvConnect ?u (sun_path (gw_sock_path k))]"])
           (auto simp: left_behind_def)
    qed
  qed
qed

lemma gw_before_transfer_sessions: "sessions_only w (gw_before_transfer L C p ctx w)"
  using tls_read_peek_frame [of C ctx 8191 w]
  by (auto simp: gw_before_transfer_def intro!: sessions_only_free sessions_only_same)

lemma gw_route_and_transfer_fate:
  assumes "fd \<in> set (fds w)" and "fd_wf w"
  shows "client_fate fd w (gw_route_and_transfer L C fd n p ctx w)"
proof (cases rule: gw_route_and_transfer_cases [of L C fd n p ctx w])
  case (dropped w1)
  show ?thesis
    unfolding dropped(1)
    by (rule client_fate_closed [OF sessions_only_free [OF sessions_only_same [OF dropped(2,5)]] assms])
next
  case (transferred blob)
  have "fd \<in> set (fds (gw_before_transfer L C p ctx w))" "fd_wf (gw_before_transfer L C p ctx w)"
    using assms by (simp_all add: fd_wf_def gw_before_transfer_frame)
  then show ?thesis
    unfolding transferred(1) by (rule client_fate_sessions [OF gw_before_transfer_sessions gw_transfer_fate])
qed

lemma handle_connection_fate:
  assumes fd: "fd \<in> set (fds w)" and wf: "fd_wf w"
  shows "client_fate fd w (handle_connection L C fd n w)"
proof (cases "fst (wolfSSL_new L w)")
  case None
  then have "handle_connection L C fd n w = close fd (snd (wolfSSL_new L w))"
    by (simp add: handle_connection_def split_beta)
  then show ?thesis using assms by (simp add: client_fate_closed sessions_only_same)
next
  case (Some p)
  define w1 where "w1 = wolfSSL_set_fd L p fd (snd (wolfSSL_new L w))"
  define w2 where "w2 = snd (wolfSSL_accept L p w1)"
  define w3 where "w3 = snd (ssl_query (ws_cipher_name L) None p w2)"
  define ctx where "ctx = run_callbacks C (snd (snd (fst (wolfSSL_accept L p w1))))
     (zero_ctx\<lparr>tcp_fd := fd, ssl := Some p\<rparr>)"
  define ctx' where "ctx' = ctx\<lparr>cipher_suite :=
     gw_cipher_suite (fst (ssl_query (ws_cipher_name L) None p w2)) (cipher_suite ctx)\<rparr>"
  have w2: "fds w2 = fds w" "log w2 = log w" "fds w3 = fds w" "log w3 = log w"
    by (simp_all add: w1_def w2_def w3_def)
  have eq: "handle_connection L C fd n w =
      (if \<not> fst (fst (wolfSSL_accept L p w1)) then close fd (wolfSSL_free p w2)
       else if keys_ready ctx = 0 then close fd (wolfSSL_free p (wolfSSL_shutdown p w2))
       else gw_route_and_transfer L C fd n p ctx' w3)"
    unfolding handle_connection_def w3_def w2_def ctx'_def ctx_def w1_def
    using Some by (simp add: split_beta Let_def)
  have s2: "sessions_only w w2" and s3: "sessions_only w w3" using w2 by (simp_all add: sessions_only_same)
  have "client_fate fd w3 (gw_route_and_transfer L C fd n p ctx' w3)"
    using w2 fd wf by (intro gw_route_and_transfer_fate) (simp_all add: fd_wf_def)
  then show ?thesis
    unfolding eq using client_fate_sessions [OF s3] client_fate_closed [OF sessions_only_free [OF s2] fd wf]
      client_fate_closed [OF sessions_only_free [OF sessions_only_shutdown [OF s2]] fd wf]
    by (simp split: if_split)
qed

subsection \<open>The accept loop\<close>

lemma gw_accept_round_inv:
  assumes "fd_wf w" "ssl_wf w"
  shows "tidy w (gw_accept_round L C n w) \<and> fd_wf (gw_accept_round L C n w)
       \<and> ssl_wf (gw_accept_round L C n w) \<and> set (fds w) \<subseteq> set (fds (gw_accept_round L C n w))"
proof (cases "fst (sys_newfd w) < 0")
  case True
  with assms show ?thesis
    by (simp add: gw_accept_round_def split_beta tidy_def fd_wf_def ssl_wf_def)
next
  case False
  let ?w = "snd (sys_newfd w)" and ?fd = "fst (sys_newfd w)"
  have fresh: "?fd \<notin> set (fds w)" using False sys_newfd_fresh [of w] by simp
  have "?fd \<in> set (fds ?w)" "fd_wf ?w" "ssl_wf ?w"
    using False fresh assms by (simp_all add: fd_wf_def ssl_wf_def)
  from handle_connection_resources [OF this, of L C n] False fresh show ?thesis
    by (auto simp: gw_accept_round_def split_beta tidy_def)
qed

lemma gw_reach_inv:
  "gw_reach L C n w0 w \<Longrightarrow> fd_wf w0 \<Longrightarrow> ssl_wf w0 \<Longrightarrow>
     fd_wf w \<and> ssl_wf w \<and> live w = live w0 \<and> ub w = ub w0
   \<and> bad_closes (log w) = bad_closes (log w0) \<and> set (fds w0) \<subseteq> set (fds w)"
proof (induction rule: gw_reach.induct)
  case start
  then show ?case by simp
next
  case (step w w')
  then have IH: "fd_wf w" "ssl_wf w" "live w = live w0" "ub w = ub w0"
    "bad_closes (log w) = bad_closes (log w0)" "set (fds w0) \<subseteq> set (fds w)" by auto
  from step.hyps(2) consider
      (accepted) "w' = gw_accept_round L C n w"
    | (delivered) as q where "w' = w\<lparr>script := as, rxq := q\<rparr>"
    by (elim gw_stepE)
  then show ?case
  proof cases
    case accepted
    with gw_accept_round_inv [OF IH(1,2), of L C n] IH show ?thesis by (auto simp: tidy_def)
  next
    case delivered
    with IH show ?thesis by (simp add: fd_wf_def ssl_wf_def live_def)
  qed
qed

subsection \<open>Routing\<close>

lemma find_at_middle: "find_at n (p @ n @ r) \<noteq> None"
proof
  assume "find_at n (p @ n @ r) = None"
  then have "take (length n) (drop (length p) (p @ n @ r)) \<noteq> n"
    unfolding find_at_None by (metis le_add1 length_append)
  then show False by simp
qed

lemma strstr_found_middle: "0 \<notin> set (p @ n @ r) \<Longrightarrow> strstr_found (p @ n @ r) n"
  using find_at_middle [of n p r] by (simp add: strstr_found_def strstr_def cstr_id)

definition route_table :: "(bytes \<times> int) list" where
  "route_table = [(cs ''GET /function/hello'', 0), (cs ''GET /function/compute'', 1),
                  (cs ''POST /function/echo'', 0), (cs ''GET /function/status'', 1)]"

lemma route_request_table:
  "0 < len \<Longrightarrow> route_request (Some h) len =
     (case find (\<lambda>(pat, _). strstr_found h pat) route_table of None \<Rightarrow> 0 | Some (_, k) \<Rightarrow> k)"
  by (simp add: route_request_def route_table_def)

lemma route_request_range: "route_request h len \<in> {0, 1}"
  by (simp add: route_request_def split: option.split)

subsection \<open>What the worker receives\<close>

lemma gw_serial_wf: "ctx_wf ctx \<Longrightarrow> length blob \<le> 16384 \<Longrightarrow> serial_wf (gw_serial ctx blob)"
  by (simp add: serial_wf_def gw_serial_def zero_serial_def ctx_wf_def)

lemma gw_serial_peek_ctx:
  "0 \<le> fd \<Longrightarrow> \<exists>ctx'. tlspeek_restore_peek_ctx fd (Some (gw_serial ctx blob)) = (0, Some ctx')
     \<and> tcp_fd ctx' = fd \<and> keys_ready ctx' = 1 \<and> peek_record C ctx' = peek_record C ctx"
  by (simp add: tlspeek_restore_peek_ctx_def gw_serial_def) (rule peek_record_cong, simp_all)

text \<open>The events of a transfer whose message the kernel took, as many bytes of it as the kernel said.\<close>

lemma gw_transfer_sent_log:
  assumes "0 \<le> fst (unix_client_connect (gw_sock_path k) w)" and "fd \<in> set (fds w)" and "0 \<le> m"
    and "fst (next_answer (snd (unix_client_connect (gw_sock_path k) w))) = Ok m"
  shows "\<exists>uds. uds \<notin> set (fds w) \<and> log (gw_transfer fd k s w) =
     [EvClose uds, EvClose fd, EvSendFd uds fd (take (nat m) (serial_bytes s)),
      EvConnect uds (sun_path (gw_sock_path k))] @ log w"
proof -
  let ?u = "fst (unix_client_connect (gw_sock_path k) w)"
  let ?w = "snd (unix_client_connect (gw_sock_path k) w)"
  have fresh: "?u \<notin> set (fds w)" using connect_fresh [OF assms(1)] .
  have lg: "log ?w = EvConnect ?u (sun_path (gw_sock_path k)) # log w" using connect_ok_log [OF assms(1)] .
  have sm: "sendmsg_fd ?u fd (serial_bytes s) ?w =
      (int (length (take (nat m) (serial_bytes s))),
       emit (EvSendFd ?u fd (take (nat m) (serial_bytes s))) (snd (next_answer ?w)))"
    using assms(4) by (simp add: sendmsg_fd_def split_beta)
  have "sendfd_with_state ?u fd (serial_bytes s) ?w =
      (0, close fd (emit (EvSendFd ?u fd (take (nat m) (serial_bytes s))) (snd (next_answer ?w))))"
    by (simp add: sendfd_with_state_def sm)
  then show ?thesis
    using fresh assms(1,2) lg by (intro exI [of _ ?u]) (auto simp: gw_transfer_connected)
qed

lemma gw_request_routed:
  fixes n :: int
  assumes "fst (tls_read_peek C ctx 8191 w) = (int (length r), r)" "r \<noteq> []"
    and "ssls w p = Some s" "ws_export L s = (e, blob)" "0 \<le> e"
  defines "k \<equiv> (let wid = route_request (Some r) (int (length r))
                in if wid < 0 \<or> n \<le> wid then 0 else wid)"
  shows "gw_route_and_transfer L C fd n p ctx w =
           gw_transfer fd k (gw_serial ctx blob) (gw_before_transfer L C p ctx w)"
proof -
  have x: "fst (wolfSSL_tls_export L p (snd (tls_read_peek C ctx 8191 w))) = (e, blob)"
    using assms(3,4) by (simp add: wolfSSL_tls_export_def ssl_query_def)
  have len: "\<not> 8192 \<le> int (length r)" using peek_len_bound [of C ctx 8191 w] assms(1) by simp
  have fl: "flag_ub False v = v" for v :: "'a world" by (simp add: flag_ub_def)
  show ?thesis
    unfolding gw_route_and_transfer_def TLSPEEK_MAX_REQUEST_SZ_def gw_before_transfer_def k_def
    using assms(1,2,5) len x by (simp add: split_beta Let_def fl)
qed

subsection \<open>Properties\<close>

text \<open>
  C30. However the environment behaves, handling a connection frees the session it created, uses no
  freed session and overruns no buffer, closes nothing that is not open, leaves the client's unread
  bytes in the kernel and every other descriptor open, and keeps the table well formed.  The client's own
  descriptor is closed, with one exception: it stays open exactly when a worker was connected to and the
  client was not sent.
\<close>

theorem gateway_connection_resources:
  assumes "fd \<in> set (fds w)" and "fd_wf w" and "ssl_wf w"
  shows "live (handle_connection L C fd n w) = live w
       \<and> ub (handle_connection L C fd n w) = ub w
       \<and> rxq (handle_connection L C fd n w) = rxq w
       \<and> bad_closes (log (handle_connection L C fd n w)) = bad_closes (log w)
       \<and> fd_wf (handle_connection L C fd n w)
       \<and> set (fds (handle_connection L C fd n w)) =
           (if left_behind fd (events_since w (handle_connection L C fd n w))
            then set (fds w) else set (fds w) - {fd})"
  using handle_connection_resources [OF assms, of L C n] client_fateD [OF handle_connection_fate [OF assms(1,2), of L C n]]
  by (simp add: tidy_def)

theorem gateway_connection_resources_witness:
  "live (handle_connection echo_ssl clear_crypto 5 2 ((boot [Ok 0, Ok 1])\<lparr>fds := [5, 3]\<rparr>)) = {}"
  using gateway_connection_resources
          [of 5 "(boot [Ok 0, Ok 1])\<lparr>fds := [5, 3]\<rparr>" echo_ssl clear_crypto 2]
  by (simp add: fd_wf_def ssl_wf_def live_def)

text \<open>
  A gateway child that accepts and handles connections for ever never uses a freed session, never
  accumulates sessions, never closes a descriptor twice, and never loses a descriptor it started with,
  whatever arrives and whatever fails in between.
\<close>

theorem gateway_runs_safely:
  assumes "gw_reach L C n w0 w" and "fd_wf w0" and "ssl_wf w0"
  shows "live w = live w0 \<and> ub w = ub w0 \<and> bad_closes (log w) = bad_closes (log w0)
       \<and> fd_wf w \<and> set (fds w0) \<subseteq> set (fds w)"
  using gw_reach_inv [OF assms] by auto

theorem gateway_runs_safely_witness:
  "live (gw_accept_round echo_ssl clear_crypto 2 (boot [Ok 0, Ok 0])) = {}"
  using gateway_runs_safely [OF gw_reach.step [OF gw_reach.start gw_step.accept_one],
      of "boot [Ok 0, Ok 0]" echo_ssl clear_crypto 2]
  by (simp add: fd_wf_def ssl_wf_def)

text \<open>
  C34. When the connection to the worker succeeds but \<^verbatim>\<open>sendmsg\<close> does not, the gateway keeps the
  client's descriptor open: the handler returns without closing it and without having passed it on.
\<close>

theorem failed_transfer_leaks_client:
  assumes "fd \<in> set (fds w)" and "fd_wf w" and "0 \<le> fst (unix_client_connect (gw_sock_path k) w)"
    and "fst (sendmsg_fd (fst (unix_client_connect (gw_sock_path k) w)) fd (serial_bytes s)
               (snd (unix_client_connect (gw_sock_path k) w))) < 0"
  shows "fd \<in> set (fds (gw_transfer fd k s w))"
proof -
  have "\<not> gw_sent fd k s w"
    using assms(4) by (simp add: gw_sent_def sendfd_with_state_def split_beta)
  with gw_transfer_fds [OF assms(1,2), of k s] assms(1,3) show ?thesis by simp
qed

theorem failed_transfer_leaks_client_witness:
  "5 \<in> set (fds (gw_transfer 5 0 zero_serial
                    ((boot [Ok 0, Ok 0, Err EMSGSIZE] :: unit world)\<lparr>fds := [5]\<rparr>)))"
  using failed_transfer_leaks_client
          [of 5 "(boot [Ok 0, Ok 0, Err EMSGSIZE] :: unit world)\<lparr>fds := [5]\<rparr>" 0 zero_serial]
  by (simp add: fd_wf_def unix_client_connect_def sys_newfd_def sys_status_def next_answer_def boot_def
      Let_def lowest_free_def sendmsg_fd_def emit_def set_errno_def)

text \<open>
  The router takes the first entry of its table that occurs anywhere in the peeked text, not only
  in the request line: whatever line the request starts with, text that contains a request for the
  hello function is sent to worker 0.
\<close>

theorem router_matches_anywhere:
  assumes "0 \<notin> set (before @ cs ''GET /function/hello'' @ after)"
  shows "route_request (Some (before @ cs ''GET /function/hello'' @ after)) len = 0
       \<and> (\<forall>h m. 0 < m \<longrightarrow> route_request (Some h) m =
            (case find (\<lambda>(pat, _). strstr_found h pat) route_table of None \<Rightarrow> 0 | Some (_, k) \<Rightarrow> k))"
  using strstr_found_middle [OF assms] route_request_table
  by (simp add: route_request_def)

theorem router_matches_anywhere_witness:
  "route_request (Some (cs ''GET /function/compute?q='' @ cs ''GET /function/hello'' @ [])) 40 = 0
 \<and> route_request (Some (cs ''GET /function/compute?q='')) 24 = 1"
  using router_matches_anywhere [of "cs ''GET /function/compute?q=''" "[]" 40]
  by (simp add: cs_def route_request_def strstr_found_def strstr_def cstr_def)

end
