(* ===== verification/Worker.thy ===== *)
theory Worker
  imports SendFd
begin

text \<open>
  \<^verbatim>\<open>libtlspeek/worker/handler.c\<close> and \<^verbatim>\<open>worker.c\<close>: the request handler and the epoll loop of the worker.
  The table \<open>clients\<close> is a function from descriptors to connection states; the state of the worker is
  this table and the world.  The loop runs for ever: \<open>wk_step\<close> relates the states before and after one
  event.

  The double arithmetic of the C implementation (\<^verbatim>\<open>atof\<close>, sum, product and the conversion \<^verbatim>\<open>%.2f\<close>) is
  the parameter \<open>'f cdouble\<close>.
\<close>

subsection \<open>\<^verbatim>\<open>handler.c\<close>\<close>

record 'f cdouble =
  d_zero :: 'f
  d_atof :: "bytes \<Rightarrow> 'f"
  d_add :: "'f \<Rightarrow> 'f \<Rightarrow> 'f"
  d_mul :: "'f \<Rightarrow> 'f \<Rightarrow> 'f"
  d_fmt2 :: "'f \<Rightarrow> bytes"

definition url_param :: "'f cdouble \<Rightarrow> bytes \<Rightarrow> bytes \<Rightarrow> 'f" where
  "url_param F request key =
     (case strstr request key of None \<Rightarrow> d_zero F | Some i \<Rightarrow> d_atof F (drop (i + 2) (cstr request)))"

text \<open>The text of the body before \<open>snprintf\<close> cuts it to the array.\<close>

definition handler_body :: "'f cdouble \<Rightarrow> bytes \<Rightarrow> int \<Rightarrow> bytes" where
  "handler_body F request worker_id =
     (let function =
            (if strstr_found request (cs ''/sum'') then cs ''sum''
             else if strstr_found request (cs ''/product'') then cs ''product''
             else if strstr_found request (cs ''/hello'') then cs ''hello'' else []);
          a = url_param F request (cs ''a='');
          b = url_param F request (cs ''b='')
      in if function = cs ''sum'' then
           cs ''{\"worker\":'' @ dec_int worker_id @ cs '',\"result\":'' @ d_fmt2 F (d_add F a b)
           @ cs '',\"op\":\"sum\"}'' @ [LF]
         else if function = cs ''product'' then
           cs ''{\"worker\":'' @ dec_int worker_id @ cs '',\"result\":'' @ d_fmt2 F (d_mul F a b)
           @ cs '',\"op\":\"product\"}'' @ [LF]
         else
           cs ''{\"worker\":'' @ dec_int worker_id @ cs '',\"message\":\"Hello from Hot Potato Worker\"}''
           @ [LF])"

definition handler_head :: "int \<Rightarrow> nat \<Rightarrow> bytes" where
  "handler_head worker_id body_len =
     cs ''HTTP/1.1 200 OK'' @ crlf @ cs ''Content-Type: application/json'' @ crlf
     @ cs ''X-Served-By: worker-'' @ dec_int worker_id @ crlf
     @ cs ''Content-Length: '' @ dec_digits body_len @ crlf
     @ cs ''Connection: keep-alive'' @ crlf @ crlf"

definition handle_http_request ::
  "'f cdouble \<Rightarrow> bytes \<Rightarrow> int \<Rightarrow> 's world \<Rightarrow> bytes option \<times> 's world" where
  "handle_http_request F request worker_id w =
     (let (ok, w) = sys_alloc w
      in if \<not> ok then (None, w)
         else
           (let text = handler_body F request worker_id;
                body_len = length text;
                body = take 255 text
            in (Some (take 4095 (handler_head worker_id body_len @ body)), w)))"

subsection \<open>The table of clients\<close>

definition MAX_FDS :: int where "MAX_FDS = 65536"

record conn_state =
  active :: bool
  is_migration :: bool
  conn_ssl :: "nat option"

type_synonym clients = "int \<Rightarrow> conn_state"

definition zero_conn :: conn_state where
  "zero_conn = \<lparr>active = False, is_migration = False, conn_ssl = None\<rparr>"

text \<open>An index outside the array is undefined behaviour.\<close>

definition client_index :: "int \<Rightarrow> 's world \<Rightarrow> 's world" where
  "client_index fd w = flag_ub (fd < 0 \<or> MAX_FDS \<le> fd) w"

definition wk_set_nonblocking :: "int \<Rightarrow> 's world \<Rightarrow> 's world" where
  "wk_set_nonblocking fd w =
     (let (flags, w) = sys_value w; (r, w) = sys_status w
      in if r < 0 then w else emit (EvNonblock fd) w)"

definition epoll_del :: "int \<Rightarrow> 's world \<Rightarrow> 's world" where
  "epoll_del fd w = (let (r, w) = sys_status w in if r < 0 then w else emit (EvEpollDel fd) w)"

definition epoll_add :: "int \<Rightarrow> 's world \<Rightarrow> 's world" where
  "epoll_add fd w = (let (r, w) = sys_status w in if r < 0 then w else emit (EvEpollAdd fd) w)"

definition close_client :: "int \<Rightarrow> clients \<Rightarrow> 's world \<Rightarrow> clients \<times> 's world" where
  "close_client fd cl w =
     (let w = client_index fd w
      in if \<not> active (cl fd) then (cl, w)
         else
           (let w = epoll_del fd w;
                w = (if is_migration (cl fd)
                     then (case conn_ssl (cl fd) of
                             None \<Rightarrow> w
                           | Some p \<Rightarrow> wolfSSL_free p (wolfSSL_shutdown p w))
                     else w);
                w = close fd w
            in (cl(fd := zero_conn), w)))"

subsection \<open>A message on the Unix socket\<close>

text \<open>
  The two kinds of connection: a migrated TLS connection with its serialised session, or a plain
  connection whose first bytes were read into the structure.  The \<open>bool\<close> says that the descriptor is
  added to the epoll set at the end of the round.
\<close>

definition wk_migrate ::
  "'s wolfssl \<Rightarrow> int \<Rightarrow> tlspeek_serial \<Rightarrow> clients \<Rightarrow> 's world \<Rightarrow> bool \<times> clients \<times> 's world" where
  "wk_migrate L client_fd serial cl w =
     (let (ssl_p, w) = wolfSSL_new L w
      in case ssl_p of
           None \<Rightarrow> (False, cl, close client_fd w)
         | Some p \<Rightarrow>
             (let w = wolfSSL_set_fd L p client_fd w;
                  (r, w) = tlspeek_restore L p serial w
              in if r \<noteq> 0 then (False, cl, close client_fd (wolfSSL_free p w))
                 else
                   (let w = client_index client_fd (wolfSSL_set_fd L p client_fd w)
                    in (True, cl(client_fd := \<lparr>active = True, is_migration = True,
                                               conn_ssl = Some p\<rparr>), w))))"

definition wk_plain ::
  "'f cdouble \<Rightarrow> int \<Rightarrow> int \<Rightarrow> bytes \<Rightarrow> clients \<Rightarrow> 's world \<Rightarrow> bool \<times> clients \<times> 's world" where
  "wk_plain F worker_id client_fd data cl w =
     (let w = client_index client_fd w;
          cl = cl(client_fd := \<lparr>active = True, is_migration = False, conn_ssl = None\<rparr>)
      in if 0 < length data \<and> length data \<le> SIZEOF_serial then
           \<comment> \<open>the copy and its terminator go into \<^verbatim>\<open>char request[8192]\<close>\<close>
           (let w = flag_ub (8192 \<le> length data) w;
                (response, w) = handle_http_request F data worker_id w
            in case response of
                 None \<Rightarrow> (True, cl, w)
               | Some r \<Rightarrow> (let (_, w) = sys_write client_fd (cstr r) w in (True, cl, w)))
         else (True, cl, w))"

text \<open>One round of the accept loop: \<open>False\<close> when \<open>accept\<close> found nothing more.\<close>

definition wk_accept_round ::
  "'s wolfssl \<Rightarrow> 'f cdouble \<Rightarrow> int \<Rightarrow> clients \<Rightarrow> 's world \<Rightarrow> bool \<times> clients \<times> 's world" where
  "wk_accept_round L F worker_id cl w =
     (let (conn_fd, w) = unix_accept w
      in if conn_fd < 0 then (False, cl, w)
         else
           (let ((n, m), w) = recvmsg SIZEOF_serial w
            in if n \<le> 0 then (True, cl, close conn_fd w)
               else
                 (let is_migr = (case rm_cmsg m of None \<Rightarrow> False | Some c \<Rightarrow> cmsg_type c = SCM_RIGHTS);
                      client_fd = (if is_migr then rm_fd m else conn_fd);
                      w = (if is_migr then close conn_fd w else w);
                      w = wk_set_nonblocking client_fd w;
                      serial = bytes_serial (overwrite (zeros SIZEOF_serial) (rm_data m));
                      (keep, cl, w) =
                        (if is_migr then wk_migrate L client_fd serial cl w
                         else wk_plain F worker_id client_fd (rm_data m) cl w)
                  in if keep then (True, cl, epoll_add client_fd w) else (True, cl, w))))"

subsection \<open>An event of a client\<close>

text \<open>
  The write loop on a migrated connection.  Each round writes at least one byte or ends the loop, so
  the bytes still to be written decrease.  \<open>True\<close> when the connection is to be closed.
\<close>

function wk_write_loop :: "'s wolfssl \<Rightarrow> nat \<Rightarrow> bytes \<Rightarrow> 's world \<Rightarrow> bool \<times> 's world" where
  "wk_write_loop L p rest w =
     (if rest = [] then (False, w)
      else
        (let ((written, e), w) = wolfSSL_write L p rest w
         in if 0 < written then wk_write_loop L p (drop (nat written) rest) w
            else if e = WANT_READ \<or> e = WANT_WRITE then (False, w)
            else (True, w)))"
  by pat_completeness auto

termination
  by (relation "measure (\<lambda>(L, p, rest, w). length rest)") (auto simp: Let_def)

declare wk_write_loop.simps [simp del]

definition wk_respond ::
  "'s wolfssl \<Rightarrow> 'f cdouble \<Rightarrow> int \<Rightarrow> int \<Rightarrow> conn_state \<Rightarrow> bytes \<Rightarrow> 's world \<Rightarrow> bool \<times> 's world" where
  "wk_respond L F worker_id fd c request w =
     (let (response, w) = handle_http_request F request worker_id w
      in case response of
           None \<Rightarrow> (True, w)
         | Some r \<Rightarrow>
             if is_migration c
             then (case conn_ssl c of
                     None \<Rightarrow> (True, flag_ub True w)
                   | Some p \<Rightarrow> wk_write_loop L p (cstr r) w)
             else (let (_, w) = sys_write fd (cstr r) w in (False, w)))"

text \<open>The read of up to 8191 bytes: result, data, and the error code the caller looks at.\<close>

definition wk_read ::
  "'s wolfssl \<Rightarrow> conn_state \<Rightarrow> 's world \<Rightarrow> (int \<times> bytes \<times> err) \<times> 's world" where
  "wk_read L c w =
     (if is_migration c
      then (case conn_ssl c of
              None \<Rightarrow> ((-1, [], EOTHER), flag_ub True w)
            | Some p \<Rightarrow> wolfSSL_read L p 8191 w)
      else (let ((r, b), w) = sys_read 8191 w in ((r, b, errno w), w)))"

definition wk_client_event ::
  "'s wolfssl \<Rightarrow> 'f cdouble \<Rightarrow> int \<Rightarrow> int \<Rightarrow> clients \<Rightarrow> 's world \<Rightarrow> clients \<times> 's world" where
  "wk_client_event L F worker_id fd cl w =
     (let w = client_index fd w; c = cl fd
      in if \<not> active c then (cl, w)
         else
           (let ((req_len, request, e), w) = wk_read L c w
            in if 0 < req_len then
                 (let (bad, w) = wk_respond L F worker_id fd c request w
                  in if bad then close_client fd cl w else (cl, w))
               else if req_len < 0 then
                 (if is_migration c
                  then (if e = WANT_READ \<or> e = WANT_WRITE then (cl, w) else close_client fd cl w)
                  else (if e = EAGAIN then (cl, w) else close_client fd cl w))
               else close_client fd cl w))"

text \<open>
  What the kernel guarantees of a control message with descriptors: its level, and room for at least
  one descriptor.
\<close>

definition kernel_rights :: "'s world \<Rightarrow> bool" where
  "kernel_rights w =
     (case fst (next_answer w) of
        Msg d (Some c) t \<Rightarrow>
          cmsg_type c = SCM_RIGHTS \<longrightarrow> cmsg_level c = SOL_SOCKET \<and> CMSG_LEN_int \<le> cmsg_len c
      | _ \<Rightarrow> True)"

inductive wk_step ::
  "'s wolfssl \<Rightarrow> 'f cdouble \<Rightarrow> int \<Rightarrow> clients \<times> 's world \<Rightarrow> clients \<times> 's world \<Rightarrow> bool"
  for L :: "'s wolfssl" and F :: "'f cdouble" and wid :: int where
  accept_round: "kernel_rights (snd (unix_accept w)) \<Longrightarrow> wk_step L F wid (cl, w) (snd (wk_accept_round L F wid cl w))"
| client_event: "wk_step L F wid (cl, w) (wk_client_event L F wid fd cl w)"
| wk_kernel: "wk_step L F wid (cl, w) (cl, w\<lparr>script := as, rxq := q\<rparr>)"

inductive wk_reach ::
  "'s wolfssl \<Rightarrow> 'f cdouble \<Rightarrow> int \<Rightarrow> clients \<times> 's world \<Rightarrow> clients \<times> 's world \<Rightarrow> bool"
  for L :: "'s wolfssl" and F :: "'f cdouble" and wid :: int and s0 :: "clients \<times> 's world" where
  wk_start: "wk_reach L F wid s0 s0"
| wk_next: "wk_reach L F wid s0 s \<Longrightarrow> wk_step L F wid s s' \<Longrightarrow> wk_reach L F wid s0 s'"

inductive_cases wk_stepE: "wk_step L F wid s s'"


subsection \<open>The invariant of the table\<close>

definition wk_inv :: "clients \<Rightarrow> 's world \<Rightarrow> bool" where
  "wk_inv cl w =
     (fd_wf w \<and> ssl_wf w
    \<and> (\<forall>fd. active (cl fd) \<longrightarrow> fd \<in> set (fds w) \<and> 0 \<le> fd)
    \<and> (\<forall>fd. conn_ssl (cl fd) \<noteq> None \<longleftrightarrow> active (cl fd) \<and> is_migration (cl fd))
    \<and> (\<forall>fd fd' p. conn_ssl (cl fd) = Some p \<longrightarrow> conn_ssl (cl fd') = Some p \<longrightarrow> fd = fd')
    \<and> live w = {p. \<exists>fd. conn_ssl (cl fd) = Some p})"

lemma wk_inv_frame:
  "wk_inv cl w \<Longrightarrow> fds w' = fds w \<Longrightarrow> live w' = live w \<Longrightarrow> next_ssl w' = next_ssl w \<Longrightarrow> wk_inv cl w'"
  by (simp add: wk_inv_def fd_wf_def ssl_wf_def)

lemma wk_inv_more_fds:
  "wk_inv cl w \<Longrightarrow> fd_wf w' \<Longrightarrow> set (fds w) \<subseteq> set (fds w') \<Longrightarrow> live w' = live w \<Longrightarrow>
     next_ssl w' = next_ssl w \<Longrightarrow> wk_inv cl w'"
  by (auto simp: wk_inv_def ssl_wf_def)

lemma wk_inv_live: "wk_inv cl w \<Longrightarrow> conn_ssl (cl fd) = Some p \<Longrightarrow> p \<in> live w"
  by (auto simp: wk_inv_def)

lemma wk_inv_migr:
  "wk_inv cl w \<Longrightarrow> conn_ssl (cl fd) = None \<longleftrightarrow> \<not> (active (cl fd) \<and> is_migration (cl fd))"
  unfolding wk_inv_def by blast

lemma wk_inv_session:
  "wk_inv cl w \<Longrightarrow> active (cl fd) \<Longrightarrow> is_migration (cl fd) \<Longrightarrow> \<exists>p \<in> live w. conn_ssl (cl fd) = Some p"
  using wk_inv_migr [of cl w fd] wk_inv_live [of cl w fd] by (cases "conn_ssl (cl fd)") auto

lemma client_index_frame [simp]:
  "fds (client_index fd w) = fds w" "rxq (client_index fd w) = rxq w"
  "live (client_index fd w) = live w" "next_ssl (client_index fd w) = next_ssl w"
  "log (client_index fd w) = log w"
  "ub (client_index fd w) = (ub w \<or> fd < 0 \<or> MAX_FDS \<le> fd)"
  by (simp_all add: client_index_def)

lemma wk_small_frames [simp]:
  "fds (wk_set_nonblocking fd w) = fds w" "live (wk_set_nonblocking fd w) = live w"
  "next_ssl (wk_set_nonblocking fd w) = next_ssl w" "ub (wk_set_nonblocking fd w) = ub w"
  "fds (epoll_del fd w) = fds w" "live (epoll_del fd w) = live w"
  "next_ssl (epoll_del fd w) = next_ssl w" "ub (epoll_del fd w) = ub w"
  "fds (epoll_add fd w) = fds w" "live (epoll_add fd w) = live w"
  "next_ssl (epoll_add fd w) = next_ssl w" "ub (epoll_add fd w) = ub w"
  by (simp_all add: wk_set_nonblocking_def epoll_del_def epoll_add_def Let_def split_beta)

lemma handle_http_request_frame [simp]:
  "fds (snd (handle_http_request F r k w)) = fds w"
  "live (snd (handle_http_request F r k w)) = live w"
  "next_ssl (snd (handle_http_request F r k w)) = next_ssl w"
  "ub (snd (handle_http_request F r k w)) = ub w"
  by (simp_all add: handle_http_request_def Let_def split_beta)

lemma sessions_clear:
  assumes "conn_ssl (cl fd) = Some p" and "\<And>fd'. conn_ssl (cl fd') = Some p \<Longrightarrow> fd' = fd"
  shows "{q. \<exists>fd'. conn_ssl ((cl(fd := zero_conn)) fd') = Some q} =
         {q. \<exists>fd'. conn_ssl (cl fd') = Some q} - {p}"
proof (intro equalityI subsetI)
  fix q
  assume "q \<in> {q. \<exists>fd'. conn_ssl ((cl(fd := zero_conn)) fd') = Some q}"
  then obtain fd' where "fd' \<noteq> fd" "conn_ssl (cl fd') = Some q"
    by (auto simp: zero_conn_def split: if_splits)
  with assms(2) show "q \<in> {q. \<exists>fd'. conn_ssl (cl fd') = Some q} - {p}" by auto
next
  fix q
  assume "q \<in> {q. \<exists>fd'. conn_ssl (cl fd') = Some q} - {p}"
  then obtain fd' where "conn_ssl (cl fd') = Some q" "q \<noteq> p" by auto
  with assms(1) have "conn_ssl ((cl(fd := zero_conn)) fd') = Some q" by auto
  then show "q \<in> {q. \<exists>fd'. conn_ssl ((cl(fd := zero_conn)) fd') = Some q}" by blast
qed

lemma close_client_inv:
  assumes "wk_inv cl w"
  shows "wk_inv (fst (close_client fd cl w)) (snd (close_client fd cl w))"
proof (cases "active (cl fd)")
  case False
  then show ?thesis
    using assms by (auto simp: close_client_def Let_def intro: wk_inv_frame)
next
  case True
  let ?w = "epoll_del fd (client_index fd w)"
  have inv: "wk_inv cl ?w" using assms by (auto intro: wk_inv_frame)
  show ?thesis
  proof (cases "conn_ssl (cl fd)")
    case None
    with True wk_inv_migr [OF assms, of fd] have m: "\<not> is_migration (cl fd)" by simp
    have "close_client fd cl w = (cl(fd := zero_conn), close fd ?w)"
      using True m by (simp add: close_client_def Let_def)
    moreover have "{p. \<exists>fd'. conn_ssl ((cl(fd := zero_conn)) fd') = Some p} =
        {p. \<exists>fd'. conn_ssl (cl fd') = Some p}"
      using None by (force simp: zero_conn_def)
    ultimately show ?thesis
      using inv by (auto simp: wk_inv_def fd_wf_def ssl_wf_def zero_conn_def)
  next
    case (Some p)
    with True wk_inv_migr [OF assms, of fd] have m: "is_migration (cl fd)" by simp
    have e: "close_client fd cl w =
        (cl(fd := zero_conn), close fd (wolfSSL_free p (wolfSSL_shutdown p ?w)))"
      using True m Some by (simp add: close_client_def Let_def)
    have u: "\<And>fd'. conn_ssl (cl fd') = Some p \<Longrightarrow> fd' = fd"
      using inv Some unfolding wk_inv_def by blast
    have l: "live ?w - {p} = {q. \<exists>fd'. conn_ssl ((cl(fd := zero_conn)) fd') = Some q}"
      using inv sessions_clear [of cl fd p, OF Some u] by (simp add: wk_inv_def)
    show ?thesis
      using inv l unfolding e by (auto simp: wk_inv_def fd_wf_def ssl_wf_def zero_conn_def)
  qed
qed

lemma close_client_ub:
  "wk_inv cl w \<Longrightarrow> 0 \<le> fd \<Longrightarrow> fd < MAX_FDS \<Longrightarrow> ub (snd (close_client fd cl w)) = ub w"
  by (auto simp: close_client_def Let_def wk_inv_live split: option.split)

lemma wk_write_loop_frame:
  "fds (snd (wk_write_loop L p rest w)) = fds w \<and> live (snd (wk_write_loop L p rest w)) = live w
 \<and> next_ssl (snd (wk_write_loop L p rest w)) = next_ssl w
 \<and> (p \<in> live w \<longrightarrow> ub (snd (wk_write_loop L p rest w)) = ub w)"
proof (induction L p rest w rule: wk_write_loop.induct)
  case (1 L p rest w)
  obtain r e w1 where wr: "wolfSSL_write L p rest w = ((r, e), w1)" by (metis prod.exhaust)
  have f: "fds w1 = fds w" "live w1 = live w" "next_ssl w1 = next_ssl w" "p \<in> live w \<Longrightarrow> ub w1 = ub w"
    using wolfSSL_write_frame [of L p rest w] by (simp_all add: wr)
  from 1 [OF _ wr [symmetric] refl] f show ?case
    by (subst (1 2 3 4) wk_write_loop.simps) (auto simp: wr)
qed

lemma wk_respond_frame:
  "fds (snd (wk_respond L F k fd c r w)) = fds w \<and> live (snd (wk_respond L F k fd c r w)) = live w
 \<and> next_ssl (snd (wk_respond L F k fd c r w)) = next_ssl w
 \<and> ((\<exists>p \<in> live w. conn_ssl c = Some p) \<or> \<not> is_migration c \<longrightarrow>
      ub (snd (wk_respond L F k fd c r w)) = ub w)"
  by (auto simp: wk_respond_def Let_def split_beta wk_write_loop_frame split: option.split)

lemma wk_read_frame:
  "fds (snd (wk_read L c w)) = fds w \<and> live (snd (wk_read L c w)) = live w
 \<and> next_ssl (snd (wk_read L c w)) = next_ssl w
 \<and> ((\<exists>p \<in> live w. conn_ssl c = Some p) \<or> \<not> is_migration c \<longrightarrow> ub (snd (wk_read L c w)) = ub w)"
  by (auto simp: wk_read_def Let_def split_beta split: option.split)

lemma wk_client_event_inv:
  assumes "wk_inv cl w"
  shows "wk_inv (fst (wk_client_event L F k fd cl w)) (snd (wk_client_event L F k fd cl w))
       \<and> (0 \<le> fd \<longrightarrow> fd < MAX_FDS \<longrightarrow> ub (snd (wk_client_event L F k fd cl w)) = ub w)"
proof (cases "active (cl fd)")
  case False
  then show ?thesis
    using assms by (auto simp: wk_client_event_def Let_def intro: wk_inv_frame)
next
  case True
  let ?w0 = "client_index fd w"
  obtain n req e w1 where rd: "wk_read L (cl fd) ?w0 = ((n, req, e), w1)"
    by (cases "wk_read L (cl fd) ?w0") auto
  have s: "is_migration (cl fd) \<Longrightarrow> \<exists>p \<in> live w. conn_ssl (cl fd) = Some p"
    using wk_inv_session [OF assms True] .
  have f: "fds w1 = fds w" "live w1 = live w" "next_ssl w1 = next_ssl w"
    "0 \<le> fd \<Longrightarrow> fd < MAX_FDS \<Longrightarrow> ub w1 = ub w"
    using wk_read_frame [of L "cl fd" ?w0] s by (auto simp: rd)
  obtain bad w2 where rs: "wk_respond L F k fd (cl fd) req w1 = (bad, w2)" by fastforce
  have g: "fds w2 = fds w" "live w2 = live w" "next_ssl w2 = next_ssl w"
    "0 \<le> fd \<Longrightarrow> fd < MAX_FDS \<Longrightarrow> ub w2 = ub w"
    using wk_respond_frame [of L F k fd "cl fd" req w1] s f by (auto simp: rs)
  have i: "wk_inv cl w1" "wk_inv cl w2" using assms f g by (auto intro: wk_inv_frame)
  have "wk_client_event L F k fd cl w \<in>
      {(cl, w1), (cl, w2), close_client fd cl w1, close_client fd cl w2}"
    using True unfolding wk_client_event_def Let_def by (simp add: rd rs)
  then show ?thesis
    using i close_client_inv [OF i(1), of fd] close_client_inv [OF i(2), of fd]
      close_client_ub [OF i(1), of fd] close_client_ub [OF i(2), of fd] f g
    by auto
qed


subsection \<open>The accept round\<close>

lemma sessions_add:
  assumes "conn_ssl (cl fd) = None"
  shows "{p. \<exists>f. conn_ssl ((cl(fd := c)) f) = Some p} =
         {p. \<exists>f. conn_ssl (cl f) = Some p} \<union> set_option (conn_ssl c)"
proof (intro equalityI subsetI)
  fix q
  assume "q \<in> {p. \<exists>f. conn_ssl ((cl(fd := c)) f) = Some p}"
  then show "q \<in> {p. \<exists>f. conn_ssl (cl f) = Some p} \<union> set_option (conn_ssl c)"
    by (auto split: if_splits)
next
  fix q
  assume "q \<in> {p. \<exists>f. conn_ssl (cl f) = Some p} \<union> set_option (conn_ssl c)"
  then consider (old) f where "conn_ssl (cl f) = Some q" | (new) "conn_ssl c = Some q" by auto
  then have "\<exists>f. conn_ssl ((cl(fd := c)) f) = Some q"
  proof cases
    case (old f)
    with assms have "conn_ssl ((cl(fd := c)) f) = Some q" by auto
    then show ?thesis by blast
  next
    case new
    then have "conn_ssl ((cl(fd := c)) fd) = Some q" by simp
    then show ?thesis by blast
  qed
  then show "q \<in> {p. \<exists>f. conn_ssl ((cl(fd := c)) f) = Some p}" by blast
qed

lemma wk_inv_add:
  assumes inv: "wk_inv cl w" and fd: "fd \<in> set (fds w')" "0 \<le> fd" "\<not> active (cl fd)"
    and w': "fds w' = fds w" "next_ssl w \<le> next_ssl w'" "ssl_wf w'"
    and c: "active c" "conn_ssl c \<noteq> None \<longleftrightarrow> is_migration c"
    and new: "\<And>p. conn_ssl c = Some p \<Longrightarrow> p \<notin> live w" "live w' = live w \<union> set_option (conn_ssl c)"
  shows "wk_inv (cl(fd := c)) w'"
proof -
  have none: "conn_ssl (cl fd) = None" using wk_inv_migr [OF inv, of fd] fd(3) by simp
  have lv: "live w = {p. \<exists>fd. conn_ssl (cl fd) = Some p}"
    and a: "\<And>fd. active (cl fd) \<Longrightarrow> fd \<in> set (fds w) \<and> 0 \<le> fd"
    and m: "\<And>fd. conn_ssl (cl fd) \<noteq> None \<longleftrightarrow> active (cl fd) \<and> is_migration (cl fd)"
    and u: "\<And>f f' p. conn_ssl (cl f) = Some p \<Longrightarrow> conn_ssl (cl f') = Some p \<Longrightarrow> f = f'"
    using inv unfolding wk_inv_def by blast+
  have L: "{p. \<exists>f. conn_ssl ((cl(fd := c)) f) = Some p} = live w \<union> set_option (conn_ssl c)"
    using sessions_add [of cl fd c, OF none] lv by simp
  have U: "f = f'" if "conn_ssl ((cl(fd := c)) f) = Some p" "conn_ssl ((cl(fd := c)) f') = Some p"
    for f f' p
  proof (cases "conn_ssl c = Some p")
    case True
    then have "conn_ssl (cl g) \<noteq> Some p" for g using new(1) [OF True] lv by blast
    with that show ?thesis by (cases "f = fd"; cases "f' = fd") simp_all
  next
    case False
    with that have "conn_ssl (cl f) = Some p" "conn_ssl (cl f') = Some p"
      by (cases "f = fd", simp_all) (cases "f' = fd", simp_all)
    then show ?thesis by (rule u)
  qed
  have "fd_wf w'" using inv w'(1) by (simp add: wk_inv_def fd_wf_def)
  moreover have "active ((cl(fd := c)) f) \<Longrightarrow> f \<in> set (fds w') \<and> 0 \<le> f" for f
    using a [of f] fd w'(1) by (cases "f = fd") simp_all
  moreover have "conn_ssl ((cl(fd := c)) f) \<noteq> None \<longleftrightarrow>
      active ((cl(fd := c)) f) \<and> is_migration ((cl(fd := c)) f)" for f
    using m [of f] c by (cases "f = fd") simp_all
  ultimately show ?thesis
    unfolding wk_inv_def L new(2) using U w'(3) by blast
qed

lemma wk_migrate_inv:
  assumes inv: "wk_inv cl w" and fd: "fd \<in> set (fds w)" "0 \<le> fd" "\<not> active (cl fd)"
  shows "wk_inv (fst (snd (wk_migrate L fd s cl w))) (snd (snd (wk_migrate L fd s cl w)))
       \<and> (fd < MAX_FDS \<longrightarrow> unat (ser_blob_sz s) \<le> 16384 \<longrightarrow>
            ub (snd (snd (wk_migrate L fd s cl w))) = ub w)"
proof (cases "fst (wolfSSL_new L w)")
  case None
  let ?w = "snd (wolfSSL_new L w)"
  have i: "wk_inv cl ?w" using inv None by (auto intro: wk_inv_frame)
  have "wk_migrate L fd s cl w = (False, cl, close fd ?w)"
    using None by (simp add: wk_migrate_def split_beta)
  moreover have "wk_inv cl (close fd ?w)"
    using i fd(3) by (auto simp: wk_inv_def fd_wf_def ssl_wf_def)
  ultimately show ?thesis by simp
next
  case (Some p)
  define w1 where "w1 = wolfSSL_set_fd L p fd (snd (wolfSSL_new L w))"
  define w2 where "w2 = snd (tlspeek_restore L p s w1)"
  have p: "p = next_ssl w" "p \<notin> live w"
    using wolfSSL_new_ptr [OF Some] ssl_wf_fresh [of w] inv by (auto simp: wk_inv_def)
  have f: "fds w2 = fds w" "live w2 = insert p (live w)" "next_ssl w2 = Suc (next_ssl w)"
    "unat (ser_blob_sz s) \<le> 16384 \<Longrightarrow> ub w2 = ub w"
    by (auto simp: w1_def w2_def Some ub_tlspeek_restore)
  have wf: "fd_wf w" "ssl_wf w" using inv by (simp_all add: wk_inv_def)
  show ?thesis
  proof (cases "fst (tlspeek_restore L p s w1) = 0")
    case False
    then have e: "wk_migrate L fd s cl w = (False, cl, close fd (wolfSSL_free p w2))"
      using Some by (simp add: wk_migrate_def split_beta w1_def w2_def)
    have "wk_inv cl (close fd (wolfSSL_free p w2))"
      using inv fd(3) p f by (auto simp: wk_inv_def fd_wf_def ssl_wf_def less_Suc_eq)
    then show ?thesis using f by (simp add: e)
  next
    case True
    let ?w = "client_index fd (wolfSSL_set_fd L p fd w2)"
    let ?c = "\<lparr>active = True, is_migration = True, conn_ssl = Some p\<rparr>"
    have e: "wk_migrate L fd s cl w = (True, cl(fd := ?c), ?w)"
      using True Some by (simp add: wk_migrate_def split_beta w1_def w2_def)
    have "wk_inv (cl(fd := ?c)) ?w"
      using inv fd p f wf
      by (intro wk_inv_add) (auto simp: ssl_wf_def less_Suc_eq)
    then show ?thesis using f fd by (simp add: e)
  qed
qed

lemma wk_plain_inv:
  assumes inv: "wk_inv cl w" and fd: "fd \<in> set (fds w)" "0 \<le> fd" "\<not> active (cl fd)"
  shows "wk_inv (fst (snd (wk_plain F k fd d cl w))) (snd (snd (wk_plain F k fd d cl w)))
       \<and> (fd < MAX_FDS \<longrightarrow> d \<noteq> [] \<longrightarrow> length d \<le> SIZEOF_serial \<longrightarrow>
            ub (snd (snd (wk_plain F k fd d cl w))) = (ub w \<or> 8192 \<le> length d))"
proof -
  let ?c = "\<lparr>active = True, is_migration = False, conn_ssl = None\<rparr>"
  have e: "fst (snd (wk_plain F k fd d cl w)) = cl(fd := ?c)"
    by (simp add: wk_plain_def Let_def split_beta split: option.split)
  have f: "fds (snd (snd (wk_plain F k fd d cl w))) = fds w"
    "live (snd (snd (wk_plain F k fd d cl w))) = live w"
    "next_ssl (snd (snd (wk_plain F k fd d cl w))) = next_ssl w"
    by (simp_all add: wk_plain_def Let_def split_beta split: option.split)
  have "wk_inv (cl(fd := ?c)) (snd (snd (wk_plain F k fd d cl w)))"
    using inv fd f by (intro wk_inv_add) (auto simp: ssl_wf_def wk_inv_def)
  moreover have "fd < MAX_FDS \<Longrightarrow> d \<noteq> [] \<Longrightarrow> length d \<le> SIZEOF_serial \<Longrightarrow>
      ub (snd (snd (wk_plain F k fd d cl w))) = (ub w \<or> 8192 \<le> length d)"
    using fd by (auto simp: wk_plain_def Let_def split_beta split: option.split)
  ultimately show ?thesis by (simp add: e)
qed


lemma recvmsg_rights:
  assumes "recvmsg k w = ((n, m), w')"
  shows "\<exists>l. fds w' = l @ fds w \<and> distinct l \<and> set l \<inter> set (fds w) = {}
           \<and> n \<le> int (length (rm_data m)) \<and> length (rm_data m) \<le> k
           \<and> (\<forall>c. rm_cmsg m = Some c \<longrightarrow> cmsg_type c = SCM_RIGHTS \<longrightarrow> kernel_rights w \<longrightarrow>
                rm_fd m \<in> set l \<and> 0 \<le> rm_fd m)"
proof (cases "fst (next_answer w)")
  case (Msg d c t)
  obtain l w1 where l: "install_fds (rights_count c) (snd (next_answer w)) = (l, w1)" by fastforce
  have w1: "w' = w1" "m = \<lparr>rm_data = take k d, rm_cmsg = c, rm_fd = (case l of [] \<Rightarrow> -1 | f # _ \<Rightarrow> f),
      rm_ctrunc = t\<rparr>" "n = int (length (take k d))"
    using assms Msg l by (auto simp: recvmsg_def Let_def split_beta)
  note r = install_fds_result [OF l]
  have "rm_fd m \<in> set l \<and> 0 \<le> rm_fd m"
    if h: "c = Some h" "cmsg_type h = SCM_RIGHTS" "kernel_rights w" for h
  proof -
    have "0 < rights_count c" using h Msg by (auto simp: kernel_rights_def rights_count_def CMSG_LEN_int_def div_greater_zero_iff)
    then obtain f r' where "l = f # r'" using r by (cases l) auto
    then show ?thesis using r w1 by auto
  qed
  then show ?thesis using r w1 by (intro exI [of _ "rev l"]) auto
qed (use assms in \<open>auto simp: recvmsg_def Let_def split_beta\<close>)

lemma wk_accept_round_inv:
  assumes inv: "wk_inv cl w" and k: "kernel_rights (snd (unix_accept w))"
  shows "wk_inv (fst (snd (wk_accept_round L F wid cl w))) (snd (snd (wk_accept_round L F wid cl w)))"
proof (cases "fst (unix_accept w) < 0")
  case True
  then show ?thesis
    using inv by (auto simp: wk_accept_round_def split_beta intro: wk_inv_frame)
next
  case False
  define fd w1 where "fd = fst (unix_accept w)" and "w1 = snd (unix_accept w)"
  obtain n m w2 where rm: "recvmsg SIZEOF_serial w1 = ((n, m), w2)" by (metis prod.exhaust)
  have fd: "0 \<le> fd" "fd \<notin> set (fds w)" "fds w1 = fd # fds w"
    using False unix_accept_fresh [of w] by (simp_all add: fd_def w1_def)
  have lv: "live w2 = live w" "next_ssl w2 = next_ssl w"
    using arg_cong [OF rm, of "\<lambda>x. live (snd x)"] arg_cong [OF rm, of "\<lambda>x. next_ssl (snd x)"]
    by (simp_all add: w1_def)
  obtain l where l: "fds w2 = l @ fd # fds w" "distinct l" "set l \<inter> set (fd # fds w) = {}"
    and mf: "\<And>c. rm_cmsg m = Some c \<Longrightarrow> cmsg_type c = SCM_RIGHTS \<Longrightarrow> rm_fd m \<in> set l \<and> 0 \<le> rm_fd m"
    using recvmsg_rights [OF rm] k fd by (auto simp: w1_def)
  have na: "\<not> active (cl f)" if "f \<notin> set (fds w)" for f using inv that by (auto simp: wk_inv_def)
  have d2: "distinct (fds w2)" using inv l fd(2) by (auto simp: wk_inv_def fd_wf_def)
  have i2: "wk_inv cl w2" using inv d2 l lv by (auto intro!: wk_inv_more_fds [OF inv] simp: fd_wf_def)
  have ic: "wk_inv cl (close fd w2)" using d2 l lv fd by (auto intro!: wk_inv_more_fds [OF inv] simp: fd_wf_def)
  show ?thesis
  proof (cases "n \<le> 0")
    case True
    then show ?thesis
      using False ic by (simp add: wk_accept_round_def split_beta rm [unfolded w1_def] fd_def)
  next
    case pos: False
    define mig where "mig = (case rm_cmsg m of None \<Rightarrow> False | Some c \<Rightarrow> cmsg_type c = SCM_RIGHTS)"
    define cfd where "cfd = (if mig then rm_fd m else fd)"
    define w3 where "w3 = wk_set_nonblocking cfd (if mig then close fd w2 else w2)"
    define r where "r = (if mig then wk_migrate L cfd (bytes_serial (overwrite (zeros SIZEOF_serial)
        (rm_data m))) cl w3 else wk_plain F wid cfd (rm_data m) cl w3)"
    have e: "wk_accept_round L F wid cl w = (True, fst (snd r),
        (if fst r then epoll_add cfd (snd (snd r)) else snd (snd r)))"
      using False pos unfolding wk_accept_round_def r_def w3_def cfd_def mig_def
      by (simp add: rm [unfolded w1_def] fd_def split_beta Let_def)
    have i3: "wk_inv cl w3" using i2 ic by (auto simp: w3_def intro: wk_inv_frame)
    have c3: "cfd \<in> set (fds w3)" "0 \<le> cfd" "\<not> active (cl cfd)"
      using mf fd l na d2 by (auto simp: w3_def cfd_def mig_def split: option.splits)
    have "wk_inv (fst (snd r)) (snd (snd r))"
      by (simp add: r_def wk_migrate_inv [OF i3 c3, THEN conjunct1] wk_plain_inv [OF i3 c3, THEN conjunct1])
    then show ?thesis by (auto simp: e intro: wk_inv_frame)
  qed
qed

lemma wk_reach_inv:
  "wk_reach L F wid s0 s \<Longrightarrow> wk_inv (fst s0) (snd s0) \<Longrightarrow> wk_inv (fst s) (snd s)"
proof (induction rule: wk_reach.induct)
  case wk_start
  then show ?case .
next
  case (wk_next s s')
  then have i: "wk_inv (fst s) (snd s)" by simp
  from wk_next.hyps(2) show ?case
  proof (elim wk_stepE)
    fix cl w assume "s = (cl, w)" "s' = snd (wk_accept_round L F wid cl w)"
      "kernel_rights (snd (unix_accept w))"
    with i wk_accept_round_inv show ?case by simp
  next
    fix cl w fd assume "s = (cl, w)" "s' = wk_client_event L F wid fd cl w"
    with i wk_client_event_inv show ?case by fastforce
  next
    fix cl w as q assume "s = (cl, w)" "s' = (cl, w\<lparr>script := as, rxq := q\<rparr>)"
    with i show ?case by (auto simp: live_def intro: wk_inv_frame)
  qed
qed

lemma wk_inv_start: "fd_wf w \<Longrightarrow> live w = {} \<Longrightarrow> wk_inv (\<lambda>_. zero_conn) w"
  by (simp add: wk_inv_def zero_conn_def ssl_wf_def)


lemma length_dec_int: "- (2 ^ 31) \<le> i \<Longrightarrow> i < 2 ^ 31 \<Longrightarrow> length (dec_int i) \<le> 11"
proof -
  assume i: "- (2 ^ 31) \<le> i" "i < 2 ^ 31"
  then have "nat (- i) < 10 ^ Suc 9" "nat i < 10 ^ Suc 9" by (simp_all add: nat_less_iff)
  from this [THEN length_dec_digits] show ?thesis by (simp add: dec_int_def)
qed

lemma handler_response:
  assumes "- (2 ^ 31) \<le> wid" "wid < 2 ^ 31" "length (handler_body F req wid) < 2 ^ 31"
    and "fst (handle_http_request F req wid w) = Some r"
  shows "r = handler_head wid (length (handler_body F req wid)) @ take 255 (handler_body F req wid)"
proof -
  have "length (handler_head wid (length (handler_body F req wid))) \<le> 200"
    using length_dec_int [OF assms(1,2)] length_dec_digits [of "length (handler_body F req wid)" 9] assms(3)
    by (simp add: handler_head_def)
  then show ?thesis
    using assms(4) by (simp add: handle_http_request_def Let_def split_beta split: if_splits)
qed

text \<open>Whole numbers printed with two zero decimals, for concrete runs.\<close>

definition whole_numbers :: "nat cdouble" where
  "whole_numbers =
     \<lparr>d_zero = 0, d_atof = (\<lambda>s. digits_value 0 (takeWhile isdigit s)), d_add = (+), d_mul = (*),
      d_fmt2 = (\<lambda>n. dec_digits n @ cs ''.00'')\<rparr>"

subsection \<open>A message that arrives whole\<close>

text \<open>
  When the next connection brings a whole structure and a descriptor, the round is the migration of that
  descriptor, under the number it has here, with that structure.
\<close>

lemma wk_accepts_message:
  assumes len: "length d = SIZEOF_serial" and sc: "script v = Ok 0 # Msg d (Some fd_cmsg) False # as"
  shows "\<exists>f u. f \<notin> set (fds v) \<and> 0 \<le> f \<and> fds u = f # fds v \<and> live u = live v
       \<and> wk_accept_round L F wid cl v =
           (case wk_migrate L f (bytes_serial d) cl u of
              (keep, cl', u') \<Rightarrow> (True, cl', if keep then epoll_add f u' else u'))"
proof -
  define c where "c = lowest_free (fds v)"
  define f where "f = lowest_free (c # fds v)"
  define v2 where "v2 = v\<lparr>script := as, fds := f # c # fds v\<rparr>"
  define u where "u = wk_set_nonblocking f (close c v2)"
  have c: "c \<notin> set (fds v)" "0 \<le> c" using lowest_free_fresh [of "fds v"] by (simp_all add: c_def)
  have f: "f \<notin> set (c # fds v)" "0 \<le> f" using lowest_free_fresh [of "c # fds v"] by (simp_all add: f_def)
  have pos: "0 < SIZEOF_serial" by (simp add: SIZEOF_serial_def)
  have d: "take SIZEOF_serial d = d" "overwrite (zeros SIZEOF_serial) d = d" using len by (simp_all add: overwrite_full)
  have rights: "rights_count (Some fd_cmsg) = Suc 0" by (simp add: rights_count_def fd_cmsg_def CMSG_LEN_int_def)
  have acc: "unix_accept v = (c, v\<lparr>script := Msg d (Some fd_cmsg) False # as, fds := c # fds v\<rparr>)"
    using sc c by (simp add: unix_accept_def sys_newfd_def next_answer_def Let_def c_def)
  have rc: "recvmsg SIZEOF_serial (snd (unix_accept v)) =
      ((int SIZEOF_serial, \<lparr>rm_data = d, rm_cmsg = Some fd_cmsg, rm_fd = f, rm_ctrunc = False\<rparr>), v2)"
    using d len by (simp add: acc recvmsg_def next_answer_def rights f_def [symmetric] v2_def)
  have t: "cmsg_type fd_cmsg = SCM_RIGHTS" by (simp add: fd_cmsg_def)
  have "wk_accept_round L F wid cl v =
      (case wk_migrate L f (bytes_serial d) cl u of (keep, cl', u') \<Rightarrow> (True, cl', if keep then epoll_add f u' else u'))"
    using c pos rc t by (simp add: wk_accept_round_def acc split_beta Let_def d u_def)
  moreover have "fds u = f # fds v" using f by (simp add: u_def v2_def)
  moreover have "live v2 = live v" by (simp add: v2_def live_def)
  then have "live u = live v" by (simp add: u_def)
  ultimately show ?thesis using f by (intro exI [of _ f] exI [of _ u]) simp
qed

subsection \<open>Properties\<close>

text \<open>
  C5. In every state the worker reaches, whatever messages and events it saw and whichever calls failed,
  the live sessions are exactly the sessions of its migrated connections, no two connections share one,
  and every connection in the table has an open descriptor: closing a connection neither leaks its
  session nor leaves a dangling pointer in the table.
\<close>

theorem worker_sessions_match_table:
  assumes "wk_reach L F wid (\<lambda>_. zero_conn, w0) (cl, w)" and "fd_wf w0" and "live w0 = {}"
  shows "live w = {p. \<exists>fd. active (cl fd) \<and> is_migration (cl fd) \<and> conn_ssl (cl fd) = Some p}
       \<and> (\<forall>fd fd' p. conn_ssl (cl fd) = Some p \<longrightarrow> conn_ssl (cl fd') = Some p \<longrightarrow> fd = fd')
       \<and> (\<forall>fd. active (cl fd) \<longrightarrow> fd \<in> set (fds w))"
proof -
  have i: "wk_inv cl w"
    using wk_reach_inv [OF assms(1)] wk_inv_start [OF assms(2,3)] by simp
  have m: "active (cl fd) \<and> is_migration (cl fd)" if "conn_ssl (cl fd) = Some p" for fd p
    using wk_inv_migr [OF i, of fd] that by simp
  have "live w = {p. \<exists>fd. conn_ssl (cl fd) = Some p}"
    and "\<forall>fd fd' p. conn_ssl (cl fd) = Some p \<longrightarrow> conn_ssl (cl fd') = Some p \<longrightarrow> fd = fd'"
    and "\<forall>fd. active (cl fd) \<longrightarrow> fd \<in> set (fds w)"
    using i unfolding wk_inv_def by blast+
  then show ?thesis using m by blast
qed

theorem worker_sessions_match_table_witness:
  "live (snd (snd (wk_accept_round echo_ssl whole_numbers 0 (\<lambda>_. zero_conn)
                     (boot [Ok 0, Data (cs ''GET /hello'')])))) =
     {p. \<exists>fd. active (fst (snd (wk_accept_round echo_ssl whole_numbers 0 (\<lambda>_. zero_conn)
                                (boot [Ok 0, Data (cs ''GET /hello'')]))) fd)
            \<and> is_migration (fst (snd (wk_accept_round echo_ssl whole_numbers 0 (\<lambda>_. zero_conn)
                                (boot [Ok 0, Data (cs ''GET /hello'')]))) fd)
            \<and> conn_ssl (fst (snd (wk_accept_round echo_ssl whole_numbers 0 (\<lambda>_. zero_conn)
                                (boot [Ok 0, Data (cs ''GET /hello'')]))) fd) = Some p}"
proof -
  let ?w = "boot [Ok 0, Data (cs ''GET /hello'')] :: bytes world"
  have "kernel_rights (snd (unix_accept ?w))"
    by (simp add: kernel_rights_def unix_accept_def sys_newfd_def next_answer_def boot_def Let_def
        lowest_free_def)
  then have "wk_reach echo_ssl whole_numbers 0 (\<lambda>_. zero_conn, ?w)
      (snd (wk_accept_round echo_ssl whole_numbers 0 (\<lambda>_. zero_conn) ?w))"
    by (intro wk_reach.wk_next [OF wk_reach.wk_start] wk_step.accept_round)
  then show ?thesis
    using worker_sessions_match_table [of echo_ssl whole_numbers 0 ?w
        "fst (snd (wk_accept_round echo_ssl whole_numbers 0 (\<lambda>_. zero_conn) ?w))"
        "snd (snd (wk_accept_round echo_ssl whole_numbers 0 (\<lambda>_. zero_conn) ?w))"]
    by (simp add: fd_wf_def)
qed

text \<open>
  In every state the worker reaches, an event on a descriptor within the table is handled without
  undefined behaviour: no read, write, shutdown or free goes through a dead session.
\<close>

theorem worker_client_event_safe:
  assumes "wk_reach L F wid (\<lambda>_. zero_conn, w0) (cl, w)" and "fd_wf w0" and "live w0 = {}"
    and "0 \<le> fd" and "fd < MAX_FDS"
  shows "ub (snd (wk_client_event L F wid fd cl w)) = ub w"
  using wk_client_event_inv [of cl w L F wid fd] wk_reach_inv [OF assms(1)]
    wk_inv_start [OF assms(2,3)] assms(4,5) by simp

theorem worker_client_event_safe_witness:
  "\<not> ub (snd (wk_client_event echo_ssl whole_numbers 0 9 (\<lambda>_. zero_conn)
                (boot [] :: bytes world)))"
  using worker_client_event_safe
          [OF wk_reach.wk_start, of "boot [] :: bytes world" 9 echo_ssl whole_numbers 0]
  by (simp add: fd_wf_def MAX_FDS_def)

text \<open>
  The worker's plain-connection branch overruns its 8192-byte request array exactly when the first
  message has 8192 bytes or more, which the receive into the 24648-byte structure allows.
\<close>

theorem worker_plain_request_overflow:
  assumes "0 \<le> fd" and "fd < MAX_FDS" and "d \<noteq> []" and "length d \<le> SIZEOF_serial"
  shows "ub (snd (snd (wk_plain F wid fd d cl w))) = (ub w \<or> 8192 \<le> length d)"
  using assms by (auto simp: wk_plain_def Let_def split_beta split: option.split)

theorem worker_plain_request_overflow_witness:
  "ub (snd (snd (wk_plain whole_numbers 0 7 (zeros 9000) (\<lambda>_. zero_conn)
                   (boot [] :: unit world))))"
  using worker_plain_request_overflow [of 7 "zeros 9000" whole_numbers 0
      "\<lambda>_. zero_conn" "boot [] :: unit world"]
  by (simp add: MAX_FDS_def SIZEOF_serial_def zeros_def)


text \<open>
  The worker's answer is its header followed by at most 255 bytes of body, and the announced
  Content-Length is the number of bytes that follow exactly when the formatted body fits the 256-byte
  array; a longer one (the decimal expansion of a large double) is announced in full and sent cut.
\<close>

theorem handler_content_length:
  assumes "- (2 ^ 31) \<le> wid" and "wid < 2 ^ 31" and "length (handler_body F req wid) < 2 ^ 31"
    and "fst (handle_http_request F req wid w) = Some r"
  shows "\<exists>body. r = handler_head wid (length (handler_body F req wid)) @ body
              \<and> length body \<le> 255
              \<and> (length body = length (handler_body F req wid) \<longleftrightarrow> length (handler_body F req wid) \<le> 255)"
  using handler_response [OF assms] by auto

theorem handler_content_length_witness:
  "\<exists>body. fst (handle_http_request whole_numbers (cs ''GET /sum?a=2&b=40 '') 1 (boot [Ok 0] :: unit world))
           = Some (handler_head 1 (length (handler_body whole_numbers (cs ''GET /sum?a=2&b=40 '') 1)) @ body)
        \<and> length body \<le> 255"
proof -
  have a: "sys_alloc (boot [Ok 0] :: unit world) = (True, (boot [Ok 0])\<lparr>script := []\<rparr>)"
    by (simp add: sys_alloc_def sys_status_def next_answer_def boot_def)
  have d: "length (dec_int 1) \<le> 11" "length (dec_digits 42) \<le> 10"
    using length_dec_int [of 1] length_dec_digits [of 42 9] by simp_all
  have f: "strstr_found (cs ''GET /sum?a=2&b=40 '') (cs ''/sum'')"
    by (simp add: strstr_found_def strstr_def cstr_def cs_def)
  have p: "url_param whole_numbers (cs ''GET /sum?a=2&b=40 '') (cs ''a='') = 2"
    "url_param whole_numbers (cs ''GET /sum?a=2&b=40 '') (cs ''b='') = 40"
    by (simp_all add: url_param_def strstr_def cstr_def cs_def whole_numbers_def isdigit_def)
  have s: "d_fmt2 whole_numbers (d_add whole_numbers 2 40) = dec_digits 42 @ cs ''.00''"
    by (simp add: whole_numbers_def)
  have l: "length (handler_body whole_numbers (cs ''GET /sum?a=2&b=40 '') 1) < 2 ^ 31"
    using d by (simp add: handler_body_def f p s)
  obtain r where r: "fst (handle_http_request whole_numbers (cs ''GET /sum?a=2&b=40 '') 1
      (boot [Ok 0] :: unit world)) = Some r"
    by (simp add: handle_http_request_def a Let_def)
  show ?thesis
    using handler_content_length [OF _ _ l r] unfolding r by auto
qed

end
