(* ===== verification/Startup.thy ===== *)
theory Startup
  imports Gateway Worker
begin

text \<open>
  The start of the two servers of \<^verbatim>\<open>libtlspeek\<close>: the \<^verbatim>\<open>main\<close> functions of \<^verbatim>\<open>gateway.c\<close> and \<^verbatim>\<open>worker.c\<close> up to
  their loops.  The arguments are a list with the name of the program in front.  Creating the wolfSSL context
  and loading its files is a call that may fail; the context itself has no state the program looks at.
  A start that fails returns its exit code (\<open>Inl\<close>).
\<close>

subsection \<open>The gateway\<close>

definition atoi :: "bytes \<Rightarrow> int" where
  "atoi s = sint (word_of_int (fst (strtoll s)) :: u32)"

definition MAX_WORKERS :: int where "MAX_WORKERS = 256"

text \<open>The listener and the number of workers.\<close>

definition gw_start :: "bytes list \<Rightarrow> 's world \<Rightarrow> (int + int \<times> int) \<times> 's world" where
  "gw_start argv w =
     (if length argv < 5 then (Inl 1, w)
      else
        (let n_workers = atoi (argv ! 4)
         in if n_workers < 1 \<or> MAX_WORKERS < n_workers then (Inl 1, w)
            else
              (let (ctx, w) = sys_alloc w
               in if \<not> ctx then (Inl 1, w)
                  else
                    (let (cert, w) = sys_status w
                     in if cert < 0 then (Inl 1, w)
                        else
                          (let (key, w) = sys_status w
                           in if key < 0 then (Inl 1, w)
                              else
                                (let (listen_fd, w) = create_tcp_listener w
                                 in if listen_fd < 0 then (Inl 1, w) else (Inr (listen_fd, n_workers), w)))))))"

text \<open>A child before its loop: its epoll instance watches the listener.\<close>

definition gw_child_start :: "int \<Rightarrow> 's world \<Rightarrow> (int + int) \<times> 's world" where
  "gw_child_start listen_fd w =
     (let (epfd, w) = sys_newfd w
      in if epfd < 0 then (Inl 1, w)
         else
           (let (r, w) = sys_status w
            in if r \<noteq> 0 then (Inl 1, close epfd w) else (Inr epfd, emit (EvEpollAdd listen_fd) w)))"

text \<open>
  The pool: \<open>k\<close> forks, of which each that succeeds gives a child that starts from the world of the parent; then the
  parent waits for its children and closes the listener.
\<close>

fun gw_pool :: "nat \<Rightarrow> int \<Rightarrow> 's world \<Rightarrow> ((int + int) \<times> 's world) list \<times> 's world" where
  "gw_pool 0 listen_fd w = ([], w)"
| "gw_pool (Suc k) listen_fd w =
     (let (pid, v) = sys_status w; (children, u) = gw_pool k listen_fd v
      in (if pid = 0 then gw_child_start listen_fd v # children else children, u))"

definition gw_main :: "bytes list \<Rightarrow> 's world \<Rightarrow> int \<times> ((int + int) \<times> 's world) list \<times> 's world" where
  "gw_main argv w =
     (case gw_start argv w of
        (Inl code, w) \<Rightarrow> (code, [], w)
      | (Inr (listen_fd, n_workers), w) \<Rightarrow>
          (let (children, w) = gw_pool 4 listen_fd w in (0, children, close listen_fd w)))"

subsection \<open>The worker\<close>

definition wk_sock_path :: "int \<Rightarrow> bytes" where
  "wk_sock_path worker_id = take 63 (cs ''worker_'' @ dec_int worker_id @ cs ''.sock'')"

text \<open>Certificate and key may be missing.  The result is the worker's number and its listener.\<close>

definition wk_start :: "bytes list \<Rightarrow> 's world \<Rightarrow> (int + int \<times> int) \<times> 's world" where
  "wk_start argv w =
     (if length argv < 2 then (Inl 1, w)
      else
        (let worker_id = atoi (argv ! 1); (ctx, w) = sys_alloc w
         in if \<not> ctx then (Inl 1, w)
            else
              (let (_, w) = sys_status w;
                   (_, w) = sys_status w;
                   (listen_fd, w) = unix_server_socket (wk_sock_path worker_id) w
               in if listen_fd < 0 then (Inl 1, w)
                  else
                    (let w = wk_set_nonblocking listen_fd w;
                         (epfd, w) = sys_newfd w
                     in (Inr (worker_id, listen_fd), epoll_add listen_fd w)))))"

subsection \<open>What starting opens\<close>

text \<open>A call that returns a descriptor, or fails and leaves the table alone.\<close>

definition opens :: "int \<Rightarrow> 's world \<Rightarrow> 's world \<Rightarrow> bool" where
  "opens fd w w' =
     (fds w' = (if fd < 0 then fds w else fd # fds w) \<and> (0 \<le> fd \<longrightarrow> fd \<notin> set (fds w))
    \<and> live w' = live w \<and> next_ssl w' = next_ssl w \<and> ub w' = ub w \<and> bad_closes (log w') = bad_closes (log w))"

lemma gw_set_nonblocking_frame:
  "fds (snd (gw_set_nonblocking fd w)) = fds w" "live (snd (gw_set_nonblocking fd w)) = live w"
  "next_ssl (snd (gw_set_nonblocking fd w)) = next_ssl w" "ub (snd (gw_set_nonblocking fd w)) = ub w"
  "bad_closes (log (snd (gw_set_nonblocking fd w))) = bad_closes (log w)"
  by (simp_all add: gw_set_nonblocking_def Let_def split_beta)

lemma create_tcp_listener_opens: "opens (fst (create_tcp_listener w)) w (snd (create_tcp_listener w))"
  using sys_newfd_fresh [of w]
  by (simp add: opens_def create_tcp_listener_def Let_def split_beta gw_set_nonblocking_frame)

lemma unix_server_socket_opens: "opens (fst (unix_server_socket p w)) w (snd (unix_server_socket p w))"
  using sys_newfd_fresh [of "emit (EvUnlink p) (snd (sys_status w))"]
  by (simp add: opens_def unix_server_socket_def Let_def split_beta)

lemma small_logs:
  "bad_closes (log (wk_set_nonblocking fd w)) = bad_closes (log w)" "bad_closes (log (epoll_add fd w)) = bad_closes (log w)"
  by (simp_all add: wk_set_nonblocking_def epoll_add_def Let_def split_beta)

lemma gw_start_effect:
  assumes "gw_start argv w = (r, w')"
  shows "live w' = live w \<and> next_ssl w' = next_ssl w \<and> ub w' = ub w \<and> bad_closes (log w') = bad_closes (log w)
       \<and> (case r of Inl c \<Rightarrow> c = 1 \<and> fds w' = fds w
          | Inr (l, n) \<Rightarrow> 0 \<le> l \<and> l \<notin> set (fds w) \<and> fds w' = l # fds w \<and> 1 \<le> n \<and> n \<le> MAX_WORKERS)"
proof -
  define v where "v = snd (sys_status (snd (sys_status (snd (sys_alloc w)))))"
  have v: "fds v = fds w" "live v = live w" "next_ssl v = next_ssl w" "ub v = ub w" "log v = log w" by (simp_all add: v_def)
  define n where "n = atoi (argv ! 4)"
  define l where "l = fst (create_tcp_listener v)"
  have o: "opens l v (snd (create_tcp_listener v))" unfolding l_def by (rule create_tcp_listener_opens)
  have e: "gw_start argv w =
      (if length argv < 5 \<or> n < 1 \<or> MAX_WORKERS < n then (Inl 1, w)
       else if \<not> fst (sys_alloc w) then (Inl 1, snd (sys_alloc w))
       else if fst (sys_status (snd (sys_alloc w))) < 0 then (Inl 1, snd (sys_status (snd (sys_alloc w))))
       else if fst (sys_status (snd (sys_status (snd (sys_alloc w))))) < 0 then (Inl 1, v)
       else if l < 0 then (Inl 1, snd (create_tcp_listener v))
       else (Inr (l, n), snd (create_tcp_listener v)))"
    by (simp add: gw_start_def Let_def split_beta v_def l_def n_def)
  consider "r = Inl 1" "w' \<in> {w, snd (sys_alloc w), snd (sys_status (snd (sys_alloc w))), v}"
    | "l < 0" "r = Inl 1" "w' = snd (create_tcp_listener v)"
    | "0 \<le> l" "1 \<le> n" "n \<le> MAX_WORKERS" "r = Inr (l, n)" "w' = snd (create_tcp_listener v)"
    using assms e by (auto split: if_splits)
  then show ?thesis
  proof cases
    case 1
    then show ?thesis using v by (elim insertE emptyE) simp_all
  next
    case 2
    then show ?thesis using o v by (simp add: opens_def)
  next
    case 3
    then show ?thesis using o v by (simp add: opens_def)
  qed
qed

lemma gw_child_start_effect:
  assumes "gw_child_start l w = (r, w')"
  shows "live w' = live w \<and> next_ssl w' = next_ssl w \<and> ub w' = ub w \<and> bad_closes (log w') = bad_closes (log w)
       \<and> (case r of Inl c \<Rightarrow> c = 1 \<and> fds w' = fds w | Inr e \<Rightarrow> e \<notin> set (fds w) \<and> fds w' = e # fds w)"
  using assms sys_newfd_fresh [of w] by (auto simp: gw_child_start_def Let_def split_beta split: if_splits)

lemma wk_start_effect:
  assumes "wk_start argv w = (r, w')"
  shows "live w' = live w \<and> next_ssl w' = next_ssl w \<and> ub w' = ub w \<and> bad_closes (log w') = bad_closes (log w)
       \<and> (case r of Inl c \<Rightarrow> c = 1 \<and> fds w' = fds w
          | Inr (k, l) \<Rightarrow> 0 \<le> l \<and> l \<notin> set (fds w) \<and> l \<in> set (fds w') \<and> (fd_wf w \<longrightarrow> fd_wf w'))"
proof -
  define v where "v = snd (sys_status (snd (sys_status (snd (sys_alloc w)))))"
  have v: "fds v = fds w" "live v = live w" "next_ssl v = next_ssl w" "ub v = ub w" "log v = log w" by (simp_all add: v_def)
  define p where "p = wk_sock_path (atoi (argv ! 1))"
  define l where "l = fst (unix_server_socket p v)"
  define u where "u = wk_set_nonblocking l (snd (unix_server_socket p v))"
  have o: "opens l v (snd (unix_server_socket p v))" unfolding l_def by (rule unix_server_socket_opens)
  have e: "wk_start argv w =
      (if length argv < 2 then (Inl 1, w)
       else if \<not> fst (sys_alloc w) then (Inl 1, snd (sys_alloc w))
       else if l < 0 then (Inl 1, snd (unix_server_socket p v))
       else (Inr (atoi (argv ! 1), l), epoll_add l (snd (sys_newfd u))))"
    by (simp add: wk_start_def Let_def split_beta v_def l_def p_def u_def)
  have u: "fds u = (if l < 0 then fds w else l # fds w)" "live u = live w" "next_ssl u = next_ssl w" "ub u = ub w"
    "bad_closes (log u) = bad_closes (log w)" "0 \<le> l \<Longrightarrow> l \<notin> set (fds w)"
    using o v by (simp_all add: u_def opens_def small_logs)
  consider "r = Inl 1" "w' = w" | "r = Inl 1" "w' = snd (sys_alloc w)" | "l < 0" "r = Inl 1" "w' = snd (unix_server_socket p v)"
    | "0 \<le> l" "r = Inr (atoi (argv ! 1), l)" "w' = epoll_add l (snd (sys_newfd u))"
    using assms e by (auto split: if_splits)
  then show ?thesis
  proof cases
    case 3
    then show ?thesis using o v by (simp add: opens_def)
  next
    case 4
    then show ?thesis using u sys_newfd_fresh [of u] by (simp add: small_logs fd_wf_def)
  qed simp_all
qed

text \<open>A start that fails exits with 1 and leaves no descriptor behind.\<close>

lemma failed_start_clean:
  "fst (gw_start argv w) = Inl c \<Longrightarrow> c = 1 \<and> fds (snd (gw_start argv w)) = fds w"
  "fst (wk_start argv w) = Inl c \<Longrightarrow> c = 1 \<and> fds (snd (wk_start argv w)) = fds w"
  using gw_start_effect [OF surjective_pairing, of argv w] wk_start_effect [OF surjective_pairing, of argv w] by simp_all

lemma atoi_dec_int: "int32 k \<Longrightarrow> atoi (dec_int k) = k"
  using strtoll_dec_int [of k "[]"] c_int_id [of k]
  by (simp add: atoi_def c_int_def int32_def LLONG_MIN_def LLONG_MAX_def)

lemma unix_server_socket_listens:
  "0 \<le> fst (unix_server_socket p w) \<Longrightarrow>
     EvListen (fst (unix_server_socket p w)) (sun_path p) \<in> set (log (snd (unix_server_socket p w)))"
  by (auto simp: unix_server_socket_def Let_def split_beta split: if_splits)

lemma small_log_grows: "set (log w) \<subseteq> set (log (epoll_add e (snd (sys_newfd (wk_set_nonblocking fd w)))))"
  by (auto simp: wk_set_nonblocking_def epoll_add_def Let_def split_beta)

subsection \<open>Properties\<close>

text \<open>
  C11. The gateway from its command line on: when it starts and a child of its pool enters the loop, the number of
  workers is between 1 and 256, and in every state the child reaches, whatever clients, workers and kernel do, the
  listener and the epoll instance are open, no session is left over, no freed one was used, no buffer was overrun and
  no descriptor was closed twice.
\<close>

theorem gateway_service_safe:
  assumes "gw_start argv w = (Inr (l, n), w1)" and "gw_child_start l w1 = (Inr e, w2)"
    and "gw_reach L C n w2 w3" and "fd_wf w" and "ssl_wf w"
  shows "1 \<le> n \<and> n \<le> MAX_WORKERS \<and> l \<noteq> e \<and> {l, e} \<union> set (fds w) \<subseteq> set (fds w3)
       \<and> live w3 = live w \<and> ub w3 = ub w \<and> bad_closes (log w3) = bad_closes (log w)"
proof -
  note s = gw_start_effect [OF assms(1)] and c = gw_child_start_effect [OF assms(2)]
  have "fd_wf w2" "ssl_wf w2" using s c assms(4,5) by (auto simp: fd_wf_def ssl_wf_def)
  note g = gw_reach_inv [OF assms(3) this]
  have "set (fds w2) = insert e (insert l (set (fds w)))" "l \<noteq> e" "1 \<le> n" "n \<le> MAX_WORKERS"
    using s c by simp_all
  moreover have "live w3 = live w" "ub w3 = ub w" "bad_closes (log w3) = bad_closes (log w)" "set (fds w2) \<subseteq> set (fds w3)"
    using s c g by simp_all
  ultimately show ?thesis by simp
qed

definition start_args :: "bytes list" where
  "start_args = [cs ''./gateway'', cs ''8443'', cs ''server.crt'', cs ''server.key'', cs ''2'']"

definition start_world :: "bytes world" where
  "start_world = boot [Ok 0, Ok 0, Ok 0, Ok 0, Ok 0, Ok 0, Ok 2, Ok 0, Ok 0, Ok 0, Ok 0, Ok 0]"

theorem gateway_service_safe_witness:
  "{0, 1} \<subseteq> set (fds (gw_accept_round echo_ssl clear_crypto 2 (snd (gw_child_start 0 (snd (gw_start start_args start_world))))))"
proof -
  have n: "atoi (cs ''2'') = 2" by code_simp
  have s: "gw_start start_args start_world = (Inr (0, 2), snd (gw_start start_args start_world))"
    by (simp add: gw_start_def start_args_def start_world_def n MAX_WORKERS_def sys_alloc_def sys_status_def sys_value_def
        next_answer_def boot_def create_tcp_listener_def gw_set_nonblocking_def sys_newfd_def lowest_free_def)
  define w1 where "w1 = snd (gw_start start_args start_world)"
  have "fst (gw_child_start 0 w1) = Inr 1"
    by (simp add: w1_def gw_start_def start_args_def start_world_def n MAX_WORKERS_def sys_alloc_def sys_status_def sys_value_def
        next_answer_def boot_def create_tcp_listener_def gw_set_nonblocking_def sys_newfd_def lowest_free_def
        gw_child_start_def emit_def)
  then have c: "gw_child_start 0 w1 = (Inr 1, snd (gw_child_start 0 w1))" by (simp add: prod_eq_iff)
  note r = gw_reach.step [OF gw_reach.start gw_step.accept_one]
  show ?thesis
    using gateway_service_safe [OF s [folded w1_def] c r] unfolding w1_def
    by (simp add: fd_wf_def ssl_wf_def start_world_def)
qed

text \<open>
  C19. The gateway and the worker meet: a worker started with the number \<open>k\<close> as its argument listens at the very path to which the
  gateway connects when the router names \<open>k\<close>, and its listener is open.
\<close>

theorem worker_listens_where_gateway_connects:
  assumes "int32 k" and "argv ! 1 = dec_int k" and "wk_start argv w = (Inr (i, l), w')"
  shows "i = k \<and> l \<in> set (fds w') \<and> EvListen l (sun_path (gw_sock_path k)) \<in> set (log w')"
proof -
  define v where "v = snd (sys_status (snd (sys_status (snd (sys_alloc w)))))"
  define s where "s = unix_server_socket (gw_sock_path k) v"
  have p: "wk_sock_path k = gw_sock_path k" by (simp add: wk_sock_path_def gw_sock_path_def)
  have r: "i = k" "l = fst s" "0 \<le> fst s" "w' = epoll_add (fst s) (snd (sys_newfd (wk_set_nonblocking (fst s) (snd s))))"
    using assms(3) atoi_dec_int [OF assms(1)] assms(2)
    by (auto simp: wk_start_def Let_def split_beta v_def s_def p split: if_splits)
  have "EvListen l (sun_path (gw_sock_path k)) \<in> set (log (snd s))"
    using unix_server_socket_listens [of "gw_sock_path k" v] r by (simp add: s_def)
  then have "EvListen l (sun_path (gw_sock_path k)) \<in> set (log w')" using small_log_grows unfolding r(4) by blast
  with r(1) wk_start_effect [OF assms(3)] show ?thesis by simp
qed

definition worker_world :: "bytes world" where
  "worker_world = boot (replicate 12 (Ok 0))"

theorem worker_listens_where_gateway_connects_witness:
  "EvListen 0 (sun_path (gw_sock_path 1)) \<in> set (log (snd (wk_start [cs ''./worker'', cs ''1''] worker_world)))"
proof -
  have n: "dec_int 1 = cs ''1''" by code_simp
  have a: "atoi (cs ''1'') = 1" by code_simp
  have r: "replicate 12 (Ok 0) = [Ok 0, Ok 0, Ok 0, Ok 0, Ok 0, Ok 0, Ok 0, Ok 0, Ok 0, Ok 0, Ok 0, Ok 0]"
    by (simp add: numeral_eq_Suc)
  have al: "fst (sys_alloc worker_world)"
    by (simp add: sys_alloc_def sys_status_def next_answer_def worker_world_def r boot_def)
  have "fst (unix_server_socket (wk_sock_path 1) (snd (sys_status (snd (sys_status (snd (sys_alloc worker_world))))))) = 0"
    by (simp add: worker_world_def r sys_status_def sys_alloc_def next_answer_def unix_server_socket_def
        sys_newfd_def lowest_free_def emit_def Let_def boot_def)
  then have "fst (wk_start [cs ''./worker'', cs ''1''] worker_world) = Inr (1, 0)"
    by (simp add: wk_start_def Let_def split_beta al a)
  then show ?thesis
    using worker_listens_where_gateway_connects [of 1 "[cs ''./worker'', cs ''1'']" worker_world 1 0] n
    by (simp add: prod_eq_iff int32_def)
qed
end
