(* ===== verification/KaGateway.thy ===== *)
theory KaGateway
  imports SendFd
begin

text \<open>
  \<^verbatim>\<open>prototype/faasd_tlsmigrate_keepalive/common/tlsmigrate_keepalive.h\<close> and
  \<^verbatim>\<open>gateway/tlsmigratekeepalive/tlsmigratekeepalive.c\<close>: the payload that travels with a keep-alive
  connection, and the functions the gateway calls to accept and peek a connection, to pass it to a
  worker, and to take it back from one.  The benchmark's payload has the same fields
  (\<^verbatim>\<open>bench2_payload.h\<close>).

  A pointer argument that may be null is an \<open>option\<close>; the flags of a call say whether the pointers it
  only writes through are set.
\<close>

subsection \<open>The payload\<close>

definition TLSMIGRATE_KEEPALIVE_MAGIC :: u32 where "TLSMIGRATE_KEEPALIVE_MAGIC = 0x544D4B41"
definition TLSMIGRATE_KEEPALIVE_VERSION :: u32 where "TLSMIGRATE_KEEPALIVE_VERSION = 1"
definition TLSMIGRATE_KEEPALIVE_TARGET_LEN :: nat where "TLSMIGRATE_KEEPALIVE_TARGET_LEN = 128"

record ka_payload =
  pl_magic :: u32
  pl_version :: u32
  pl_serial :: tlspeek_serial
  pl_target_function :: bytes

definition zero_payload :: ka_payload where
  "zero_payload = \<lparr>pl_magic = 0, pl_version = 0, pl_serial = zero_serial, pl_target_function = zeros 128\<rparr>"

definition payload_wf :: "ka_payload \<Rightarrow> bool" where
  "payload_wf p = (serial_wf (pl_serial p) \<and> length (pl_target_function p) = 128)"

definition payload_bytes :: "ka_payload \<Rightarrow> bytes" where
  "payload_bytes p =
     le_bytes 4 (unat (pl_magic p)) @ le_bytes 4 (unat (pl_version p)) @ serial_bytes (pl_serial p)
     @ pl_target_function p"

definition SIZEOF_payload :: nat where "SIZEOF_payload = 24784"

definition bytes_payload :: "bytes \<Rightarrow> ka_payload" where
  "bytes_payload b =
     \<lparr>pl_magic = of_nat (le_val (slice 0 4 b)), pl_version = of_nat (le_val (slice 4 4 b)),
      pl_serial = bytes_serial (slice 8 24648 b), pl_target_function = slice 24656 128 b\<rparr>"

lemma payload_wf_zero [simp]: "payload_wf zero_payload"
  by (simp add: payload_wf_def zero_payload_def)

lemma length_payload_bytes: "payload_wf p \<Longrightarrow> length (payload_bytes p) = SIZEOF_payload"
  by (simp add: payload_bytes_def payload_wf_def length_serial_bytes SIZEOF_payload_def SIZEOF_serial_def)

lemma bytes_payload_payload_bytes: "payload_wf p \<Longrightarrow> bytes_payload (payload_bytes p) = p"
  by (simp add: bytes_payload_def payload_bytes_def payload_wf_def slice_simps word_le_bytes_4
      length_serial_bytes SIZEOF_serial_def bytes_serial_serial_bytes)

subsection \<open>Accepting, peeking, exporting\<close>

definition set_cipher_suite_from_name :: "bytes option \<Rightarrow> tlspeek_ctx \<Rightarrow> tlspeek_ctx" where
  "set_cipher_suite_from_name cipher_name peek_ctx =
     (case cipher_name of
        None \<Rightarrow> peek_ctx\<lparr>cipher_suite := TLSPEEK_AES_256_GCM\<rparr>
      | Some n \<Rightarrow>
          if strstr_found n (cs ''CHACHA20'') then peek_ctx\<lparr>cipher_suite := TLSPEEK_CHACHA20_POLY\<rparr>
          else if strstr_found n (cs ''AES-128'') then peek_ctx\<lparr>cipher_suite := TLSPEEK_AES_128_GCM\<rparr>
          else peek_ctx\<lparr>cipher_suite := TLSPEEK_AES_256_GCM\<rparr>)"

text \<open>The payload before and after the export fills the blob.\<close>

definition ka_fresh_payload :: "tlspeek_ctx \<Rightarrow> ka_payload" where
  "ka_fresh_payload peek_ctx =
     zero_payload\<lparr>pl_magic := TLSMIGRATE_KEEPALIVE_MAGIC, pl_version := TLSMIGRATE_KEEPALIVE_VERSION,
                  pl_serial := zero_serial\<lparr>ser_magic := TLSPEEK_MAGIC,
                                           ser_cipher_suite := cipher_suite peek_ctx,
                                           ser_client_write_key := client_write_key peek_ctx,
                                           ser_client_write_iv := client_write_iv peek_ctx,
                                           ser_read_seq_num := read_seq_num peek_ctx,
                                           ser_blob_sz := of_nat TLSPEEK_MAX_EXPORT_SZ\<rparr>\<rparr>"

definition put_blob :: "bytes \<Rightarrow> tlspeek_serial \<Rightarrow> tlspeek_serial" where
  "put_blob blob s = s\<lparr>ser_tls_blob := overwrite (ser_tls_blob s) blob, ser_blob_sz := of_nat (length blob)\<rparr>"

record ka_accept_out =
  ao_ret :: int
  ao_headers :: "bytes option" \<comment> \<open>what was stored through \<open>headers_buf\<close> and \<open>headers_len_out\<close>\<close>
  ao_payload :: "ka_payload option" \<comment> \<open>what was stored through \<open>payload_out\<close>\<close>

definition ka_fail :: ka_accept_out where
  "ka_fail = \<lparr>ao_ret = -1, ao_headers = None, ao_payload = None\<rparr>"

text \<open>From the completed handshake on.\<close>

definition ka_peek_export ::
  "'s wolfssl \<Rightarrow> crypto \<Rightarrow> int \<Rightarrow> nat \<Rightarrow> nat \<Rightarrow> tlspeek_ctx \<Rightarrow> 's world \<Rightarrow> ka_accept_out \<times> 's world" where
  "ka_peek_export L C client_fd headers_buf_sz p peek_ctx w =
     (let (cipher_name, w) = ssl_query (ws_cipher_name L) None p w;
          peek_ctx = set_cipher_suite_from_name cipher_name peek_ctx;
          ((headers_len, headers), w) = tls_read_peek C peek_ctx headers_buf_sz w
      in if headers_len \<le> 0 then (ka_fail, set_errno EIO (close client_fd (wolfSSL_free p w)))
         else
           (let payload = ka_fresh_payload peek_ctx;
                ((export_ret, blob), w) = wolfSSL_tls_export L p w
            in if export_ret \<le> 0
               then (\<lparr>ao_ret = -1, ao_headers = Some headers, ao_payload = Some payload\<rparr>,
                     set_errno EIO (close client_fd (wolfSSL_free p w)))
               else (\<lparr>ao_ret = client_fd, ao_headers = Some headers,
                      ao_payload = Some (payload\<lparr>pl_serial := put_blob blob (pl_serial payload)\<rparr>)\<rparr>,
                     wolfSSL_free p (wolfSSL_set_fd L p (-1) w))))"

definition tlsmigratekeepalive_accept_peek_export ::
  "'s wolfssl \<Rightarrow> crypto \<Rightarrow> bool \<Rightarrow> int \<Rightarrow> bool \<Rightarrow> nat \<Rightarrow> bool \<Rightarrow> 's world \<Rightarrow> ka_accept_out \<times> 's world" where
  "tlsmigratekeepalive_accept_peek_export L C ctx_set listen_fd buf_set headers_buf_sz out_set w =
     (if \<not> ctx_set \<or> listen_fd < 0 \<or> \<not> buf_set \<or> headers_buf_sz = 0 \<or> \<not> out_set
      then (ka_fail, set_errno EINVAL w)
      else
        (let (client_fd, w) = sys_newfd w
         in if client_fd < 0 then (ka_fail, w)
            else
              (let (ssl_p, w) = wolfSSL_new L w
               in case ssl_p of
                    None \<Rightarrow> (ka_fail, set_errno ENOMEM (close client_fd w))
                  | Some p \<Rightarrow>
                      (let w = wolfSSL_set_fd L p client_fd w;
                           ((ok, _, secrets), w) = wolfSSL_accept L p w;
                           peek_ctx = run_callbacks C secrets (zero_ctx\<lparr>tcp_fd := client_fd, ssl := Some p\<rparr>)
                       in if \<not> ok then (ka_fail, close client_fd (wolfSSL_free p w))
                          else if keys_ready peek_ctx = 0
                          then (ka_fail, set_errno EPROTO (close client_fd (wolfSSL_free p w)))
                          else ka_peek_export L C client_fd headers_buf_sz p peek_ctx w))))"

subsection \<open>Passing a connection on, taking it back\<close>

definition tlsmigratekeepalive_send_fd ::
  "bytes option \<Rightarrow> ka_payload option \<Rightarrow> nat \<Rightarrow> int \<Rightarrow> 's world \<Rightarrow> int \<times> 's world" where
  "tlsmigratekeepalive_send_fd path payload payload_len client_fd w =
     (case (path, payload) of
        (Some path, Some payload) \<Rightarrow>
          if payload_len = 0 \<or> client_fd < 0 then (-1, set_errno EINVAL (close_if_open client_fd w))
          else
            (let (uds_fd, w) = unix_client_connect path w
             in if uds_fd < 0 then (-1, close client_fd w)
                else
                  (let (rc, w) = sendfd_with_state uds_fd client_fd
                                   (take payload_len (payload_bytes payload)) w;
                       w = close uds_fd w
                   in if rc \<noteq> 0 then (-1, close client_fd w) else (0, w)))
      | _ \<Rightarrow> (-1, set_errno EINVAL (close_if_open client_fd w)))"

definition tlsmigratekeepalive_unix_server :: "bytes \<Rightarrow> 's world \<Rightarrow> int \<times> 's world" where
  "tlsmigratekeepalive_unix_server sock_path w =
     (let (fd, w) = unix_server_socket sock_path w
      in if fd < 0 then (-1, w)
         else (let (r, w) = sys_status w in (fd, if r < 0 then w else emit (EvChmod sock_path) w)))"

definition tlsmigratekeepalive_accept_recv ::
  "int \<Rightarrow> ka_payload option \<Rightarrow> 's world \<Rightarrow> (int \<times> ka_payload option) \<times> 's world" where
  "tlsmigratekeepalive_accept_recv listen_fd payload_out w =
     (case payload_out of
        None \<Rightarrow> ((-1, None), set_errno EINVAL w)
      | Some old \<Rightarrow>
          if listen_fd < 0 then ((-1, Some old), set_errno EINVAL w)
          else
            (let (conn_fd, w) = unix_accept w
             in if conn_fd < 0 then ((-1, Some old), w)
                else
                  (let ((r, fd_out, data), w) = recvfd_with_state SIZEOF_payload w;
                       client_fd = (case fd_out of None \<Rightarrow> -1 | Some f \<Rightarrow> f);
                       new = bytes_payload (overwrite (payload_bytes old) data)
                   in if r \<noteq> 0 then ((-1, Some new), close_if_open client_fd (close conn_fd w))
                      else ((client_fd, Some new), close conn_fd w))))"

subsection \<open>Passing on keeps the contract\<close>

lemma ka_send_fd_eq:
  "0 < len \<Longrightarrow> 0 \<le> fd \<Longrightarrow>
     tlsmigratekeepalive_send_fd (Some path) (Some payload) len fd w =
       connect_and_send path (take len (payload_bytes payload)) fd w"
  by (simp add: tlsmigratekeepalive_send_fd_def connect_and_send_def)

lemma ka_send_fd_negative:
  "fd < 0 \<Longrightarrow> tlsmigratekeepalive_send_fd (Some path) (Some payload) len fd w = (-1, set_errno EINVAL w)"
  by (simp add: tlsmigratekeepalive_send_fd_def close_if_open_def)

text \<open>The hand-off to a worker, for a whole payload.\<close>

definition ka_send :: "bytes \<Rightarrow> ka_payload \<Rightarrow> int \<Rightarrow> 's world \<Rightarrow> int \<times> 's world" where
  "ka_send path payload fd w = tlsmigratekeepalive_send_fd (Some path) (Some payload) SIZEOF_payload fd w"

lemma ka_send_eq:
  "ka_send path payload fd w =
     (if fd < 0 then (-1, set_errno EINVAL w)
      else connect_and_send path (take SIZEOF_payload (payload_bytes payload)) fd w)"
  by (simp add: ka_send_def ka_send_fd_eq ka_send_fd_negative SIZEOF_payload_def)

interpretation ka_send: fd_handoff "ka_send path payload"
  for path payload
  by (rule fd_handoff_guarded [OF connect_and_send_handoff, where e = EINVAL]) (simp_all add: ka_send_eq)


subsection \<open>Accepting\<close>

lemma ka_peek_export_resources:
  fixes L :: "'s wolfssl" and C :: crypto and sz :: nat and ctx :: tlspeek_ctx
  assumes fd: "fd \<in> set (fds w)" and wf: "fd_wf w" and p: "p \<in> live w"
  defines "r \<equiv> ka_peek_export L C fd sz p ctx w"
  shows "live (snd r) = live w - {p} \<and> ub (snd r) = ub w \<and> rxq (snd r) = rxq w
       \<and> next_ssl (snd r) = next_ssl w \<and> bad_closes (log (snd r)) = bad_closes (log w) \<and> fd_wf (snd r)
       \<and> (ao_ret (fst r) = -1 \<and> set (fds (snd r)) = set (fds w) - {fd}
        \<or> ao_ret (fst r) = fd \<and> fds (snd r) = fds w \<and> ao_payload (fst r) \<noteq> None)"
proof -
  define w1 where "w1 = snd (ssl_query (ws_cipher_name L) None p w)"
  define c where "c = set_cipher_suite_from_name (fst (ssl_query (ws_cipher_name L) None p w)) ctx"
  have r: "r = (if fst (fst (tls_read_peek C c sz w1)) \<le> 0
      then (ka_fail, set_errno EIO (close fd (wolfSSL_free p (snd (tls_read_peek C c sz w1)))))
      else let (e, w3) = wolfSSL_tls_export L p (snd (tls_read_peek C c sz w1)) in
        if fst e \<le> 0 then (\<lparr>ao_ret = -1, ao_headers = Some (snd (fst (tls_read_peek C c sz w1))),
            ao_payload = Some (ka_fresh_payload c)\<rparr>, set_errno EIO (close fd (wolfSSL_free p w3)))
        else (\<lparr>ao_ret = fd, ao_headers = Some (snd (fst (tls_read_peek C c sz w1))), ao_payload =
            Some ((ka_fresh_payload c)\<lparr>pl_serial := put_blob (snd e) (pl_serial (ka_fresh_payload c))\<rparr>)\<rparr>,
            wolfSSL_free p (wolfSSL_set_fd L p (-1) w3)))"
    unfolding r_def ka_peek_export_def w1_def c_def by (simp add: split_beta Let_def)
  have w1: "fds w1 = fds w" "rxq w1 = rxq w" "live w1 = live w" "ub w1 = ub w" "log w1 = log w"
    "next_ssl w1 = next_ssl w" using p by (simp_all add: w1_def)
  show ?thesis
    using fd wf p by (simp add: r split_beta Let_def w1 ka_fail_def fd_wf_def)
qed

lemma ka_accept_resources:
  fixes L :: "'s wolfssl" and C :: crypto and sz :: nat and lfd :: int and c_ok b_ok o_ok :: bool
  assumes wf: "fd_wf w" "ssl_wf w"
  defines "r \<equiv> tlsmigratekeepalive_accept_peek_export L C c_ok lfd b_ok sz o_ok w"
  shows "tidy w (snd r) \<and> fd_wf (snd r) \<and> ssl_wf (snd r)
       \<and> (ao_ret (fst r) = -1 \<and> set (fds (snd r)) = set (fds w)
        \<or> 0 \<le> ao_ret (fst r) \<and> ao_ret (fst r) \<notin> set (fds w)
          \<and> set (fds (snd r)) = insert (ao_ret (fst r)) (set (fds w)) \<and> ao_payload (fst r) \<noteq> None)"
proof (cases "\<not> c_ok \<or> lfd < 0 \<or> \<not> b_ok \<or> sz = 0 \<or> \<not> o_ok")
  case True
  then show ?thesis
    using wf by (simp add: r_def tlsmigratekeepalive_accept_peek_export_def ka_fail_def tidy_def
        fd_wf_def ssl_wf_def)
next
  case ok: False
  let ?fd = "fst (sys_newfd w)" and ?w0 = "snd (sys_newfd w)"
  show ?thesis
  proof (cases "?fd < 0")
    case True
    with ok wf show ?thesis
      by (simp add: r_def tlsmigratekeepalive_accept_peek_export_def ka_fail_def tidy_def
        fd_wf_def ssl_wf_def split_beta)
  next
    case False
    have fresh: "?fd \<notin> set (fds w)" using False sys_newfd_fresh [of w] by simp
    show ?thesis
    proof (cases "fst (wolfSSL_new L ?w0)")
      case None
      with ok False wf fresh show ?thesis
        by (simp add: r_def tlsmigratekeepalive_accept_peek_export_def ka_fail_def tidy_def
            fd_wf_def ssl_wf_def split_beta)
    next
      case (Some p)
      define w1 where "w1 = wolfSSL_set_fd L p ?fd (snd (wolfSSL_new L ?w0))"
      define w2 where "w2 = snd (wolfSSL_accept L p w1)"
      define ctx where "ctx = run_callbacks C (snd (snd (fst (wolfSSL_accept L p w1))))
        (zero_ctx\<lparr>tcp_fd := ?fd, ssl := Some p\<rparr>)"
      have p: "p = next_ssl w" "p \<notin> live w"
        using wolfSSL_new_ptr [OF Some] ssl_wf_fresh [OF wf(2)] by auto
      have w2: "fds w2 = ?fd # fds w" "rxq w2 = rxq w" "live w2 = insert p (live w)" "log w2 = log w"
        "ub w2 = ub w" "next_ssl w2 = Suc (next_ssl w)"
        using False by (simp_all add: w1_def w2_def Some)
      have req: "r = (if \<not> fst (fst (wolfSSL_accept L p w1)) then (ka_fail, close ?fd (wolfSSL_free p w2))
          else if keys_ready ctx = 0 then (ka_fail, set_errno EPROTO (close ?fd (wolfSSL_free p w2)))
          else ka_peek_export L C ?fd sz p ctx w2)"
        unfolding r_def tlsmigratekeepalive_accept_peek_export_def w2_def ctx_def w1_def
        using ok False Some by (simp add: split_beta Let_def)
      have lv: "live w - {p} = live w" using p(2) by simp
      have f2: "?fd \<in> set (fds w2)" "fd_wf w2" "p \<in> live w2"
        using fresh wf by (simp_all add: w2 fd_wf_def)
      from ka_peek_export_resources [OF f2, of L C sz ctx] fresh False wf w2 lv show ?thesis
        by (auto simp: req tidy_def fd_wf_def ssl_wf_def ka_fail_def)
    qed
  qed
qed


subsection \<open>Receiving\<close>

lemma lowest_free_nonneg' [simp]: "\<not> lowest_free l < 0"
  using lowest_free_nonneg [of l] by simp

lemma accept_recv_message:
  assumes lfd: "0 \<le> lfd" and sc: "script w = a # Msg d (Some fd_cmsg) False # as" "\<forall>e. a \<noteq> Err e"
    and d: "d \<noteq> []" "length d \<le> SIZEOF_payload"
  shows "\<exists>fd. fd \<notin> set (fds w) \<and> 0 \<le> fd
       \<and> fst (tlsmigratekeepalive_accept_recv lfd (Some old) w) =
           (fd, Some (bytes_payload (overwrite (payload_bytes old) d)))
       \<and> set (fds (snd (tlsmigratekeepalive_accept_recv lfd (Some old) w))) = insert fd (set (fds w))"
proof -
  define c where "c = lowest_free (fds w)"
  define f where "f = lowest_free (c # fds w)"
  define w2 where "w2 = w\<lparr>script := as, fds := f # c # fds w\<rparr>"
  have c: "c \<notin> set (fds w)" "0 \<le> c" using lowest_free_fresh [of "fds w"] by (simp_all add: c_def)
  have f: "f \<notin> set (c # fds w)" "0 \<le> f" using lowest_free_fresh [of "c # fds w"] by (simp_all add: f_def)
  have rights_one: "rights_count (Some fd_cmsg) = Suc 0"
    by (simp add: rights_count_def fd_cmsg_def CMSG_LEN_int_def)
  have fc: "cmsg_level fd_cmsg = SOL_SOCKET" "cmsg_type fd_cmsg = SCM_RIGHTS"
    "cmsg_len fd_cmsg = CMSG_LEN_int" by (simp_all add: fd_cmsg_def)
  have acc: "unix_accept w = (c, w\<lparr>script := Msg d (Some fd_cmsg) False # as, fds := c # fds w\<rparr>)"
    using sc c by (cases a) (simp_all add: unix_accept_def sys_newfd_def next_answer_def Let_def c_def)
  have rc: "recvfd_with_state SIZEOF_payload (snd (unix_accept w)) = ((0, Some f, d), w2)"
    using d fc by (simp add: acc recvfd_with_state_def recvmsg_def next_answer_def rights_one
        f_def [symmetric] w2_def)
  have "tlsmigratekeepalive_accept_recv lfd (Some old) w =
      ((f, Some (bytes_payload (overwrite (payload_bytes old) d))), close c w2)"
    unfolding tlsmigratekeepalive_accept_recv_def using lfd c rc by (simp add: split_beta Let_def acc)
  moreover have "set (fds (close c w2)) = insert f (set (fds w))"
    using f c by (simp add: w2_def)
  ultimately show ?thesis using f by auto
qed

subsection \<open>What is sent\<close>

text \<open>The payload the gateway library builds from its peek context and the exported session.\<close>

definition ka_sent_payload :: "tlspeek_ctx \<Rightarrow> bytes \<Rightarrow> ka_payload" where
  "ka_sent_payload ctx blob = (ka_fresh_payload ctx)\<lparr>pl_serial := put_blob blob (pl_serial (ka_fresh_payload ctx))\<rparr>"

lemma ka_sent_payload_wf: "ctx_wf ctx \<Longrightarrow> length blob \<le> 16384 \<Longrightarrow> payload_wf (ka_sent_payload ctx blob)"
  by (simp add: ka_sent_payload_def ka_fresh_payload_def payload_wf_def zero_payload_def serial_wf_def put_blob_def zero_serial_def
      ctx_wf_def)

lemma ka_sent_payload_restores:
  assumes "length blob \<le> 16384"
  shows "tlspeek_restore L q (pl_serial (ka_sent_payload ctx blob)) v =
           (if fst (wolfSSL_tls_import L q blob v) \<le> 0 then -1 else 0, snd (wolfSSL_tls_import L q blob v))"
proof -
  have l: "unat (of_nat (length blob) :: u32) = length blob"
    using assms by (simp add: unat_of_nat take_bit_nat_eq_self)
  have b: "take (length blob) (overwrite (ser_tls_blob zero_serial) blob) = blob" by simp
  show ?thesis
    using l b assms
    by (simp add: tlspeek_restore_def ka_sent_payload_def ka_fresh_payload_def put_blob_def TLSPEEK_MAX_EXPORT_SZ_def
        flag_ub_False split_beta Let_def)
qed

lemma ka_export_payload:
  assumes "ka_peek_export L C fd sz p ctx w = (r, w')" "0 \<le> ao_ret r" "ctx_wf ctx"
  shows "\<exists>ctx' s. ctx_wf ctx' \<and> ao_payload r = Some (ka_sent_payload ctx' (snd (ws_export L s)))"
proof -
  define n where "n = ssl_query (ws_cipher_name L) None p w"
  define c where "c = set_cipher_suite_from_name (fst n) ctx"
  define k where "k = tls_read_peek C c sz (snd n)"
  define e where "e = wolfSSL_tls_export L p (snd k)"
  have c: "ctx_wf c" using assms(3) by (auto simp: c_def set_cipher_suite_from_name_def ctx_wf_def split: option.split)
  have eq: "ka_peek_export L C fd sz p ctx w =
      (if fst (fst k) \<le> 0 then (ka_fail, set_errno EIO (close fd (wolfSSL_free p (snd k))))
       else if fst (fst e) \<le> 0 then (\<lparr>ao_ret = -1, ao_headers = Some (snd (fst k)), ao_payload = Some (ka_fresh_payload c)\<rparr>,
                     set_errno EIO (close fd (wolfSSL_free p (snd e))))
       else (\<lparr>ao_ret = fd, ao_headers = Some (snd (fst k)), ao_payload = Some (ka_sent_payload c (snd (fst e)))\<rparr>,
                     wolfSSL_free p (wolfSSL_set_fd L p (-1) (snd e))))"
    by (simp add: ka_peek_export_def n_def c_def k_def e_def ka_sent_payload_def split_beta Let_def)
  then have ok: "\<not> fst (fst e) \<le> 0" "r = \<lparr>ao_ret = fd, ao_headers = Some (snd (fst k)), ao_payload = Some (ka_sent_payload c (snd (fst e)))\<rparr>"
    using assms(1,2) by (auto simp: ka_fail_def split: if_splits)
  then obtain s where "fst e = ws_export L s"
    by (auto simp: e_def wolfSSL_tls_export_def ssl_query_def split: option.splits)
  with c ok(2) show ?thesis by auto
qed

lemma ka_accept_payload:
  assumes "tlsmigratekeepalive_accept_peek_export L C c_ok lfd b_ok sz o_ok w = (r, w')" "0 \<le> ao_ret r" "hkdf_bounded C"
  shows "\<exists>ctx s. ctx_wf ctx \<and> ao_payload r = Some (ka_sent_payload ctx (snd (ws_export L s)))"
proof -
  define fd where "fd = fst (sys_newfd w)"
  obtain ssl_p w0 where nw: "wolfSSL_new L (snd (sys_newfd w)) = (ssl_p, w0)" by fastforce
  show ?thesis
  proof (cases ssl_p)
    case None
    then show ?thesis
      using assms(1,2) nw by (auto simp: tlsmigratekeepalive_accept_peek_export_def ka_fail_def split_beta split: if_splits)
  next
    case (Some p)
    define a where "a = wolfSSL_accept L p (wolfSSL_set_fd L p fd w0)"
    define ctx where "ctx = run_callbacks C (snd (snd (fst a))) (zero_ctx\<lparr>tcp_fd := fd, ssl := Some p\<rparr>)"
    have wf: "ctx_wf ctx" unfolding ctx_def
      by (rule run_callbacks_wf [OF assms(3)]) (simp add: ctx_wf_def zero_ctx_def)
    have "ka_peek_export L C fd sz p ctx (snd a) = (r, w')"
      using assms(1,2) nw Some
      by (auto simp: tlsmigratekeepalive_accept_peek_export_def ka_fail_def split_beta Let_def a_def ctx_def fd_def split: if_splits)
    from ka_export_payload [OF this assms(2) wf] show ?thesis .
  qed
qed

subsection \<open>Properties\<close>

text \<open>
  Accepting a connection either fails and leaves the table as it was, or returns a new descriptor
  with its payload; on every branch the session it created is freed, no freed session is used, nothing
  is closed twice, and the peeked bytes stay in the kernel.
\<close>

theorem ka_accept_peek_export_resources:
  assumes "fd_wf w" and "ssl_wf w"
    and "tlsmigratekeepalive_accept_peek_export L C c_ok lfd b_ok sz o_ok w = (r, w')"
  shows "live w' = live w \<and> ub w' = ub w \<and> rxq w' = rxq w \<and> bad_closes (log w') = bad_closes (log w)
       \<and> (ao_ret r = -1 \<and> set (fds w') = set (fds w)
        \<or> 0 \<le> ao_ret r \<and> ao_ret r \<notin> set (fds w) \<and> set (fds w') = insert (ao_ret r) (set (fds w))
          \<and> ao_payload r \<noteq> None)"
  using ka_accept_resources [OF assms(1,2), of L C c_ok lfd b_ok sz o_ok] assms(3)
  by (simp add: tidy_def)

theorem ka_accept_peek_export_resources_witness:
  "live (snd (tlsmigratekeepalive_accept_peek_export echo_ssl clear_crypto True 4 True 8192 True
                (boot [Ok 0, Ok 0, Ok 0, Ok 0]))) = {}"
  using ka_accept_peek_export_resources
          [of "boot [Ok 0, Ok 0, Ok 0, Ok 0]" echo_ssl clear_crypto True 4 True 8192 True
            "fst (tlsmigratekeepalive_accept_peek_export echo_ssl clear_crypto True 4 True 8192 True
                (boot [Ok 0, Ok 0, Ok 0, Ok 0]))"
            "snd (tlsmigratekeepalive_accept_peek_export echo_ssl clear_crypto True 4 True 8192 True
                (boot [Ok 0, Ok 0, Ok 0, Ok 0]))"]
  by (simp add: fd_wf_def ssl_wf_def)

text \<open>
  C13. Passing connections to workers, one after the other: afterwards the gateway holds none of them and
  all its other descriptors, however many of the hand-offs failed; and each hand-off gives its connection
  to exactly one owner: it returns 0 exactly when the descriptor was put on a socket, and closes its own
  copy exactly once either way.
\<close>

theorem ka_handoffs_release_every_connection:
  assumes "fd_wf w" and "distinct (fd # l)" and "set (fd # l) \<subseteq> set (fds w)"
    and "\<forall>x \<in> set (fd # l). 0 \<le> x"
  shows "set (fds (run_handoffs (ka_send path payload) (fd # l) w)) = set (fds w) - set (fd # l)
       \<and> live (run_handoffs (ka_send path payload) (fd # l) w) = live w
       \<and> count_list (events_since w (snd (ka_send path payload fd w))) (EvClose fd) = 1
       \<and> (fst (ka_send path payload fd w) = 0 \<longleftrightarrow>
            (\<exists>sock pl. EvSendFd sock fd pl \<in> set (events_since w (snd (ka_send path payload fd w)))))"
  using ka_send.handoffs_table [OF assms, of path payload]
    ka_send.handoffs_frame [of path payload "fd # l" w]
    ka_send.closed_once [of w fd path payload] ka_send.delivered [of w fd path payload] assms
  by simp

theorem ka_handoffs_release_every_connection_witness:
  "set (fds (run_handoffs (ka_send (cs ''/run/w.sock'') zero_payload) [5, 7]
       ((boot [Ok 0, Ok 0, Err EAGAIN, Err EOTHER] :: unit world)\<lparr>fds := [3, 5, 7]\<rparr>))) = {3}"
  using ka_handoffs_release_every_connection
          [of "(boot [Ok 0, Ok 0, Err EAGAIN, Err EOTHER] :: unit world)\<lparr>fds := [3, 5, 7]\<rparr>" 5 "[7]"
              "cs ''/run/w.sock''" zero_payload]
  by (auto simp: fd_wf_def)

text \<open>
  What the sender puts on the socket is what the receiver reads: when the message arrives whole, the
  receiver gets a new descriptor for the connection and exactly the payload that was sent.
\<close>

theorem ka_payload_delivered:
  assumes "payload_wf payload" and "payload_wf old" and "0 \<le> lfd"
    and "script w = Ok 0 # Msg (payload_bytes payload) (Some fd_cmsg) False # as"
  shows "\<exists>fd. fd \<notin> set (fds w) \<and> 0 \<le> fd
       \<and> fst (tlsmigratekeepalive_accept_recv lfd (Some old) w) = (fd, Some payload)
       \<and> set (fds (snd (tlsmigratekeepalive_accept_recv lfd (Some old) w))) = insert fd (set (fds w))"
proof -
  have l: "length (payload_bytes payload) = SIZEOF_payload" "length (payload_bytes old) = SIZEOF_payload"
    using assms by (simp_all add: length_payload_bytes)
  then have "payload_bytes payload \<noteq> []" by (auto simp: SIZEOF_payload_def)
  then show ?thesis
    using accept_recv_message [OF assms(3,4) _ _ eq_imp_le [OF l(1)], of old] l
    by (simp add: overwrite_full bytes_payload_payload_bytes [OF assms(1)])
qed

theorem ka_payload_delivered_witness:
  "\<exists>fd. fst (tlsmigratekeepalive_accept_recv 3 (Some zero_payload)
               (boot [Ok 0, Msg (payload_bytes (zero_payload\<lparr>pl_version := 1\<rparr>)) (Some fd_cmsg) False]
                  :: unit world)) = (fd, Some (zero_payload\<lparr>pl_version := 1\<rparr>))"
  using ka_payload_delivered [of "zero_payload\<lparr>pl_version := 1\<rparr>" zero_payload 3
      "boot [Ok 0, Msg (payload_bytes (zero_payload\<lparr>pl_version := 1\<rparr>)) (Some fd_cmsg) False] :: unit world"
      "[]"]
  by (auto simp: payload_wf_def zero_payload_def)

text \<open>
  A message cut short by the stream socket is accepted all the same: any non-empty prefix of the
  payload makes the receiver return success, with the missing bytes left as they were in its buffer.
\<close>

theorem ka_short_payload_accepted:
  assumes "payload_wf payload" and "payload_wf old" and "0 \<le> lfd" and "0 < k" and "k < SIZEOF_payload"
    and "script w = Ok 0 # Msg (take k (payload_bytes payload)) (Some fd_cmsg) False # as"
  shows "\<exists>fd. 0 \<le> fd \<and> fst (tlsmigratekeepalive_accept_recv lfd (Some old) w) =
           (fd, Some (bytes_payload (take k (payload_bytes payload) @ drop k (payload_bytes old))))"
proof -
  have l: "length (payload_bytes payload) = SIZEOF_payload"
    using assms by (simp add: length_payload_bytes)
  then have "take k (payload_bytes payload) \<noteq> []" "length (take k (payload_bytes payload)) = k"
    using assms by (auto simp: SIZEOF_payload_def)
  then show ?thesis
    using accept_recv_message [OF assms(3,6), of old] assms(5) by (auto simp: overwrite_def)
qed

theorem ka_short_payload_accepted_witness:
  "\<exists>fd. 0 \<le> fd \<and> fst (fst (tlsmigratekeepalive_accept_recv 3 (Some zero_payload)
       (boot [Ok 0, Msg (take 1 (payload_bytes zero_payload)) (Some fd_cmsg) False] :: unit world))) = fd"
  using ka_short_payload_accepted [of zero_payload zero_payload 3 1
      "boot [Ok 0, Msg (take 1 (payload_bytes zero_payload)) (Some fd_cmsg) False] :: unit world" "[]"]
  by (auto simp: SIZEOF_payload_def)

end
