(* ===== verification/HttpScan.thy ===== *)
theory HttpScan
  imports Prelude
begin

text \<open>
  The HTTP scanning functions of the keep-alive worker
  (\<^verbatim>\<open>prototype/faasd_tlsmigrate_keepalive/function/timing-fn/timing_fn_keepalive_worker.c\<close>, prefix
  \<open>ka\<close>), of the one-request worker (\<^verbatim>\<open>prototype/faasd_tlsmigrate/function/timing-fn/timing_fn_worker.c\<close>,
  prefix \<open>tm\<close>) and of the benchmark worker
  (\<^verbatim>\<open>benchmarks/micro/micro-bench-max-throughput/proto_worker/bench2_proto_worker.c\<close>, prefix \<open>b2\<close>).

  A pointer into a buffer is the list of the bytes from it to the end of the C string, so that
  functions that read past the length they were given (\<^verbatim>\<open>strtoll\<close>, \<^verbatim>\<open>strncasecmp\<close>) see what the code
  sees; the distance to the end of the header is a number.

  The locale \<open>header_scan\<close> is the contract of a scanner for a numeric header, \<open>owner_parser\<close> that of a
  parser of the request line; both are interpreted on the variants of the code.
\<close>

subsection \<open>Searching for the end of the header\<close>

definition find_subseq :: "bytes \<Rightarrow> bytes \<Rightarrow> int" where
  "find_subseq buf needle =
     (if needle = [] \<or> length buf < length needle then -1
      else case find_at needle buf of None \<Rightarrow> -1 | Some i \<Rightarrow> int i)"

text \<open>Header lines closed by CR LF, then the blank line: its first occurrence is the end of the header.\<close>

lemma find_at_skip:
  "c \<notin> set l \<Longrightarrow> find_at (c # n) (l @ s) = map_option ((+) (length l)) (find_at (c # n) s)"
  by (induction l; cases "find_at (c # n) s"; auto)

lemma find_blank_line:
  assumes "list_all (\<lambda>l. l \<noteq> [] \<and> CR \<notin> set l) ls" "ls \<noteq> []"
  shows "find_at (crlf @ crlf) (concat (map (\<lambda>l. l @ crlf) ls) @ crlf @ r) =
           Some (length (concat (map (\<lambda>l. l @ crlf) ls)) - 2)"
  using assms
proof (induction ls)
  case (Cons l ls)
  have skip: "find_at (crlf @ crlf) (l @ s) = map_option ((+) (length l)) (find_at (crlf @ crlf) s)" for s
    using Cons.prems(1) find_at_skip [of CR l "LF # crlf" s] by simp
  show ?case
  proof (cases ls)
    case Nil
    then show ?thesis by (simp add: skip [simplified])
  next
    case (Cons m ms)
    define t where "t = concat (map (\<lambda>l. l @ crlf) ls) @ crlf @ r"
    have "hd t \<noteq> CR" "t \<noteq> []"
      using Cons.prems(1) Cons by (auto simp: t_def hd_append dest: hd_in_set)
    then have "find_at (crlf @ crlf) (crlf @ t) = map_option ((+) 2) (find_at (crlf @ crlf) t)"
      by (cases t) (auto simp: option.map_comp comp_def)
    moreover have "find_at (crlf @ crlf) t = Some (length (concat (map (\<lambda>l. l @ crlf) ls)) - 2)"
      using Cons.IH Cons.prems(1) Cons by (simp add: t_def)
    moreover have "2 \<le> length (concat (map (\<lambda>l. l @ crlf) ls))" using Cons by simp
    ultimately show ?thesis using skip [of "crlf @ t"] by (simp add: t_def)
  qed
qed simp

subsection \<open>Numeric headers\<close>

definition blank_len :: "bytes \<Rightarrow> nat" where
  "blank_len v = length (takeWhile (\<lambda>c. c = SP \<or> c = HT) v)"

definition line_break_len :: "bytes \<Rightarrow> nat" where
  "line_break_len v = length (takeWhile (\<lambda>c. c = CR \<or> c = LF) v)"

text \<open>One line that starts at \<open>line\<close> and has \<open>len\<close> bytes; \<open>None\<close> when it does not give a value.\<close>

definition ka_line_int64 :: "bytes \<Rightarrow> nat \<Rightarrow> bytes \<Rightarrow> int option" where
  "ka_line_int64 line len needle =
     (if length needle \<le> len \<and> strncasecmp_eq line needle (length needle) then
        (let after = drop (length needle) line;
             skip = blank_len (take (len - length needle) after);
             (parsed, used, erange) = strtoll (drop skip after)
         in if \<not> erange \<and> 0 < used then Some parsed else None)
      else None)"

definition line_len :: "bytes \<Rightarrow> nat \<Rightarrow> nat" where
  "line_len p n = (case memchr p LF n of None \<Rightarrow> n | Some i \<Rightarrow> Suc i)"

lemma line_len_pos: "0 < n \<Longrightarrow> 0 < line_len p n"
  by (simp add: line_len_def split: option.split)

function ka_parse_header_int64 :: "bytes \<Rightarrow> nat \<Rightarrow> bytes \<Rightarrow> int" where
  "ka_parse_header_int64 p n needle =
     (if n = 0 then -1
      else
        (let ll = line_len p n;
             skip = line_break_len (take ll p)
         in case ka_line_int64 (drop skip p) (ll - skip) needle of
              Some v \<Rightarrow> v
            | None \<Rightarrow> ka_parse_header_int64 (drop ll p) (n - ll) needle))"
  by pat_completeness auto

termination
  by (relation "measure (\<lambda>(p, n, needle). n)") (auto simp: line_len_pos)

declare ka_parse_header_int64.simps [simp del]

definition ka_parse_content_length :: "bytes \<Rightarrow> nat \<Rightarrow> int" where
  "ka_parse_content_length headers headers_len =
     ka_parse_header_int64 headers headers_len (cs ''content-length:'')"

text \<open>
  The variant of the benchmark: the line excludes its line feed, its start is not skipped over, the
  key is compared byte by byte with the lower-cased line, blanks are skipped up to the end of the
  whole header, and an out-of-range number is taken as \<^verbatim>\<open>strtoll\<close> saturates it.
\<close>

definition b2_key_matches :: "bytes \<Rightarrow> bytes \<Rightarrow> bool" where
  "b2_key_matches p key = (map tolower (take (length key) p) = key)"

definition b2_line_int64 :: "bytes \<Rightarrow> nat \<Rightarrow> nat \<Rightarrow> bytes \<Rightarrow> int option" where
  "b2_line_int64 p ll n needle =
     (if length needle \<le> ll \<and> b2_key_matches p needle then
        (let after = drop (length needle) p;
             skip = blank_len (take (n - length needle) after);
             (val, used, _) = strtoll (drop skip after)
         in if 0 < used then Some val else None)
      else None)"

function b2_parse_header_int64 :: "bytes \<Rightarrow> nat \<Rightarrow> bytes \<Rightarrow> int" where
  "b2_parse_header_int64 p n needle =
     (if n = 0 then -1
      else
        (let nl = memchr p LF n;
             ll = (case nl of None \<Rightarrow> n | Some i \<Rightarrow> i)
         in case b2_line_int64 p ll n needle of
              Some v \<Rightarrow> v
            | None \<Rightarrow> b2_parse_header_int64 (drop (line_len p n) p) (n - line_len p n) needle))"
  by pat_completeness auto

termination
  by (relation "measure (\<lambda>(p, n, needle). n)") (auto simp: line_len_pos)

declare b2_parse_header_int64.simps [simp del]

definition b2_parse_content_length :: "bytes \<Rightarrow> nat \<Rightarrow> int" where
  "b2_parse_content_length hdr hlen = b2_parse_header_int64 hdr hlen (cs ''content-length:'')"

definition b2_has_single_owner_hint :: "bytes \<Rightarrow> nat \<Rightarrow> bool" where
  "b2_has_single_owner_hint hdr hlen =
     (0 < b2_parse_header_int64 hdr hlen (cs ''x-bench2-single-owner:''))"

text \<open>
  The one-request worker looks for the key with \<^verbatim>\<open>strcasestr\<close> from the start of the line and accepts
  a match at the start only, which is a comparison of the start of the line.
\<close>

fun strcasestr :: "bytes \<Rightarrow> bytes \<Rightarrow> nat option" where
  "strcasestr [] n = (if n = [] then Some 0 else None)"
| "strcasestr (x # xs) n =
     (if map tolower (take (length n) (x # xs)) = map tolower n then Some 0
      else map_option Suc (strcasestr xs n))"

definition tm_line_length :: "bytes \<Rightarrow> nat \<Rightarrow> int option" where
  "tm_line_length line len =
     (if 0 < len \<and> strcasestr (cstr line) (cs ''content-length:'') = Some 0 then
        (let after = drop 15 line;
             skip = blank_len (take (len - 15) after);
             (cl, used, erange) = strtoll (drop skip after)
         in if \<not> erange \<and> 0 < used \<and> 0 \<le> cl then Some cl else None)
      else None)"

function tm_content_length_loop :: "bytes \<Rightarrow> nat \<Rightarrow> int" where
  "tm_content_length_loop p n =
     (if n = 0 then -1
      else
        (let ll = line_len p n;
             skip = line_break_len (take ll p)
         in case tm_line_length (drop skip p) (ll - skip) of
              Some v \<Rightarrow> v
            | None \<Rightarrow> tm_content_length_loop (drop ll p) (n - ll)))"
  by pat_completeness auto

termination
  by (relation "measure (\<lambda>(p, n). n)") (auto simp: line_len_pos)

declare tm_content_length_loop.simps [simp del]

definition tm_parse_content_length :: "bytes \<Rightarrow> nat \<Rightarrow> int" where
  "tm_parse_content_length headers headers_len =
     (if headers_len = 0 then -1 else tm_content_length_loop headers headers_len)"

subsection \<open>Connection tokens\<close>

fun token_at :: "bytes \<Rightarrow> nat \<Rightarrow> bytes \<Rightarrow> bool" where
  "token_at it 0 token = (token = [])"
| "token_at it (Suc n) token =
     (length token \<le> Suc n
      \<and> (strncasecmp_eq it token (length token) \<or> token_at (drop 1 it) n token))"

function ka_header_has_token :: "bytes \<Rightarrow> nat \<Rightarrow> bytes \<Rightarrow> bytes \<Rightarrow> bool" where
  "ka_header_has_token p n name token =
     (if n = 0 then False
      else
        (let ll = line_len p n;
             skip = line_break_len (take ll p);
             line = drop skip p;
             len = ll - skip;
             found =
               (if length name \<le> len \<and> strncasecmp_eq line name (length name) then
                  (let after = drop (length name) line;
                       vlen = len - length name;
                       b = blank_len (take vlen after)
                   in token_at (drop b after) (vlen - b) token)
                else False)
         in if found then True else ka_header_has_token (drop ll p) (n - ll) name token))"
  by pat_completeness auto

termination
  by (relation "measure (\<lambda>(p, n, name, token). n)") (auto simp: line_len_pos)

declare ka_header_has_token.simps [simp del]

text \<open>\<^verbatim>\<open>while (v + 4 < ve)\<close>: the five letters in either case anywhere in the value.\<close>

fun b2_close_in :: "bytes \<Rightarrow> bool" where
  "b2_close_in [] = False"
| "b2_close_in (c # v) =
     (4 < length (c # v) \<and> (map tolower (take 5 (c # v)) = cs ''close'' \<or> b2_close_in v))"

function b2_has_connection_close :: "bytes \<Rightarrow> nat \<Rightarrow> bool" where
  "b2_has_connection_close p n =
     (if n = 0 then False
      else
        (let ll = (case memchr p LF n of None \<Rightarrow> n | Some i \<Rightarrow> i)
         in if 11 \<le> ll \<and> b2_key_matches p (cs ''connection:'') \<and> b2_close_in (drop 11 (take ll p))
            then True
            else b2_has_connection_close (drop (line_len p n) p) (n - line_len p n)))"
  by pat_completeness auto

termination
  by (relation "measure (\<lambda>(p, n). n)") (auto simp: line_len_pos)

declare b2_has_connection_close.simps [simp del]

subsection \<open>The owner of a request\<close>

definition function_prefix :: bytes where "function_prefix = cs ''/function/''"

definition name_end :: "byte \<Rightarrow> bool" where
  "name_end c = (c = 47 \<or> c = 63 \<or> c = SP)"

definition ka_parse_request_owner :: "bytes \<Rightarrow> nat \<Rightarrow> bytes option" where
  "ka_parse_request_owner buf owner_out_sz =
     (if buf = [] \<or> owner_out_sz = 0 then None
      else
        (let line_end = length (takeWhile (\<lambda>c. c \<noteq> LF) buf)
         in if line_end = 0 then None
            else case memchr buf SP line_end of
                   None \<Rightarrow> None
                 | Some first_space \<Rightarrow>
                     (let path = drop (first_space + 1) buf;
                          path_len = line_end - (first_space + 1)
                      in case memchr path SP path_len of
                           None \<Rightarrow> None
                         | Some req_path_len \<Rightarrow>
                             if req_path_len \<le> length function_prefix
                                \<or> take (length function_prefix) path \<noteq> function_prefix
                             then None
                             else
                               (let name = take (req_path_len - length function_prefix)
                                             (drop (length function_prefix) path);
                                    name = takeWhile (\<lambda>c. \<not> name_end c) name
                                in if name = [] \<or> owner_out_sz < length name + 1 then None
                                   else Some name))))"

definition b2_parse_request_owner :: "bytes \<Rightarrow> nat \<Rightarrow> bytes option" where
  "b2_parse_request_owner buf out_sz =
     (if buf = [] \<or> out_sz = 0 then None
      else
        (let eol = length (takeWhile (\<lambda>c. c \<noteq> LF) buf)
         in case memchr buf SP eol of
              None \<Rightarrow> None
            | Some sp1 \<Rightarrow>
                (let path = drop (sp1 + 1) buf;
                     plen = eol - (sp1 + 1)
                 in case memchr path SP plen of
                      None \<Rightarrow> None
                    | Some rlen \<Rightarrow>
                        if rlen \<le> length function_prefix
                           \<or> take (length function_prefix) path \<noteq> function_prefix
                        then None
                        else
                          (let name = take (rlen - length function_prefix)
                                        (drop (length function_prefix) path);
                               name = takeWhile (\<lambda>c. \<not> name_end c) name
                           in if name = [] \<or> out_sz < length name + 1 then None
                              else Some name))))"


subsection \<open>The contract of a header scanner\<close>

text \<open>
  A line (without its line feed) that is not the header \<open>key\<close>, and the text of a header line with a
  decimal value, as clients print it: any case of the key, blanks, the digits.
\<close>

definition other_line :: "bytes \<Rightarrow> bytes \<Rightarrow> bool" where
  "other_line key l = (LF \<notin> set l \<and> l \<noteq> [] \<and> hd l \<noteq> CR \<and> map tolower (take (length key) l) \<noteq> key)"

definition header_key :: "bytes \<Rightarrow> bool" where
  "header_key key = (key \<noteq> [] \<and> (\<forall>c \<in> set key. 13 < c \<and> tolower c = c))"

definition unlines :: "bytes list \<Rightarrow> bytes" where
  "unlines ls = concat (map (\<lambda>l. l @ [LF]) ls)"

lemma unlines_simps [simp]: "unlines [] = []" "unlines (l # ls) = l @ LF # unlines ls"
  by (simp_all add: unlines_def)

locale header_scan =
  fixes scan :: "bytes \<Rightarrow> nat \<Rightarrow> bytes \<Rightarrow> int"
  assumes scan_end: "scan p 0 key = -1"
    and scan_other: "header_key key \<Longrightarrow> other_line key l \<Longrightarrow> length l < n \<Longrightarrow>
          scan (l @ LF # rest) n key = scan rest (n - Suc (length l)) key"
    and scan_hit: "header_key key \<Longrightarrow> map tolower k = key \<Longrightarrow> int v \<le> LLONG_MAX \<Longrightarrow>
          length k + b + length (dec_digits v) + 2 \<le> n \<Longrightarrow>
          scan (k @ replicate b SP @ dec_digits v @ CR # LF # rest) n key = int v"
begin

lemma scan_others:
  "header_key key \<Longrightarrow> list_all (other_line key) ls \<Longrightarrow> length (unlines ls) \<le> n \<Longrightarrow>
     scan (unlines ls @ rest) n key = scan rest (n - length (unlines ls)) key"
proof (induction ls arbitrary: n)
  case Nil
  then show ?case by simp
next
  case (Cons l ls)
  then have "scan (unlines (l # ls) @ rest) n key = scan (unlines ls @ rest) (n - Suc (length l)) key"
    using scan_other [of key l n "unlines ls @ rest"] by simp
  with Cons show ?case by simp
qed

lemma scan_finds:
  assumes "header_key key" "list_all (other_line key) ls" "map tolower k = key" "int v \<le> LLONG_MAX"
    and "n = length (unlines ls @ k @ replicate b SP @ dec_digits v @ CR # LF # rest)"
  shows "scan (unlines ls @ k @ replicate b SP @ dec_digits v @ CR # LF # rest @ body) n key = int v"
proof -
  have "scan (unlines ls @ (k @ replicate b SP @ dec_digits v @ CR # LF # rest @ body)) n key =
      scan (k @ replicate b SP @ dec_digits v @ CR # LF # rest @ body) (n - length (unlines ls)) key"
    using assms by (intro scan_others) auto
  also have "\<dots> = int v"
    using assms by (intro scan_hit) auto
  finally show ?thesis .
qed

lemma scan_absent:
  assumes "header_key key" "list_all (other_line key) ls"
  shows "scan (unlines ls @ body) (length (unlines ls)) key = -1"
  using scan_others [OF assms, of "length (unlines ls)" body] by (simp add: scan_end)

end

subsection \<open>Both scanners keep it\<close>

lemma memchr_line: "LF \<notin> set l \<Longrightarrow> length l < n \<Longrightarrow> memchr (l @ LF # r) LF n = Some (length l)"
  by (rule memchr_append)

lemma header_key_props:
  assumes "header_key key"
  shows "0 \<notin> set key" "LF \<notin> set key" "CR \<notin> set key" "map tolower key = key"
  using assms by (auto simp: header_key_def map_idI)

lemma lowered_key_no_LF:
  assumes "header_key key" "map tolower k = key"
  shows "LF \<notin> set k" "k \<noteq> []" "hd k \<noteq> CR"
proof -
  have t: "tolower LF = LF" "tolower CR = CR" by (simp_all add: tolower_def)
  show "LF \<notin> set k" using assms t header_key_props(2) by (metis image_eqI list.set_map)
  show "k \<noteq> []" using assms by (auto simp: header_key_def)
  then show "hd k \<noteq> CR" using assms t header_key_props(3) by (metis hd_in_set image_eqI list.set_map)
qed

lemma other_line_prefix:
  assumes "header_key key" "other_line key l" "length key \<le> Suc (length l)"
  shows "map tolower (take (length key) (l @ LF # r)) \<noteq> key"
proof (cases "length key \<le> length l")
  case True
  with assms show ?thesis by (simp add: other_line_def)
next
  case False
  with assms(3) have "length key = Suc (length l)" by simp
  then have "LF \<in> set (map tolower (take (length key) (l @ LF # r)))" by (simp add: tolower_def)
  with header_key_props(2) [OF assms(1)] show ?thesis by metis
qed

lemma strtoll_digits_cr:
  "int v \<le> LLONG_MAX \<Longrightarrow> strtoll (dec_digits v @ CR # r) = (int v, length (dec_digits v), False)"
  by (rule strtoll_dec_digits) (simp_all add: isdigit_def)

lemma blank_len_replicate:
  "blank_len (replicate b SP @ c # r) = b" if "c \<noteq> SP" "c \<noteq> HT" for c r
proof -
  have "takeWhile (\<lambda>c. c = SP \<or> c = HT) (replicate b SP @ c # r) = replicate b SP"
    using that by (intro takeWhile_append_stop) auto
  then show ?thesis by (simp add: blank_len_def)
qed

lemma dec_digits_Cons: "\<exists>c ds. dec_digits v = c # ds \<and> c \<noteq> SP \<and> c \<noteq> HT \<and> isdigit c"
proof -
  obtain c ds where d: "dec_digits v = c # ds" by (cases "dec_digits v") auto
  then have "isdigit c" using dec_digits_isdigit [of c v] by simp
  then have "c \<noteq> SP" "c \<noteq> HT" by (auto simp: isdigit_def word_le_nat_alt)
  with d \<open>isdigit c\<close> show ?thesis by blast
qed

lemma blank_len_value:
  assumes "b + length (dec_digits v) \<le> m"
  shows "blank_len (take m (replicate b SP @ dec_digits v @ r)) = b"
proof -
  obtain c ds where d: "dec_digits v = c # ds" "c \<noteq> SP" "c \<noteq> HT" using dec_digits_Cons by blast
  have "take m (replicate b SP @ dec_digits v @ r) = replicate b SP @ c # take (m - b - 1) (ds @ r)"
    using assms d(1) by (simp add: take_Cons')
  with blank_len_replicate [OF d(2,3)] show ?thesis by simp
qed

lemma line_break_len_0: "l \<noteq> [] \<Longrightarrow> hd l \<noteq> CR \<Longrightarrow> hd l \<noteq> LF \<Longrightarrow> line_break_len (take n (l @ r)) = 0"
  by (cases l; cases n) (simp_all add: line_break_len_def)

lemma digits_no_LF: "LF \<notin> set (dec_digits v)"
  using dec_digits_isdigit [of LF v] by (auto simp: isdigit_def)

lemma header_line_memchr:
  assumes "LF \<notin> set k" "length k + b + length (dec_digits v) + 2 \<le> n"
  shows "memchr (k @ replicate b SP @ dec_digits v @ CR # LF # rest) LF n =
           Some (length k + b + length (dec_digits v) + 1)"
proof -
  have "LF \<notin> set (k @ replicate b SP @ dec_digits v @ [CR])"
    using assms digits_no_LF by simp
  from memchr_line [OF this, of n rest] assms(2) show ?thesis by simp
qed

interpretation ka: header_scan ka_parse_header_int64
proof (unfold_locales, goal_cases)
  case (1 p key)
  then show ?case by (simp add: ka_parse_header_int64.simps)
next
  case (2 key l n rest)
  have m: "memchr (l @ LF # rest) LF n = Some (length l)"
    using 2 by (intro memchr_line) (auto simp: other_line_def)
  have ll: "line_len (l @ LF # rest) n = Suc (length l)" by (simp add: line_len_def m)
  have h: "line_break_len (take (Suc (length l)) (l @ LF # rest)) = 0"
    using 2(2) by (intro line_break_len_0) (auto simp: other_line_def dest: hd_in_set)
  have "ka_line_int64 (l @ LF # rest) (Suc (length l)) key = None"
    using other_line_prefix [OF 2(1,2), of rest] header_key_props [OF 2(1)]
    by (auto simp: ka_line_int64_def strncasecmp_eq_iff)
  then show ?case using 2 by (subst ka_parse_header_int64.simps) (simp add: ll h [simplified])
next
  case (3 key k v b n rest)
  let ?p = "k @ replicate b SP @ dec_digits v @ CR # LF # rest"
  let ?ll = "length k + b + length (dec_digits v) + 2"
  note k = lowered_key_no_LF [OF 3(1,2)]
  have ll: "line_len ?p n = ?ll" using header_line_memchr [OF k(1) 3(4)] by (simp add: line_len_def)
  have h: "line_break_len (take ?ll ?p) = 0"
    using k by (intro line_break_len_0) (auto dest: hd_in_set)
  have len: "length key = length k" using 3(2) by auto
  have c: "strncasecmp_eq ?p key (length key)"
    using 3(2) header_key_props [OF 3(1)] by (subst strncasecmp_eq_iff) (simp_all add: len)
  have sk: "blank_len (take (?ll - length key) (drop (length key) ?p)) = b"
    using blank_len_value [of b v "?ll - length k" "CR # LF # rest"] by (simp add: len)
  have "ka_line_int64 ?p ?ll key = Some (int v)"
    using c sk strtoll_digits_cr [OF 3(3), of "LF # rest"] unfolding ka_line_int64_def
    by (simp add: len)
  then show ?case using 3(4) by (subst ka_parse_header_int64.simps) (simp add: ll h [simplified])
qed

interpretation b2: header_scan b2_parse_header_int64
proof (unfold_locales, goal_cases)
  case (1 p key)
  then show ?case by (simp add: b2_parse_header_int64.simps)
next
  case (2 key l n rest)
  have m: "memchr (l @ LF # rest) LF n = Some (length l)"
    using 2 by (intro memchr_line) (auto simp: other_line_def)
  have "b2_line_int64 (l @ LF # rest) (length l) n key = None"
    using other_line_prefix [OF 2(1,2), of rest] by (auto simp: b2_line_int64_def b2_key_matches_def)
  then show ?case using 2 by (subst b2_parse_header_int64.simps) (simp add: m line_len_def)
next
  case (3 key k v b n rest)
  let ?p = "k @ replicate b SP @ dec_digits v @ CR # LF # rest"
  note m = header_line_memchr [OF lowered_key_no_LF(1) [OF 3(1,2)] 3(4)]
  have len: "length key = length k" using 3(2) by auto
  have sk: "blank_len (take (n - length key) (drop (length key) ?p)) = b"
    using blank_len_value [of b v "n - length k" "CR # LF # rest"] 3(4) by (simp add: len)
  have "b2_line_int64 ?p (length k + b + length (dec_digits v) + 1) n key = Some (int v)"
    using 3(2) sk strtoll_digits_cr [OF 3(3), of "LF # rest"]
    unfolding b2_line_int64_def by (simp add: len b2_key_matches_def)
  then show ?case using 3(4) by (subst b2_parse_header_int64.simps) (simp add: m)
qed


subsection \<open>The contract of a request-line parser\<close>

text \<open>
  A request line up to its second blank: the method \<open>m\<close>, the function's \<open>name\<close>, the rest \<open>t\<close> of the
  path (empty, a subpath or a query).
\<close>

definition owner_line :: "bytes \<Rightarrow> bytes \<Rightarrow> bytes \<Rightarrow> bool" where
  "owner_line m name t =
     (SP \<notin> set m \<and> LF \<notin> set m \<and> name \<noteq> [] \<and> (\<forall>c \<in> set name. \<not> name_end c \<and> c \<noteq> LF)
    \<and> (t = [] \<or> name_end (hd t)) \<and> SP \<notin> set t \<and> LF \<notin> set t)"

definition request_text :: "bytes \<Rightarrow> bytes \<Rightarrow> bytes \<Rightarrow> bytes \<Rightarrow> bytes" where
  "request_text m name t rest = m @ SP # function_prefix @ name @ t @ SP # rest"

locale owner_parser =
  fixes parse :: "bytes \<Rightarrow> nat \<Rightarrow> bytes option"
  assumes complete: "owner_line m name t \<Longrightarrow> length name < sz \<Longrightarrow>
                       parse (request_text m name t rest) sz = Some name"
    and sound: "parse buf sz = Some name \<Longrightarrow> length name < sz
                  \<and> (\<exists>m t rest. buf = request_text m name t rest \<and> owner_line m name t)"
begin

lemma parse_more:
  assumes "parse buf sz = Some name"
  shows "parse (buf @ more) sz = Some name"
proof -
  obtain m t rest where b: "buf = request_text m name t rest" "owner_line m name t"
    using sound [OF assms] by blast
  then have "buf @ more = request_text m name t (rest @ more)" by (simp add: request_text_def)
  with complete [OF b(2), of sz "rest @ more"] sound [OF assms] show ?thesis by simp
qed

lemma parse_prefix:
  assumes "parse (take k buf) sz = Some name" "k \<le> l"
  shows "parse (take l buf) sz = Some name"
proof -
  have "take l buf = take k buf @ take (l - k) (drop k buf)"
    using assms(2) by (metis le_add_diff_inverse take_add)
  then show ?thesis using parse_more [OF assms(1)] by simp
qed

lemma parse_bounded: "parse buf sz = Some name \<Longrightarrow> name \<noteq> [] \<and> length name < sz"
  using sound [of buf sz name] by (auto simp: owner_line_def)

end

subsection \<open>Both parsers keep it\<close>

lemma ka_b2_parse_request_owner: "ka_parse_request_owner buf sz = b2_parse_request_owner buf sz"
  by (simp add: ka_parse_request_owner_def b2_parse_request_owner_def Let_def)

lemma length_function_prefix: "length function_prefix = 10"
  by (simp add: function_prefix_def)

lemma function_prefix_chars: "SP \<notin> set function_prefix" "LF \<notin> set function_prefix"
  by (simp_all add: function_prefix_def cs_def)

lemma owner_line_path:
  assumes "owner_line m name t"
  shows "SP \<notin> set (function_prefix @ name @ t)" "LF \<notin> set (function_prefix @ name @ t)"
    "takeWhile (\<lambda>c. \<not> name_end c) (name @ t) = name"
proof -
  have n: "c \<noteq> SP" if "c \<in> set name" for c using assms that by (auto simp: owner_line_def name_end_def)
  then show "SP \<notin> set (function_prefix @ name @ t)"
    using assms function_prefix_chars by (auto simp: owner_line_def)
  show "LF \<notin> set (function_prefix @ name @ t)"
    using assms function_prefix_chars by (auto simp: owner_line_def)
  show "takeWhile (\<lambda>c. \<not> name_end c) (name @ t) = name"
    using assms by (cases t) (auto simp: owner_line_def takeWhile_all takeWhile_append_stop)
qed

lemma takeWhile_line_length:
  assumes "LF \<notin> set p"
  shows "length p \<le> length (takeWhile (\<lambda>c. c \<noteq> LF) (p @ r))"
proof -
  have "takeWhile (\<lambda>c. c \<noteq> LF) (p @ r) = p @ takeWhile (\<lambda>c. c \<noteq> LF) r"
    using assms by (auto intro!: takeWhile_append2)
  then show ?thesis by simp
qed

lemma b2_owner_complete:
  assumes o: "owner_line m name t" and sz: "length name < sz"
  shows "b2_parse_request_owner (request_text m name t rest) sz = Some name"
proof -
  let ?b = "request_text m name t rest"
  let ?path = "function_prefix @ name @ t"
  let ?eol = "length (takeWhile (\<lambda>c. c \<noteq> LF) ?b)"
  note p = owner_line_path [OF o]
  have b: "?b = m @ SP # ?path @ SP # rest" by (simp add: request_text_def)
  have m: "SP \<notin> set m" "LF \<notin> set m" using o by (auto simp: owner_line_def)
  have "LF \<notin> set (m @ SP # ?path @ [SP])" using m p by simp
  from takeWhile_line_length [OF this, of rest] have eol: "length m + length ?path + 2 \<le> ?eol"
    by (simp add: b)
  have s1: "memchr ?b SP ?eol = Some (length m)"
    unfolding b by (rule memchr_append) (use m eol in \<open>simp_all add: b\<close>)
  have s2: "memchr (drop (length m + 1) ?b) SP (?eol - (length m + 1)) = Some (length ?path)"
  proof -
    have d: "drop (length m + 1) ?b = ?path @ SP # rest" by (simp add: b)
    show ?thesis unfolding d by (rule memchr_append) (use p eol in auto)
  qed
  have ne: "?b \<noteq> []" "sz \<noteq> 0" "name \<noteq> []" using sz o by (auto simp: b owner_line_def)
  have d: "drop (length m + 1) ?b = function_prefix @ name @ t @ SP # rest" by (simp add: b)
  have nm: "takeWhile (\<lambda>c. \<not> name_end c)
      (take (length ?path - length function_prefix) (drop (length function_prefix) (drop (length m + 1) ?b))) = name"
    unfolding d using p(3) by simp
  show ?thesis
    unfolding b2_parse_request_owner_def Let_def s1 option.case s2
    using ne sz nm by (simp add: d [simplified])
qed

lemma b2_owner_sound:
  assumes "b2_parse_request_owner buf sz = Some name"
  shows "length name < sz \<and> (\<exists>m t rest. buf = request_text m name t rest \<and> owner_line m name t)"
proof -
  define eol where "eol = length (takeWhile (\<lambda>c. c \<noteq> LF) buf)"
  obtain sp1 where s1: "memchr buf SP eol = Some sp1"
    using assms by (auto simp: b2_parse_request_owner_def eol_def [symmetric] Let_def split: if_splits option.splits)
  define path where "path = drop (Suc sp1) buf"
  obtain rlen where s2: "memchr path SP (eol - (Suc sp1)) = Some rlen"
    using assms s1 by (auto simp: b2_parse_request_owner_def eol_def [symmetric] path_def [symmetric] Let_def
        split: if_splits option.splits simp del: drop_drop)
  define full where "full = take (rlen - length function_prefix) (drop (length function_prefix) path)"
  have r: "length function_prefix < rlen" "take (length function_prefix) path = function_prefix"
    "name = takeWhile (\<lambda>c. \<not> name_end c) full" "name \<noteq> []" "length name < sz"
    using assms s1 s2 by (auto simp: b2_parse_request_owner_def eol_def [symmetric] path_def [symmetric]
        full_def [symmetric] Let_def split: if_splits option.splits simp del: drop_drop)
  note m1 = memchr_Some [OF s1] and m2 = memchr_Some [OF s2]
  define t where "t = dropWhile (\<lambda>c. \<not> name_end c) full"
  have full: "full = name @ t" by (simp add: r(3) t_def)
  have tk: "take rlen path = function_prefix @ full"
    using take_add [of "length function_prefix" "rlen - length function_prefix" path] r(1,2)
    by (simp add: full_def)
  have "path = take rlen path @ SP # drop (rlen + 1) path"
    using m2 id_take_nth_drop [of rlen path] by simp
  then have path: "path = function_prefix @ full @ SP # drop (rlen + 1) path"
    unfolding tk by simp
  have buf: "buf = take sp1 buf @ SP # path"
    using m1 id_take_nth_drop [of sp1 buf] unfolding path_def by simp
  have line: "x < eol \<Longrightarrow> buf ! x \<noteq> LF" for x
    unfolding eol_def by (metis (mono_tags, lifting) nth_mem set_takeWhileD takeWhile_nth)
  have le: "eol \<le> length buf" unfolding eol_def by (simp add: length_takeWhile_le)
  have m: "SP \<notin> set (take sp1 buf)" "LF \<notin> set (take sp1 buf)"
    using m1 line by (auto simp: in_set_conv_nth)
  have pth: "path ! x = buf ! (Suc sp1 + x)" if "x < rlen" for x
    using that m1 m2 le by (simp add: path_def)
  have pl: "rlen < length path" using m2 by simp
  have f: "SP \<notin> set (take rlen path)" "LF \<notin> set (take rlen path)"
    using m2 line pth pl by (auto simp: in_set_conv_nth)
  have nn: "\<not> name_end c" if "c \<in> set name" for c
    using set_takeWhileD [of c "\<lambda>c. \<not> name_end c" full] that unfolding r(3) by blast
  have ht: "t = [] \<or> name_end (hd t)" unfolding t_def using hd_dropWhile by blast
  have nt: "SP \<notin> set t" "LF \<notin> set t" "LF \<notin> set name" using f unfolding tk full by auto
  have "owner_line (take sp1 buf) name t"
    unfolding owner_line_def using m nn ht nt r(4) by blast
  moreover have "buf = request_text (take sp1 buf) name t (drop (rlen + 1) path)"
    using buf path unfolding full request_text_def by simp
  ultimately show ?thesis using r(5) by blast
qed

interpretation b2_owner: owner_parser b2_parse_request_owner
  by unfold_locales (rule b2_owner_complete, assumption+, rule b2_owner_sound)

interpretation ka_owner: owner_parser ka_parse_request_owner
  unfolding owner_parser_def ka_b2_parse_request_owner
  using b2_owner_complete b2_owner_sound by blast


subsection \<open>Properties\<close>

lemma content_length_key: "header_key (cs ''content-length:'')"
  by (simp add: header_key_def cs_def tolower_def)

subsection \<open>Framing of the answers\<close>

text \<open>The shape both function workers give their answers.\<close>

lemma answer_framed:
  fixes conn json :: bytes
  assumes c: "CR \<notin> set conn" and j: "int (length json) \<le> LLONG_MAX"
    and R: "R = cs ''HTTP/1.1 200 OK'' @ crlf @ cs ''Content-Type: application/json'' @ crlf
              @ cs ''Content-Length: '' @ dec_digits (length json) @ crlf
              @ cs ''Connection: '' @ conn @ crlf @ crlf @ json"
  shows "\<exists>h. find_subseq R (crlf @ crlf) + 4 = int h \<and> drop h R = json
           \<and> ka_parse_content_length R h = int (length json)"
proof -
  define l1 where "l1 = cs ''HTTP/1.1 200 OK''"
  define l2 where "l2 = cs ''Content-Type: application/json''"
  define key where "key = cs ''Content-Length:''"
  define ds where "ds = dec_digits (length json)"
  define l4 where "l4 = cs ''Connection: '' @ conn"
  let ?ls = "[l1, l2, key @ SP # ds, l4]"
  let ?H = "concat (map (\<lambda>l. l @ crlf) ?ls)"
  define header where "header = ?H @ crlf"
  have ds: "CR \<notin> set ds" using dec_digits_isdigit [of CR "length json"] by (auto simp: ds_def isdigit_def)
  have ok: "list_all (\<lambda>l. l \<noteq> [] \<and> CR \<notin> set l) ?ls"
    using c ds by (simp add: l1_def l2_def key_def l4_def cs_def)
  have keysp: "cs ''Content-Length: '' = key @ [SP]" by (simp add: key_def cs_def)
  have R1: "R = ?H @ crlf @ json" unfolding R keysp by (simp add: l1_def l2_def ds_def l4_def)
  have "2 \<le> length ?H" by simp
  moreover have "find_at (crlf @ crlf) R = Some (length ?H - 2)"
    unfolding R1 by (rule find_blank_line [OF ok]) simp
  moreover have "length (crlf @ crlf) \<le> length R" unfolding R1 by simp
  ultimately have f: "find_subseq R (crlf @ crlf) + 4 = int (length header)"
    unfolding find_subseq_def by (simp add: header_def)
  have "header = unlines [l1 @ [CR], l2 @ [CR]] @ key @ replicate 1 SP @ dec_digits (length json) @ CR # LF # (l4 @ crlf @ crlf)"
    by (simp add: header_def ds_def)
  moreover have "list_all (other_line (cs ''content-length:'')) [l1 @ [CR], l2 @ [CR]]"
    by (simp add: l1_def l2_def other_line_def cs_def tolower_def)
  moreover have "map tolower key = cs ''content-length:''" by (simp add: key_def cs_def tolower_def)
  ultimately have "ka_parse_content_length (header @ json) (length header) = int (length json)"
    using ka.scan_finds [OF content_length_key _ _ j refl, of "[l1 @ [CR], l2 @ [CR]]" key 1 "l4 @ crlf @ crlf" json]
    by (simp add: ka_parse_content_length_def)
  moreover have "R = header @ json" by (simp add: R1 header_def)
  ultimately show ?thesis using f by (intro exI [of _ "length header"]) simp
qed

text \<open>
  C22. Content-Length survives the trip: a request whose header contains the field, in any case of its
  letters and with any number of blanks, after any other header lines, is read back with the number the
  client printed, by the keep-alive worker and by the benchmark worker alike; without the field both
  return -1.
\<close>

theorem content_length_roundtrip:
  assumes "list_all (other_line (cs ''content-length:'')) ls"
    and "map tolower k = cs ''content-length:''" and "int v \<le> LLONG_MAX"
    and "header = unlines ls @ k @ replicate b SP @ dec_digits v @ CR # LF # rest"
  shows "ka_parse_content_length (header @ body) (length header) = int v
       \<and> b2_parse_content_length (header @ body) (length header) = int v
       \<and> ka_parse_content_length (unlines ls @ body) (length (unlines ls)) = -1
       \<and> b2_parse_content_length (unlines ls @ body) (length (unlines ls)) = -1"
  using ka.scan_finds [OF content_length_key assms(1-3) refl, of b rest body]
    b2.scan_finds [OF content_length_key assms(1-3) refl, of b rest body]
    ka.scan_absent [OF content_length_key assms(1), of body]
    b2.scan_absent [OF content_length_key assms(1), of body] assms(4)
  by (simp add: ka_parse_content_length_def b2_parse_content_length_def)

theorem content_length_roundtrip_witness:
  "ka_parse_content_length
     ((cs ''POST / HTTP/1.1'' @ CR # LF # cs ''Content-LENGTH:'' @ replicate 2 SP @ dec_digits 4096
        @ CR # LF # crlf) @ [1, 2]) (length (cs ''POST / HTTP/1.1'' @ CR # LF # cs ''Content-LENGTH:''
        @ replicate 2 SP @ dec_digits 4096 @ CR # LF # crlf)) = 4096"
  using content_length_roundtrip
          [of "[cs ''POST / HTTP/1.1'' @ [CR]]" "cs ''Content-LENGTH:''" 4096
              "cs ''POST / HTTP/1.1'' @ CR # LF # cs ''Content-LENGTH:'' @ replicate 2 SP @ dec_digits 4096
                 @ CR # LF # crlf" 2 crlf "[1, 2]"]
  by (simp add: other_line_def cs_def tolower_def LLONG_MAX_def)

lemma strtoll_skip_space:
  assumes "\<forall>c \<in> set ws. isspace c" "v \<noteq> []" "\<not> isspace (hd v)"
  shows "strtoll (ws @ v) =
     (fst (strtoll v), (if fst (snd (strtoll v)) = 0 then 0 else length ws + fst (snd (strtoll v))),
      snd (snd (strtoll v)))"
proof -
  have a: "takeWhile isspace (ws @ v) = ws" "dropWhile isspace (ws @ v) = v"
    using assms by (cases v; simp add: takeWhile_append dropWhile_append takeWhile_all)+
  have b: "takeWhile isspace v = []" "dropWhile isspace v = v"
    using assms by (cases v; simp)+
  show ?thesis unfolding strtoll_def a b by (simp add: Let_def)
qed

text \<open>
  A Content-Length field without a value is not rejected: the conversion skips the line breaks after
  it, so the number is taken from the body, outside the header the function was given.
\<close>

theorem empty_content_length_reads_body:
  assumes "int v \<le> LLONG_MAX"
  shows "ka_parse_content_length (cs ''Content-Length:'' @ crlf @ crlf @ dec_digits v @ crlf) 19 = int v
       \<and> b2_parse_content_length (cs ''Content-Length:'' @ crlf @ crlf @ dec_digits v @ crlf) 19 = int v"
proof -
  let ?d = "crlf @ crlf @ dec_digits v @ crlf"
  let ?p = "cs ''Content-Length:'' @ ?d"
  obtain c ds where d: "dec_digits v = c # ds" "isdigit c" using dec_digits_Cons by blast
  have ns: "\<not> isspace c" using d(2) isdigit_not_isspace by blast
  have "strtoll (dec_digits v @ crlf) = (int v, length (dec_digits v), False)"
    by (rule strtoll_digits_cr) (rule assms)
  then have val: "strtoll ?d = (int v, 4 + length (dec_digits v), False)"
    using strtoll_skip_space [of "crlf @ crlf" "dec_digits v @ crlf"] d(1) ns by (simp add: isspace_def)
  have "LF \<notin> set (cs ''Content-Length:'' @ [CR])" by (simp add: cs_def)
  from memchr_line [OF this, of 19 "crlf @ dec_digits v @ crlf"]
  have m1: "memchr ?p LF 19 = Some 16" by simp
  have m2: "line_break_len (take 17 ?p) = 0"
    by (intro line_break_len_0) (simp_all add: cs_def)
  have low: "map tolower (cs ''Content-Length:'') = cs ''content-length:''"
    "map tolower (cs ''content-length:'') = cs ''content-length:''"
    by (simp_all add: cs_def tolower_def)
  have k1: "strncasecmp_eq ?p (cs ''content-length:'') (length (cs ''content-length:''))"
    using header_key_props(1) [OF content_length_key] by (subst strncasecmp_eq_iff) (simp_all add: low)
  have k2: "b2_key_matches ?p (cs ''content-length:'')" by (simp add: b2_key_matches_def low)
  define d' where "d' = ?d"
  have bl: "blank_len (take j d') = 0" for j by (cases j) (simp_all add: blank_len_def d'_def)
  have a: "drop (length (cs ''content-length:'')) (cs ''Content-Length:'' @ d') = d'" by simp
  have l: "length (cs ''content-length:'') = 15" by simp
  note facts = k1 k2 m1 m2 val
  have "ka_line_int64 (cs ''Content-Length:'' @ d') 17 (cs ''content-length:'') = Some (int v)"
    "b2_line_int64 (cs ''Content-Length:'' @ d') 16 19 (cs ''content-length:'') = Some (int v)"
    using facts unfolding ka_line_int64_def b2_line_int64_def d'_def [symmetric] Let_def a bl
    by (simp_all add: l del: length_cs)
  then show ?thesis
    unfolding ka_parse_content_length_def b2_parse_content_length_def
    using facts unfolding d'_def [symmetric]
    by (subst ka_parse_header_int64.simps, subst b2_parse_header_int64.simps)
       (simp add: line_len_def Let_def)
qed

theorem empty_content_length_reads_body_witness:
  "ka_parse_content_length (cs ''Content-Length:'' @ crlf @ crlf @ dec_digits 77 @ crlf) 19 = 77"
  using empty_content_length_reads_body [of 77] by (simp add: LLONG_MAX_def)

text \<open>
  C31. The request-line parser of the keep-alive worker and that of the benchmark worker and gateway
  are the same function, and it accepts a buffer exactly when it starts with a method, a blank and a
  path below \<^verbatim>\<open>/function/\<close> followed by a blank on the same line, returning the path's first segment
  provided that it fits the caller's array with its terminator.
\<close>

theorem parse_request_owner_spec:
  "ka_parse_request_owner buf sz = b2_parse_request_owner buf sz
 \<and> (b2_parse_request_owner buf sz = Some name \<longleftrightarrow>
      length name < sz \<and> (\<exists>m t rest. buf = request_text m name t rest \<and> owner_line m name t))"
  using b2_owner.sound [of buf sz name] b2_owner.complete ka_b2_parse_request_owner by blast

end
