(* ===== verification/FnIo.thy ===== *)
theory FnIo
  imports SendFd HttpScan
begin

text \<open>
  What the two function workers have in common, word for word: the loop that writes a buffer to a session,
  the loop that drains a body, and the stateless look at the owner of the next request
  (\<^verbatim>\<open>timing_fn_keepalive_worker.c\<close> and \<^verbatim>\<open>timing_fn_worker.c\<close>).  Every loop that waits for the connection
  consumes an answer of the environment per round; the termination proofs use the number of answers left.
\<close>

subsection \<open>Writing a buffer, draining a body\<close>

definition want_again :: "err \<Rightarrow> bool" where
  "want_again e = (e = WANT_READ \<or> e = WANT_WRITE)"

lemma read_consumes:
  "((r, bs, e), w') = wolfSSL_read L p n w \<Longrightarrow> 0 < r \<or> want_again e \<Longrightarrow> slen w' < slen w"
  using wolfSSL_read_progress [of L p n w r bs e w'] by (auto simp: want_again_def)

lemma write_consumes:
  "((r, e), w') = wolfSSL_write L p b w \<Longrightarrow> 0 < r \<or> want_again e \<Longrightarrow> slen w' < slen w"
  using wolfSSL_write_progress [of L p b w r e w'] by (auto simp: want_again_def)

function write_all_tls :: "'s wolfssl \<Rightarrow> nat \<Rightarrow> bytes \<Rightarrow> 's world \<Rightarrow> int \<times> 's world" where
  "write_all_tls L p rest w =
     (if rest = [] then (0, w)
      else
        (case wolfSSL_write L p rest w of
           ((rc, e), w1) \<Rightarrow>
             if 0 < rc then write_all_tls L p (drop (nat rc) rest) w1
             else if want_again e then write_all_tls L p rest w1
             else (-1, w1)))"
  by pat_completeness auto

termination
  by (relation "measure (\<lambda>(L, p, rest, w). slen w)")
     (auto dest: write_consumes)

declare write_all_tls.simps [simp del]

text \<open>The loop that drains the body into a scratch array: the bytes read in all, or -1.\<close>

function read_body :: "'s wolfssl \<Rightarrow> nat \<Rightarrow> nat \<Rightarrow> nat \<Rightarrow> 's world \<Rightarrow> (int \<times> nat) \<times> 's world" where
  "read_body L p cl got w =
     (if cl \<le> got then ((0, got), w)
      else
        (case wolfSSL_read L p (min (cl - got) 16384) w of
           ((n, bs, e), w1) \<Rightarrow>
             if n \<le> 0 then (if want_again e then read_body L p cl got w1 else ((-1, got), w1))
             else read_body L p cl (got + nat n) w1))"
  by pat_completeness auto

termination
  by (relation "measure (\<lambda>(L, p, cl, got, w). slen w)") (auto dest: read_consumes)

declare read_body.simps [simp del]

subsection \<open>The owner of the next request\<close>

text \<open>
  Return code and owner.  The buffer has 8193 bytes; \<^verbatim>\<open>tlspeek_free\<close> only clears the local context.
\<close>

definition peek_owner_from_kernel ::
  "crypto \<Rightarrow> int \<Rightarrow> tlspeek_serial \<Rightarrow> nat \<Rightarrow> 's world \<Rightarrow> (int \<times> bytes) \<times> 's world" where
  "peek_owner_from_kernel C client_fd serial owner_out_sz w =
     (case tlspeek_restore_peek_ctx client_fd (Some serial) of
        (r, None) \<Rightarrow> ((-1, []), w)
      | (r, Some peek_ctx) \<Rightarrow>
          if r \<noteq> 0 then ((-1, []), w)
          else
            (let ((peeked, peek_buf), w) = tls_read_peek C peek_ctx 8192 w
             in if peeked \<le> 0 then ((-1, []), w)
                else
                  (let w = flag_ub (8193 \<le> peeked) w
                   in case ka_parse_request_owner peek_buf owner_out_sz of
                        None \<Rightarrow> ((-1, []), w)
                      | Some owner \<Rightarrow> ((0, owner), w))))"

subsection \<open>How many answers they consume\<close>

lemma slen_tls_read_peek: "slen (snd (tls_read_peek C ctx sz w)) \<le> slen w"
  using slen_sys_status [of w] by (auto simp: tls_read_peek_unfold Let_def split: option.split)

lemma slen_peek_owner: "slen (snd (peek_owner_from_kernel C fd s n w)) \<le> slen w"
  using slen_tls_read_peek [of C _ 8192 w]
  by (auto simp: peek_owner_from_kernel_def Let_def split_beta split: option.split prod.split)

lemma slen_write_all_tls: "slen (snd (write_all_tls L p rest w)) \<le> slen w"
proof (induction L p rest w rule: write_all_tls.induct)
  case (1 L p rest w)
  obtain r e w1 where wr: "wolfSSL_write L p rest w = ((r, e), w1)" by (metis prod.exhaust)
  have le: "slen w1 \<le> slen w" using slen_wolfSSL_write [of L p rest w] by (simp add: wr)
  show ?case
    using le "1.IH" [OF _ wr [symmetric] refl]
    by (subst write_all_tls.simps) (auto simp: wr)
qed

lemma slen_read_body: "slen (snd (read_body L p cl got w)) \<le> slen w"
proof (induction L p cl got w rule: read_body.induct)
  case (1 L p cl got w)
  obtain n bs e w1 where rd: "wolfSSL_read L p (min (cl - got) 16384) w = ((n, bs, e), w1)"
    by (metis prod.exhaust)
  have le: "slen w1 \<le> slen w" using slen_wolfSSL_read [of L p "min (cl - got) 16384" w] by (simp add: rd)
  show ?case
    using le "1.IH" [OF _ rd [symmetric] refl refl]
    by (subst read_body.simps) (auto simp: rd)
qed

subsection \<open>What input and output on a session keep\<close>

definition session_io :: "nat \<Rightarrow> 's world \<Rightarrow> 's world \<Rightarrow> bool" where
  "session_io p w w' =
     (fds w' = fds w \<and> rxq w' = rxq w \<and> live w' = live w \<and> next_ssl w' = next_ssl w
    \<and> (p \<in> live w \<longrightarrow> ub w' = ub w) \<and> bad_closes (log w') = bad_closes (log w))"

lemma session_io_refl [simp]: "session_io p w w"
  by (simp add: session_io_def)

lemma session_io_trans: "session_io p w w1 \<Longrightarrow> session_io p w1 w2 \<Longrightarrow> session_io p w w2"
  by (simp add: session_io_def)

lemma session_io_prims:
  "session_io p w (snd (wolfSSL_read L p n w))" "session_io p w (snd (clock_ns w))"
  "session_io p w (snd (sys_alloc w))" "session_io p w (snd (sys_status w))"
  "session_io p w (snd (ssl_query g d p w))" "session_io p w (snd (wolfSSL_tls_export L p w))"
  "session_io p w (wolfSSL_set_fd L p fd w)" "session_io p w (snd (tls_read_peek C ctx k w))"
  by (simp_all add: session_io_def)

lemma session_io_write: "session_io p w (snd (wolfSSL_write L p b w))"
  by (simp add: session_io_def wolfSSL_write_def Let_def split_beta)

lemma write_all_tls_io: "session_io p w (snd (write_all_tls L p rest w))"
proof (induction L p rest w rule: write_all_tls.induct)
  case (1 L p rest w)
  obtain r e w1 where wr: "wolfSSL_write L p rest w = ((r, e), w1)" by (metis prod.exhaust)
  have io: "session_io p w w1" using session_io_write [of p w L rest] by (simp add: wr)
  show ?case
    using io "1.IH" [OF _ wr [symmetric] refl]
    by (subst write_all_tls.simps) (auto simp: wr intro: session_io_trans)
qed

lemma read_body_io: "session_io p w (snd (read_body L p cl got w))"
proof (induction L p cl got w rule: read_body.induct)
  case (1 L p cl got w)
  obtain n bs e w1 where rd: "wolfSSL_read L p (min (cl - got) 16384) w = ((n, bs, e), w1)"
    by (metis prod.exhaust)
  have io: "session_io p w w1" using session_io_prims(1) [of p w L "min (cl - got) 16384"] by (simp add: rd)
  show ?case
    using io "1.IH" [OF _ rd [symmetric] refl refl]
    by (subst read_body.simps) (auto simp: rd intro: session_io_trans)
qed

text \<open>The peek itself changes nothing but the answers left.\<close>

lemma peek_owner_same:
  "fds (snd (peek_owner_from_kernel C fd s n w)) = fds w" "rxq (snd (peek_owner_from_kernel C fd s n w)) = rxq w"
  "live (snd (peek_owner_from_kernel C fd s n w)) = live w"
  "next_ssl (snd (peek_owner_from_kernel C fd s n w)) = next_ssl w"
  "log (snd (peek_owner_from_kernel C fd s n w)) = log w" "ub (snd (peek_owner_from_kernel C fd s n w)) = ub w"
proof -
  have "\<not> 8193 \<le> fst (fst (tls_read_peek C ctx 8192 w))" for ctx
    using peek_len_bound [of C ctx 8192 w] by simp
  then show "fds (snd (peek_owner_from_kernel C fd s n w)) = fds w" "rxq (snd (peek_owner_from_kernel C fd s n w)) = rxq w"
    "live (snd (peek_owner_from_kernel C fd s n w)) = live w"
    "next_ssl (snd (peek_owner_from_kernel C fd s n w)) = next_ssl w"
    "log (snd (peek_owner_from_kernel C fd s n w)) = log w" "ub (snd (peek_owner_from_kernel C fd s n w)) = ub w"
    by (simp_all add: peek_owner_from_kernel_def Let_def split_beta split: option.split)
qed

lemma peek_owner_io: "session_io p w (snd (peek_owner_from_kernel C fd s n w))"
  by (simp add: session_io_def peek_owner_same)

text \<open>A match lies within the buffer.\<close>

lemma find_subseq_bound: "0 \<le> find_subseq b m \<Longrightarrow> nat (find_subseq b m + int (length m)) \<le> length b"
  using find_at_Some [of m b] by (fastforce simp: find_subseq_def split: if_splits option.splits)

subsection \<open>What goes out on a session\<close>

text \<open>The bytes written on session \<open>p\<close>, in order.\<close>

fun tls_output :: "nat \<Rightarrow> event list \<Rightarrow> bytes" where
  "tls_output p [] = []"
| "tls_output p (e # l) =
     tls_output p l @ (case e of EvSslWrite q b \<Rightarrow> if q = p then b else [] | _ \<Rightarrow> [])"

lemma write_output:
  assumes "wolfSSL_write L p b w = ((r, e), w')"
  shows "tls_output p (log w') = tls_output p (log w) @ take (nat r) b \<and> (r \<le> 0 \<or> nat r \<le> length b)"
  using assms
  by (auto simp: wolfSSL_write_def Let_def split_beta write_count_def split: if_splits answer.splits)

lemma write_all_tls_output:
  "write_all_tls L p buf w = (r, w') \<Longrightarrow>
     \<exists>k. tls_output p (log w') = tls_output p (log w) @ take k buf \<and> (r = 0 \<longrightarrow> length buf \<le> k) \<and> (r = 0 \<or> r = -1)"
proof (induction L p buf w rule: write_all_tls.induct)
  case (1 L p rest w)
  obtain n e w1 where wr: "wolfSSL_write L p rest w = ((n, e), w1)" by (metis prod.exhaust)
  note o = write_output [OF wr]
  show ?case
  proof (cases "rest = []")
    case True
    with "1.prems" show ?thesis by (simp add: write_all_tls.simps [of L p "[]" w])
  next
    case ne: False
    show ?thesis
    proof (cases "0 < n")
      case True
      have "write_all_tls L p (drop (nat n) rest) w1 = (r, w')"
        using "1.prems" ne wr True by (simp add: write_all_tls.simps [of L p rest w])
      from "1.IH"(1) [OF ne wr [symmetric] refl True this] obtain k where
        k: "tls_output p (log w') = tls_output p (log w1) @ take k (drop (nat n) rest)"
        "r = 0 \<longrightarrow> length (drop (nat n) rest) \<le> k" "r = 0 \<or> r = -1" by blast
      then have "tls_output p (log w') = tls_output p (log w) @ take (nat n + k) rest"
        using o by (simp add: take_add)
      with k o True show ?thesis by (intro exI [of _ "nat n + k"]) auto
    next
      case np: False
      show ?thesis
      proof (cases "want_again e")
        case True
        have "write_all_tls L p rest w1 = (r, w')"
          using "1.prems" ne wr np True by (simp add: write_all_tls.simps [of L p rest w])
        from "1.IH"(2) [OF ne wr [symmetric] refl np True this] o np show ?thesis by simp
      next
        case False
        with "1.prems" ne wr np have "r = -1" "w' = w1" by (simp_all add: write_all_tls.simps [of L p rest w])
        with o np show ?thesis by (intro exI [of _ 0]) simp
      qed
    qed
  qed
qed

lemma read_body_done:
  "read_body L p cl got w = ((0, n), w') \<Longrightarrow> got \<le> cl \<Longrightarrow> n = cl"
proof (induction L p cl got w rule: read_body.induct)
  case (1 L p cl got w)
  obtain r bs e w1 where rd: "wolfSSL_read L p (min (cl - got) 16384) w = ((r, bs, e), w1)"
    by (metis prod.exhaust)
  have le: "0 < r \<Longrightarrow> got + nat r \<le> cl"
    using wolfSSL_read_result [of L p "min (cl - got) 16384" w r bs e] rd "1.prems"(2) by auto
  show ?case
  proof (cases "cl \<le> got")
    case True
    with "1.prems" show ?thesis by (simp add: read_body.simps [of L p cl got w])
  next
    case False
    show ?thesis
    proof (cases "r \<le> 0")
      case True
      with "1.prems"(1) False rd have "want_again e" "read_body L p cl got w1 = ((0, n), w')"
        by (auto simp: read_body.simps [of L p cl got w] split: if_splits)
      with "1.IH"(1) [OF False rd [symmetric] refl refl True] "1.prems"(2) show ?thesis by blast
    next
      case pos: False
      with "1.prems"(1) False rd have "read_body L p cl (got + nat r) w1 = ((0, n), w')"
        by (simp add: read_body.simps [of L p cl got w])
      with "1.IH"(2) [OF False rd [symmetric] refl refl pos] le pos show ?thesis by simp
    qed
  qed
qed

lemma peek_owner_view:
  assumes "aead_lengths C" "0 \<le> fd" "ser_magic s = TLSPEEK_MAGIC" "fst (sys_status w) = 0"
    and "serial_view C s (rxq w fd) = Some content"
    and "ka_parse_request_owner (take 8192 content) n = Some owner"
  shows "fst (peek_owner_from_kernel C fd s n w) = (0, owner)"
proof -
  have "take 8192 content \<noteq> []" using assms(6) by (auto simp: ka_parse_request_owner_def)
  then have "0 < length (take 8192 content)" by blast
  moreover have "fst (tls_read_peek C (serial_ctx fd s) 8192 w) =
      (int (length (take 8192 content)), take 8192 content)"
    using serial_peek [OF assms(1) _ assms(4), of 8192 fd s] assms(5) by simp
  ultimately show ?thesis
    using assms(2,3,6)
    by (simp add: peek_owner_from_kernel_def restore_peek_ctx_eq split_beta Let_def)
qed

lemma peek_owner_world:
  assumes "peek_owner_from_kernel C fd s n w = ((0, ow), w')"
  shows "w' = snd (sys_status w)"
proof -
  have p: "snd (tls_read_peek C (serial_ctx fd s) 8192 w) = snd (sys_status w)"
    by (simp add: tls_read_peek_unfold serial_ctx_def Let_def split: option.split)
  have b: "\<not> 8193 \<le> fst (fst (tls_read_peek C (serial_ctx fd s) 8192 w))"
    using peek_len_bound [of C "serial_ctx fd s" 8192 w] by simp
  show ?thesis
    using assms b by (auto simp: peek_owner_from_kernel_def restore_peek_ctx_eq split_beta Let_def p
        flag_ub_def split: if_splits option.splits)
qed

lemma ka_owner_text:
  assumes "owner_line m name t" "length name < n" "length (request_text m name t []) \<le> 8192"
  shows "ka_parse_request_owner (take 8192 (request_text m name t rest)) n = Some name"
proof -
  define q where "q = request_text m name t []"
  have "request_text m name t rest = q @ rest" for rest by (simp add: request_text_def q_def)
  moreover have "take 8192 (q @ rest) = q @ take (8192 - length q) rest" using assms(3) by (simp add: q_def)
  ultimately have "take 8192 (request_text m name t rest) =
      request_text m name t (take (8192 - length q) rest)" by simp
  with ka_owner.complete [OF assms(1,2)] show ?thesis by simp
qed

subsection \<open>Progress\<close>

text \<open>
  An environment that cooperates: a write is accepted in part or has to be repeated, a read delivers
  something or has to be repeated.
\<close>

definition accepts :: "answer \<Rightarrow> bool" where
  "accepts a = (case a of Err e \<Rightarrow> False | Ok v \<Rightarrow> 0 < v | _ \<Rightarrow> True)"

definition delivers :: "answer \<Rightarrow> bool" where
  "delivers a = (case a of Data d \<Rightarrow> d \<noteq> [] | _ \<Rightarrow> False)"

definition retries :: "answer \<Rightarrow> bool" where
  "retries a = (case a of Err e \<Rightarrow> want_again e | _ \<Rightarrow> False)"

lemma script_ssl_modify [simp]: "script (ssl_modify f p w) = script w"
  by (simp add: ssl_modify_def flag_ub_def split: option.split)

lemma write_step:
  assumes "script w = a # as" "b \<noteq> []" "accepts a \<or> retries a"
  shows "\<exists>n e w1. wolfSSL_write L p b w = ((n, e), w1) \<and> script w1 = as
           \<and> (if accepts a then 0 < n else n \<le> 0 \<and> want_again e)"
  using assms
  by (auto simp: wolfSSL_write_def next_answer_def write_count_def accepts_def retries_def io_error_def
      emit_def Let_def split: answer.splits)

lemma read_step:
  assumes "script w = a # as" "0 < k" "delivers a \<or> retries a"
  shows "\<exists>n bs e w1. wolfSSL_read L p k w = ((n, bs, e), w1) \<and> script w1 = as
           \<and> (if delivers a then 0 < n else n \<le> 0 \<and> want_again e)"
  using assms
  by (auto simp: wolfSSL_read_def next_answer_def read_bytes_def delivers_def retries_def io_error_def
      Let_def split: answer.splits)

lemma write_all_tls_progress:
  "\<forall>a \<in> set (script w). accepts a \<or> retries a \<Longrightarrow> length rest \<le> length (filter accepts (script w)) \<Longrightarrow>
     fst (write_all_tls L p rest w) = 0"
proof (induction L p rest w rule: write_all_tls.induct)
  case (1 L p rest w)
  show ?case
  proof (cases "rest = []")
    case True
    then show ?thesis by (simp add: write_all_tls.simps [of L p "[]" w])
  next
    case ne: False
    with "1.prems"(2) obtain a as where s: "script w = a # as" by (cases "script w") auto
    with "1.prems"(1) have a: "accepts a \<or> retries a" by simp
    from write_step [OF s ne a] obtain n e w1 where
      wr: "wolfSSL_write L p rest w = ((n, e), w1)" "script w1 = as"
        "if accepts a then 0 < n else n \<le> 0 \<and> want_again e" by blast
    have all: "\<forall>a \<in> set (script w1). accepts a \<or> retries a" using "1.prems"(1) s wr(2) by simp
    show ?thesis
    proof (cases "accepts a")
      case True
      with wr(3) have n: "0 < n" by simp
      moreover have "length (drop (nat n) rest) \<le> length (filter accepts (script w1))"
        using "1.prems"(2) s wr(2) True n by simp
      ultimately show ?thesis
        using "1.IH"(1) [OF ne wr(1) [symmetric] refl n all] ne wr(1) by (simp add: write_all_tls.simps [of L p rest w])
    next
      case False
      with wr(3) have n: "\<not> 0 < n" "want_again e" by auto
      moreover have "length rest \<le> length (filter accepts (script w1))"
        using "1.prems"(2) s wr(2) False by simp
      ultimately show ?thesis
        using "1.IH"(2) [OF ne wr(1) [symmetric] refl n all] ne wr(1) by (simp add: write_all_tls.simps [of L p rest w])
    qed
  qed
qed

lemma read_body_progress:
  "\<forall>a \<in> set (script w). delivers a \<or> retries a \<Longrightarrow> cl - got \<le> length (filter delivers (script w)) \<Longrightarrow>
     fst (fst (read_body L p cl got w)) = 0"
proof (induction L p cl got w rule: read_body.induct)
  case (1 L p cl got w)
  show ?case
  proof (cases "cl \<le> got")
    case True
    then show ?thesis by (simp add: read_body.simps [of L p cl got w])
  next
    case go: False
    with "1.prems"(2) obtain a as where s: "script w = a # as" by (cases "script w") auto
    with "1.prems"(1) have a: "delivers a \<or> retries a" by simp
    have k: "0 < min (cl - got) 16384" using go by simp
    from read_step [OF s k a] obtain n bs e w1 where
      rd: "wolfSSL_read L p (min (cl - got) 16384) w = ((n, bs, e), w1)" "script w1 = as"
        "if delivers a then 0 < n else n \<le> 0 \<and> want_again e" by blast
    have all: "\<forall>a \<in> set (script w1). delivers a \<or> retries a" using "1.prems"(1) s rd(2) by simp
    show ?thesis
    proof (cases "delivers a")
      case True
      with rd(3) have n: "\<not> n \<le> 0" by simp
      moreover have "cl - (got + nat n) \<le> length (filter delivers (script w1))"
        using "1.prems"(2) s rd(2) True n by simp
      ultimately show ?thesis
        using "1.IH"(2) [OF go rd(1) [symmetric] refl refl n all] go rd(1) by (simp add: read_body.simps [of L p cl got w])
    next
      case False
      with rd(3) have n: "n \<le> 0" "want_again e" by auto
      moreover have "cl - got \<le> length (filter delivers (script w1))"
        using "1.prems"(2) s rd(2) False by simp
      ultimately show ?thesis
        using "1.IH"(1) [OF go rd(1) [symmetric] refl refl n all] go rd(1) by (simp add: read_body.simps [of L p cl got w])
    qed
  qed
qed

lemma read_body_log: "log (snd (read_body L p cl got w)) = log w"
proof (induction L p cl got w rule: read_body.induct)
  case (1 L p cl got w)
  obtain n bs e w1 where rd: "wolfSSL_read L p (min (cl - got) 16384) w = ((n, bs, e), w1)"
    by (metis prod.exhaust)
  have lg: "log w1 = log w" using wolfSSL_read_frame(3) [of L p "min (cl - got) 16384" w] by (simp add: rd)
  show ?case
    using lg "1.IH" [OF _ rd [symmetric] refl refl] by (subst read_body.simps) (auto simp: rd)
qed

text \<open>A session whose answers are given, for concrete runs.\<close>

definition body_world :: "answer list \<Rightarrow> bytes world" where
  "body_world a = (boot a)\<lparr>ssls := [0 \<mapsto> []]\<rparr>"

lemma body_world_run:
  "sys_alloc (body_world (Ok k # as)) = (True, body_world as)"
  "clock_ns (body_world (Ok k # as)) = (of_int k, body_world as)"
  "wolfSSL_read echo_ssl 0 n (body_world (Err WANT_READ # as)) = ((-1, [], WANT_READ), body_world as)"
  "d \<noteq> [] \<Longrightarrow> wolfSSL_read echo_ssl 0 (Suc n) (body_world (Data d # as)) =
     ((int (length (take (Suc n) d)), take (Suc n) d, ENONE), body_world as)"
  by (simp_all add: sys_alloc_def sys_status_def clock_ns_def wolfSSL_read_def next_answer_def body_world_def
      boot_def read_bytes_def ssl_modify_def echo_ssl_def io_error_def)

subsection \<open>Properties\<close>

text \<open>
  Sending the answer: when \<^verbatim>\<open>write_all_tls\<close> returns 0, exactly its buffer was appended to the output
  of the session, however the library split it up and however often it asked to retry; when it returns -1
  a prefix was.
\<close>

theorem write_all_tls_writes_buffer:
  assumes "write_all_tls L p buf w = (r, w')"
  shows "\<exists>out. tls_output p (log w') = tls_output p (log w) @ out \<and> prefix out buf
              \<and> (r = 0 \<longrightarrow> out = buf) \<and> (r = 0 \<or> r = -1)"
  using write_all_tls_output [OF assms] by (auto intro: take_is_prefix)

theorem write_all_tls_writes_buffer_witness:
  "tls_output 0 (log (snd (write_all_tls echo_ssl 0 [1, 2, 3]
      ((boot [Ok 2, Err WANT_WRITE, Ok 5])\<lparr>ssls := [0 \<mapsto> []]\<rparr>)))) = [1, 2, 3]"
proof -
  let ?w = "(boot [Ok 2, Err WANT_WRITE, Ok 5])\<lparr>ssls := [0 \<mapsto> []]\<rparr>"
  have "fst (write_all_tls echo_ssl 0 [1, 2, 3] ?w) = 0"
    by (simp add: write_all_tls.simps wolfSSL_write_def next_answer_def boot_def write_count_def ssl_modify_def
        echo_ssl_def io_error_def want_again_def emit_def)
  then show ?thesis
    using write_all_tls_writes_buffer [of echo_ssl 0 "[1, 2, 3]" ?w 0
        "snd (write_all_tls echo_ssl 0 [1, 2, 3] ?w)"]
    by (cases "write_all_tls echo_ssl 0 [1, 2, 3] ?w") simp
qed

text \<open>
  C23. Both loops finish against a connection that makes progress: when every answer of the library either
  moves bytes or asks to retry, and there are as many moving answers as bytes to go, the answer is written
  and the body is drained, however many retries lie between.
\<close>

theorem session_loops_complete:
  assumes "\<forall>a \<in> set (script w). accepts a \<or> retries a" and "length buf \<le> length (filter accepts (script w))"
    and "\<forall>a \<in> set (script v). delivers a \<or> retries a" and "cl - got \<le> length (filter delivers (script v))"
    and "got \<le> cl"
  shows "fst (write_all_tls L p buf w) = 0 \<and> fst (read_body L p cl got v) = (0, cl)"
  using write_all_tls_progress [OF assms(1,2)] read_body_progress [OF assms(3,4), of L p]
    read_body_done [of L p cl got v _ "snd (read_body L p cl got v)"] assms(5)
  by (metis prod.collapse)

theorem session_loops_complete_witness:
  "fst (write_all_tls echo_ssl 0 [7, 8] ((boot [Err WANT_WRITE, Ok 1, Err WANT_READ, Ok 1])\<lparr>ssls := [0 \<mapsto> []]\<rparr>)) = 0
 \<and> fst (read_body echo_ssl 0 3 1 ((boot [Data [1], Err WANT_READ, Data [2, 3]])\<lparr>ssls := [0 \<mapsto> []]\<rparr>)) = (0, 3)"
  by (rule session_loops_complete)
     (simp_all add: accepts_def retries_def delivers_def want_again_def)

end
