(* ===== verification/KaWorker.thy ===== *)
theory KaWorker
  imports KaGateway FnIo
begin

text \<open>
  \<^verbatim>\<open>prototype/faasd_tlsmigrate_keepalive/function/timing-fn/timing_fn_keepalive_worker.c\<close>: the worker
  that serves the requests of its function on a migrated keep-alive connection and relays the
  connection to the gateway when the next request belongs to another function.  The HTTP scanning
  functions are in \<open>HttpScan\<close>, the loops it shares with the one-request worker in \<open>FnIo\<close>.

  Every loop that waits for the connection consumes an answer of the environment per round; the
  termination proofs below use the number of answers left.
\<close>

subsection \<open>The receive buffer\<close>

record request_metrics =
  t0_ns :: u64
  header_ns :: u64
  body_done_ns :: u64
  delta_header_ns :: u64
  delta_body_ns :: u64
  body_bytes_read :: nat
  content_length :: int
  should_close :: bool

definition zero_metrics :: request_metrics where
  "zero_metrics = \<lparr>t0_ns = 0, header_ns = 0, body_done_ns = 0, delta_header_ns = 0, delta_body_ns = 0,
                   body_bytes_read = 0, content_length = 0, should_close = False\<rparr>"

text \<open>The first \<open>len\<close> bytes of the allocation and its capacity.\<close>

record recv_buffer =
  rb_data :: bytes
  rb_cap :: u64

text \<open>
  The doubling loop, at the width of \<^verbatim>\<open>size_t\<close>.  It would not end from 0; \<open>None\<close> is not returning,
  \<open>Some None\<close> is the error for a capacity that cannot be doubled.
\<close>

partial_function (option) grow_cap :: "u64 \<Rightarrow> u64 \<Rightarrow> u64 option option" where
  "grow_cap new_cap needed =
     (if new_cap < needed
      then (if (-1) div 2 < new_cap then Some None else grow_cap (new_cap * 2) needed)
      else Some (Some new_cap))"

declare grow_cap.simps [code]

definition ensure_capacity :: "recv_buffer \<Rightarrow> u64 \<Rightarrow> 's world \<Rightarrow> (int \<times> recv_buffer) \<times> 's world" where
  "ensure_capacity buf needed w =
     (if needed \<le> rb_cap buf then ((0, buf), w)
      else
        (case grow_cap (if rb_cap buf \<noteq> 0 then rb_cap buf else 8192) needed of
           None \<Rightarrow> ((-1, buf), flag_ub True w) \<comment> \<open>excluded by \<open>grow_cap_spec\<close>\<close>
         | Some None \<Rightarrow> ((-1, buf), w)
         | Some (Some new_cap) \<Rightarrow>
             (let (ok, w) = sys_alloc w
              in if \<not> ok then ((-1, buf), w) else ((0, buf\<lparr>rb_cap := new_cap\<rparr>), w))))"

subsection \<open>Reading the session\<close>

function ssl_read_retry :: "'s wolfssl \<Rightarrow> nat \<Rightarrow> nat \<Rightarrow> 's world \<Rightarrow> (int \<times> bytes) \<times> 's world" where
  "ssl_read_retry L p n w =
     (case wolfSSL_read L p n w of
        ((r, bs, e), w1) \<Rightarrow>
          if 0 < r then ((0, bs), w1)
          else if want_again e then ssl_read_retry L p n w1
          else ((-1, []), w1))"
  by pat_completeness auto

termination
  by (relation "measure (\<lambda>(L, p, n, w). slen w)")
     (auto dest: read_consumes)

declare ssl_read_retry.simps [simp del]

definition wolfssl_read_more ::
  "'s wolfssl \<Rightarrow> nat \<Rightarrow> recv_buffer \<Rightarrow> 's world \<Rightarrow> (int \<times> recv_buffer) \<times> 's world" where
  "wolfssl_read_more L p buf w =
     (let len = length (rb_data buf);
          ((r, buf), w) = ensure_capacity buf (of_nat len + 4096 + 1) w
      in if r \<noteq> 0 then ((-1, buf), w)
         else
           (let room = unat (rb_cap buf - of_nat len - 1);
                ((r, bs), w) = ssl_read_retry L p room w
            in if r \<noteq> 0 then ((-1, buf), w)
               else ((0, buf\<lparr>rb_data := rb_data buf @ bs\<rparr>),
                     flag_ub (unat (rb_cap buf) \<le> len + length bs) w)))"


lemma ssl_read_retry_slen: "slen (snd (ssl_read_retry L p n w)) \<le> slen w"
proof (induction L p n w rule: ssl_read_retry.induct)
  case (1 L p n w)
  obtain r bs e w1 where rd: "wolfSSL_read L p n w = ((r, bs, e), w1)" by (metis prod.exhaust)
  have le: "slen w1 \<le> slen w" using slen_wolfSSL_read [of L p n w] by (simp add: rd)
  show ?case
    using le "1.IH" [OF rd [symmetric] refl refl]
    by (subst ssl_read_retry.simps) (auto simp: rd)
qed

lemma ssl_read_retry_ok:
  "ssl_read_retry L p n w = ((0, bs), w') \<Longrightarrow> bs \<noteq> [] \<and> length bs \<le> n \<and> slen w' < slen w"
proof (induction L p n w rule: ssl_read_retry.induct)
  case (1 L p n w)
  obtain r b e w1 where rd: "wolfSSL_read L p n w = ((r, b, e), w1)" by (metis prod.exhaust)
  show ?case
  proof (cases "0 < r")
    case True
    with 1 rd have "b = bs" "w1 = w'" by (simp_all add: ssl_read_retry.simps [of L p n w])
    moreover have "b \<noteq> [] \<and> length b \<le> n" using wolfSSL_read_result [of L p n w r b e] rd True by auto
    moreover have "slen w1 < slen w" using read_consumes [OF rd [symmetric]] True by blast
    ultimately show ?thesis by simp
  next
    case False
    show ?thesis
    proof (cases "want_again e")
      case True
      with "1.prems" rd False have "ssl_read_retry L p n w1 = ((0, bs), w')"
        by (simp add: ssl_read_retry.simps [of L p n w])
      with "1.IH" [OF rd [symmetric] refl refl False True]
        read_consumes [OF rd [symmetric]] True show ?thesis by auto
    next
      case no: False
      with "1.prems" rd False show ?thesis by (simp add: ssl_read_retry.simps [of L p n w])
    qed
  qed
qed

lemma ensure_capacity_slen: "slen (snd (ensure_capacity buf needed w)) \<le> slen w"
  using slen_sys_alloc [of w]
  by (auto simp: ensure_capacity_def Let_def split_beta split: option.split)

lemma wolfssl_read_more_ok:
  "wolfssl_read_more L p buf w = ((0, buf'), w') \<Longrightarrow>
     length (rb_data buf) < length (rb_data buf') \<and> slen w' < slen w"
proof -
  assume a: "wolfssl_read_more L p buf w = ((0, buf'), w')"
  let ?e = "ensure_capacity buf (of_nat (length (rb_data buf)) + 4096 + 1) w"
  obtain r b1 w1 where e: "?e = ((r, b1), w1)" by (metis prod.exhaust)
  let ?n = "unat (rb_cap b1 - of_nat (length (rb_data buf)) - 1)"
  obtain q bs w2 where rr: "ssl_read_retry L p ?n w1 = ((q, bs), w2)" by (metis prod.exhaust)
  have d: "rb_data b1 = rb_data buf"
    using e by (auto simp: ensure_capacity_def Let_def split_beta split: if_splits option.splits)
  have q: "r = 0" "q = 0" "rb_data buf' = rb_data b1 @ bs" "slen w' = slen w2"
    using a unfolding wolfssl_read_more_def Let_def e by (auto simp: rr split: if_splits)
  have "slen w1 \<le> slen w"
    using ensure_capacity_slen [of buf "of_nat (length (rb_data buf)) + 4096 + 1" w] unfolding e by simp
  with q d ssl_read_retry_ok [OF rr [unfolded q(2)]] show ?thesis by auto
qed

subsection \<open>One request\<close>

lemma read_more_consumes:
  "((r, buf'), w') = wolfssl_read_more L p buf w \<Longrightarrow> \<not> r \<noteq> 0 \<Longrightarrow> slen w' < slen w"
  using wolfssl_read_more_ok [of L p buf w buf' w'] by auto

text \<open>The loop that collects the header: its length, the buffer, or -1.\<close>

function read_headers ::
  "'s wolfssl \<Rightarrow> nat \<Rightarrow> recv_buffer \<Rightarrow> 's world \<Rightarrow> (int \<times> recv_buffer) \<times> 's world" where
  "read_headers L p buf w =
     (if 1024 * 1024 \<le> length (rb_data buf) then ((-1, buf), w)
      else
        (case wolfssl_read_more L p buf w of
           ((r, buf1), w1) \<Rightarrow>
             if r \<noteq> 0 then ((-1, buf1), w1)
             else if 0 \<le> find_subseq (rb_data buf1) (crlf @ crlf)
             then ((find_subseq (rb_data buf1) (crlf @ crlf) + 4, buf1), w1)
             else if 0 \<le> find_subseq (rb_data buf1) [LF, LF]
             then ((find_subseq (rb_data buf1) [LF, LF] + 2, buf1), w1)
             else read_headers L p buf1 w1))"
  by pat_completeness auto

termination
  by (relation "measure (\<lambda>(L, p, buf, w). slen w)") (auto dest: read_more_consumes)

declare read_headers.simps [simp del]

definition BENCH_HEADER_NAME :: bytes where "BENCH_HEADER_NAME = cs ''x-bench-t0-ns:''"

text \<open>The metrics known once the header is complete.\<close>

definition header_metrics :: "bytes \<Rightarrow> nat \<Rightarrow> u64 \<Rightarrow> request_metrics" where
  "header_metrics data headers_len hns =
     (let cl = ka_parse_content_length data headers_len;
          t0 = ka_parse_header_int64 data headers_len BENCH_HEADER_NAME
      in zero_metrics\<lparr>header_ns := hns, t0_ns := (if 0 < t0 then of_int t0 else 0),
                      content_length := (if cl < 0 then 0 else cl),
                      should_close := ka_header_has_token data headers_len
                                        (cs ''connection:'') (cs ''close'')\<rparr>)"

definition finish_metrics :: "request_metrics \<Rightarrow> nat \<Rightarrow> u64 \<Rightarrow> request_metrics" where
  "finish_metrics m got dns =
     (let m = m\<lparr>body_bytes_read := got, body_done_ns := dns\<rparr>
      in if t0_ns m > 0
         then m\<lparr>delta_header_ns := header_ns m - t0_ns m, delta_body_ns := body_done_ns m - t0_ns m\<rparr>
         else m)"

definition read_request_body ::
  "'s wolfssl \<Rightarrow> nat \<Rightarrow> bytes \<Rightarrow> nat \<Rightarrow> 's world \<Rightarrow> (int \<times> request_metrics) \<times> 's world" where
  "read_request_body L p data headers_len w =
     (let (hns, w) = clock_ns w;
          m = header_metrics data headers_len hns;
          cl = nat (content_length m);
          already = min (length data - headers_len) cl;
          ((r, got), w) = read_body L p cl already w
      in if r \<noteq> 0 then ((-1, m), w)
         else (let (dns, w) = clock_ns w in ((0, finish_metrics m got dns), w)))"

definition read_one_request ::
  "'s wolfssl \<Rightarrow> nat \<Rightarrow> 's world \<Rightarrow> (int \<times> request_metrics) \<times> 's world" where
  "read_one_request L p w =
     (let ((r, buf), w) = ensure_capacity \<lparr>rb_data = [], rb_cap = 0\<rparr> 65537 w
      in if r \<noteq> 0 then ((-1, zero_metrics), w)
         else
           (let ((header_end, buf), w) = read_headers L p buf w
            in if header_end < 0 then ((-1, zero_metrics), w)
               else read_request_body L p (rb_data buf) (nat header_end) w))"

subsection \<open>The answer\<close>

definition dec_u64 :: "u64 \<Rightarrow> bytes" where "dec_u64 x = dec_digits (unat x)"

definition ka_json :: "request_metrics \<Rightarrow> bytes \<Rightarrow> bytes" where
  "ka_json m worker_name =
     cs ''{\"worker_name\":\"'' @ cstr worker_name @ cs ''\",\"t0_ns\":'' @ dec_u64 (t0_ns m)
     @ cs '',\"header_ns\":'' @ dec_u64 (header_ns m)
     @ cs '',\"body_done_ns\":'' @ dec_u64 (body_done_ns m)
     @ cs '',\"delta_header_ns\":'' @ dec_u64 (delta_header_ns m)
     @ cs '',\"delta_body_ns\":'' @ dec_u64 (delta_body_ns m)
     @ cs '',\"body_bytes_read\":'' @ dec_digits (body_bytes_read m)
     @ cs '',\"content_length\":'' @ dec_int (content_length m) @ cs ''}'' @ [LF]"

definition ka_response :: "request_metrics \<Rightarrow> bytes \<Rightarrow> bytes" where
  "ka_response m json =
     cs ''HTTP/1.1 200 OK'' @ crlf @ cs ''Content-Type: application/json'' @ crlf
     @ cs ''Content-Length: '' @ dec_digits (length json) @ crlf
     @ cs ''Connection: '' @ (if should_close m then cs ''close'' else cs ''keep-alive'') @ crlf
     @ crlf @ json"

definition send_response ::
  "'s wolfssl \<Rightarrow> nat \<Rightarrow> request_metrics \<Rightarrow> bytes \<Rightarrow> 's world \<Rightarrow> int \<times> 's world" where
  "send_response L p m worker_name w =
     (let json = ka_json m worker_name
      in if 768 \<le> length json then (-1, w)
         else
           (let resp = ka_response m json
            in if 1024 \<le> length resp then (-1, w) else write_all_tls L p resp w))"


subsection \<open>Refreshing the serialised session\<close>

text \<open>The key and IV arrays of the library are read up to their own size.\<close>

definition ka_export_live_serial ::
  "'s wolfssl \<Rightarrow> nat \<Rightarrow> tlspeek_serial \<Rightarrow> 's world \<Rightarrow> (int \<times> tlspeek_serial) \<times> 's world" where
  "ka_export_live_serial L p serial w =
     (let serial = serial\<lparr>ser_magic := TLSPEEK_MAGIC\<rparr>;
          ((rc, blob), w) = wolfSSL_tls_export L p w
      in if rc \<le> 0 then ((-1, serial), w)
         else
           (let serial = (put_blob blob serial)\<lparr>ser_client_write_key := zeros 32,
                                               ser_client_write_iv := zeros 12\<rparr>;
                (key, w) = ssl_query (ws_client_key L) None p w;
                (iv, w) = ssl_query (ws_client_iv L) None p w;
                (key_size, w) = ssl_query (ws_key_size L) 0 p w;
                (iv_size, w) = ssl_query (ws_iv_size L) 0 p w
            in case (key, iv) of
                 (Some key, Some iv) \<Rightarrow>
                   if key_size \<le> 0 \<or> iv_size \<le> 0 then ((-1, serial), w)
                   else
                     (let ks = (if 32 < key_size then 32 else nat key_size);
                          is = (if 12 < iv_size then 12 else nat iv_size);
                          serial = serial\<lparr>ser_client_write_key := overwrite (zeros 32) (take ks key),
                                          ser_client_write_iv := overwrite (zeros 12) (take is iv)\<rparr>;
                          ((rc, peer_seq), w) = ssl_query (ws_peer_seq L) (-1, 0) p w
                      in if rc < 0 then ((-1, serial), w)
                         else ((0, serial\<lparr>ser_read_seq_num := peer_seq\<rparr>), w))
               | _ \<Rightarrow> ((-1, serial), w)))"

subsection \<open>The session\<close>

definition ka_relay_to_gateway :: "bytes \<Rightarrow> ka_payload \<Rightarrow> int \<Rightarrow> 's world \<Rightarrow> int \<times> 's world" where
  "ka_relay_to_gateway relay_socket payload client_fd w =
     (let (relay_fd, w) = unix_client_connect relay_socket w
      in if relay_fd < 0 then (-1, close client_fd w)
         else
           (let (r, w) = sendfd_with_state relay_fd client_fd (payload_bytes payload) w
            in if r \<noteq> 0 then (-1, close client_fd (close relay_fd w))
               else (0, close relay_fd w)))"

text \<open>
  The loop over the requests of a connection.  The result is the return code and the value of the
  variable \<open>client_fd\<close> at \<open>out\<close>, which is -1 after a relay that succeeded.
\<close>

datatype round_result = Leave int int | Again tlspeek_serial

definition ka_session_round ::
  "'s wolfssl \<Rightarrow> crypto \<Rightarrow> nat \<Rightarrow> int \<Rightarrow> ka_payload \<Rightarrow> bytes \<Rightarrow> bytes \<Rightarrow> tlspeek_serial \<Rightarrow> 's world
     \<Rightarrow> round_result \<times> 's world" where
  "ka_session_round L C p client_fd initial function_name relay_socket serial w =
     (let ((r, owner), w) = peek_owner_from_kernel C client_fd serial TLSMIGRATE_KEEPALIVE_TARGET_LEN w
      in if r \<noteq> 0 then (Leave 0 client_fd, w)
         else if cstr owner \<noteq> cstr function_name then
           (let state = initial\<lparr>pl_serial := serial, pl_target_function := put_cstr 128 (cstr owner)\<rparr>;
                (r, w) = ka_relay_to_gateway relay_socket state client_fd w
            in if r \<noteq> 0 then (Leave (-1) client_fd, w) else (Leave 0 (-1), w))
         else
           (let ((r, metrics), w) = read_one_request L p w
            in if r \<noteq> 0 then (Leave (-1) client_fd, w)
               else
                 (let (r, w) = send_response L p metrics function_name w
                  in if r \<noteq> 0 then (Leave (-1) client_fd, w)
                     else if should_close metrics then (Leave 0 client_fd, w)
                     else
                       (let ((r, serial), w) = ka_export_live_serial L p serial w
                        in if r \<noteq> 0 then (Leave (-1) client_fd, w) else (Again serial, w)))))"

function ka_session_loop ::
  "'s wolfssl \<Rightarrow> crypto \<Rightarrow> nat \<Rightarrow> int \<Rightarrow> ka_payload \<Rightarrow> bytes \<Rightarrow> bytes \<Rightarrow> tlspeek_serial \<Rightarrow> 's world
     \<Rightarrow> (int \<times> int) \<times> 's world" where
  "ka_session_loop L C p client_fd initial fname relay serial w =
     (case ka_session_round L C p client_fd initial fname relay serial w of
        (Leave rc fd, w1) \<Rightarrow> ((rc, fd), w1)
      | (Again serial1, w1) \<Rightarrow> ka_session_loop L C p client_fd initial fname relay serial1 w1)"
  by pat_completeness auto

lemma slen_send_response: "slen (snd (send_response L p m n w)) \<le> slen w"
  by (simp add: send_response_def Let_def slen_write_all_tls)

lemma slen_ka_export: "slen (snd (ka_export_live_serial L p s w)) = slen w"
  by (simp add: ka_export_live_serial_def Let_def split_beta split: option.split)

lemma read_headers_ok:
  "read_headers L p buf w = ((h, buf'), w') \<Longrightarrow> 0 \<le> h \<Longrightarrow> slen w' < slen w \<and> nat h \<le> length (rb_data buf')"
proof (induction L p buf w rule: read_headers.induct)
  case (1 L p buf w)
  obtain r b1 w1 where rm: "wolfssl_read_more L p buf w = ((r, b1), w1)" by (metis prod.exhaust)
  let ?a = "find_subseq (rb_data b1) (crlf @ crlf)" and ?b = "find_subseq (rb_data b1) [LF, LF]"
  have bd: "nat (?a + 4) \<le> length (rb_data b1)" if "0 \<le> ?a"
    using that find_at_Some [of "crlf @ crlf" "rb_data b1"]
    by (fastforce simp: find_subseq_def split: if_splits option.splits)
  have bd2: "nat (?b + 2) \<le> length (rb_data b1)" if "0 \<le> ?b"
    using that find_at_Some [of "[LF, LF]" "rb_data b1"]
    by (fastforce simp: find_subseq_def split: if_splits option.splits)
  have un: "\<not> 1024 * 1024 \<le> length (rb_data buf)" "r = 0"
    using "1.prems" rm by (auto simp: read_headers.simps [of L p buf w] split: if_splits)
  have lt: "slen w1 < slen w" using wolfssl_read_more_ok [of L p buf w b1 w1] rm un by simp
  show ?case
  proof (cases "0 \<le> ?a \<or> 0 \<le> ?b")
    case True
    with "1.prems"(1) un rm lt bd bd2 show ?thesis
      by (auto simp: read_headers.simps [of L p buf w] split: if_splits)
  next
    case False
    with "1.prems"(1) un rm have "read_headers L p b1 w1 = ((h, buf'), w')"
      by (simp add: read_headers.simps [of L p buf w])
    with "1.IH" [OF un(1) rm [symmetric] refl] un False "1.prems"(2) lt show ?thesis by auto
  qed
qed

lemma slen_read_request_body: "slen (snd (read_request_body L p data n w)) \<le> slen w"
proof -
  obtain hns w1 where h: "clock_ns w = (hns, w1)" by fastforce
  define cl where "cl = nat (content_length (header_metrics data n hns))"
  obtain r got w2 where b: "read_body L p cl (min (length data - n) cl) w1 = ((r, got), w2)"
    by (metis prod.exhaust)
  have "slen w1 \<le> slen w" using slen_clock_ns [of w] by (simp add: h)
  moreover have "slen w2 \<le> slen w1" using slen_read_body [of L p cl "min (length data - n) cl" w1] by (simp add: b)
  ultimately show ?thesis
    using slen_clock_ns [of w2]
    by (simp add: read_request_body_def h b Let_def cl_def [symmetric] split_beta)
qed

lemma read_one_request_consumes:
  "read_one_request L p w = ((0, m), w') \<Longrightarrow> slen w' < slen w"
proof -
  assume a: "read_one_request L p w = ((0, m), w')"
  obtain r b w1 where e: "ensure_capacity \<lparr>rb_data = [], rb_cap = 0\<rparr> 65537 w = ((r, b), w1)"
    by (metis prod.exhaust)
  obtain h b2 w2 where h: "read_headers L p b w1 = ((h, b2), w2)" by (metis prod.exhaust)
  have "slen w1 \<le> slen w" using ensure_capacity_slen [of "\<lparr>rb_data = [], rb_cap = 0\<rparr>" 65537 w] by (simp add: e)
  moreover have h0: "0 \<le> h" using a by (auto simp: read_one_request_def e h split: if_splits)
  moreover have "slen w2 < slen w1" using read_headers_ok [OF h h0] by simp
  moreover have "slen w' \<le> slen w2"
    using a slen_read_request_body [of L p "rb_data b2" "nat h" w2]
    by (auto simp: read_one_request_def e h split: if_splits)
  ultimately show ?thesis by simp
qed

lemma ka_round_consumes:
  assumes "ka_session_round L C p fd i f rl s w = (Again s', w')"
  shows "slen w' < slen w"
proof -
  obtain r ow w1 where o: "peek_owner_from_kernel C fd s TLSMIGRATE_KEEPALIVE_TARGET_LEN w = ((r, ow), w1)"
    by (metis prod.exhaust)
  obtain r2 m w2 where q: "read_one_request L p w1 = ((r2, m), w2)" by (metis prod.exhaust)
  obtain r3 w3 where sr: "send_response L p m f w2 = (r3, w3)" by fastforce
  obtain r4 s4 w4 where ex: "ka_export_live_serial L p s w3 = ((r4, s4), w4)" by (metis prod.exhaust)
  have "r2 = 0 \<and> w' = w4"
    using assms by (auto simp: ka_session_round_def o q sr ex Let_def split_beta split: if_splits)
  moreover have "slen w1 \<le> slen w"
    using slen_peek_owner [of C fd s TLSMIGRATE_KEEPALIVE_TARGET_LEN w] by (simp add: o)
  moreover have "slen w3 \<le> slen w2" using slen_send_response [of L p m f w2] by (simp add: sr)
  moreover have "slen w4 = slen w3" using slen_ka_export [of L p s w3] by (simp add: ex)
  ultimately show ?thesis using read_one_request_consumes [of L p w1 m w2] q by auto
qed

termination ka_session_loop
  by (relation "measure (\<lambda>(L, C, p, fd, i, f, rl, s, w). slen w)")
     (auto dest: ka_round_consumes [OF sym])

declare ka_session_loop.simps [simp del]

definition process_session ::
  "'s wolfssl \<Rightarrow> crypto \<Rightarrow> int \<Rightarrow> ka_payload \<Rightarrow> bytes \<Rightarrow> bytes \<Rightarrow> 's world \<Rightarrow> int \<times> 's world" where
  "process_session L C client_fd initial_payload function_name relay_socket w =
     (let (ssl_p, w) = wolfSSL_new L w
      in case ssl_p of
           None \<Rightarrow> (-1, close client_fd w)
         | Some p \<Rightarrow>
             (let w = wolfSSL_set_fd L p client_fd w;
                  (r, w) = tlspeek_restore L p (pl_serial initial_payload) w;
                  ((rc, fd), w) =
                    (if r \<noteq> 0 then ((-1, client_fd), w)
                     else ka_session_loop L C p client_fd initial_payload function_name relay_socket
                            (pl_serial initial_payload) (wolfSSL_set_fd L p client_fd w))
              in (rc, close_if_open fd (wolfSSL_free p w))))"

text \<open>One round of the loop in \<^verbatim>\<open>main\<close>.\<close>

definition ka_worker_round ::
  "'s wolfssl \<Rightarrow> crypto \<Rightarrow> bytes \<Rightarrow> bytes \<Rightarrow> 's world \<Rightarrow> 's world" where
  "ka_worker_round L C function_name relay_socket w =
     (let (conn_fd, w) = unix_accept w
      in if conn_fd < 0 then w
         else
           (let ((r, fd_out, data), w) = recvfd_with_state SIZEOF_payload w;
                w = close conn_fd w
            in if r \<noteq> 0 then w
               else
                 (let client_fd = (case fd_out of None \<Rightarrow> -1 | Some f \<Rightarrow> f);
                      payload = bytes_payload (overwrite (zeros SIZEOF_payload) data)
                  in if client_fd < 0 then w
                     else if pl_magic payload \<noteq> TLSMIGRATE_KEEPALIVE_MAGIC
                             \<or> pl_version payload \<noteq> TLSMIGRATE_KEEPALIVE_VERSION
                     then close client_fd w
                     else snd (process_session L C client_fd payload function_name relay_socket w))))"


subsection \<open>Failed relays\<close>

text \<open>
  For the statements about closing: whether the request at hand is relayed and the relay fails, and the number
  of failed relays in a session, in the order in which the code gets there.
\<close>

definition relay_fails ::
  "crypto \<Rightarrow> int \<Rightarrow> ka_payload \<Rightarrow> bytes \<Rightarrow> bytes \<Rightarrow> tlspeek_serial \<Rightarrow> 's world \<Rightarrow> bool" where
  "relay_fails C client_fd initial function_name relay_socket serial w =
     (case peek_owner_from_kernel C client_fd serial TLSMIGRATE_KEEPALIVE_TARGET_LEN w of
        ((r, owner), w1) \<Rightarrow>
          r = 0 \<and> cstr owner \<noteq> cstr function_name
        \<and> fst (ka_relay_to_gateway relay_socket
                (initial\<lparr>pl_serial := serial, pl_target_function := put_cstr 128 (cstr owner)\<rparr>) client_fd w1) \<noteq> 0)"

function loop_failed_relays ::
  "'s wolfssl \<Rightarrow> crypto \<Rightarrow> nat \<Rightarrow> int \<Rightarrow> ka_payload \<Rightarrow> bytes \<Rightarrow> bytes \<Rightarrow> tlspeek_serial \<Rightarrow> 's world \<Rightarrow> nat" where
  "loop_failed_relays L C p fd i f rl s w =
     (case ka_session_round L C p fd i f rl s w of
        (Leave rc fd', w1) \<Rightarrow> if relay_fails C fd i f rl s w then 1 else 0
      | (Again s1, w1) \<Rightarrow> loop_failed_relays L C p fd i f rl s1 w1)"
  by pat_completeness auto

termination loop_failed_relays
  by (relation "measure (\<lambda>(L, C, p, fd, i, f, rl, s, w). slen w)")
     (auto dest: ka_round_consumes [OF sym])

declare loop_failed_relays.simps [simp del]

definition session_failed_relays ::
  "'s wolfssl \<Rightarrow> crypto \<Rightarrow> int \<Rightarrow> ka_payload \<Rightarrow> bytes \<Rightarrow> bytes \<Rightarrow> 's world \<Rightarrow> nat" where
  "session_failed_relays L C fd pl f rl w =
     (case wolfSSL_new L w of
        (None, w1) \<Rightarrow> 0
      | (Some p, w1) \<Rightarrow>
          (case tlspeek_restore L p (pl_serial pl) (wolfSSL_set_fd L p fd w1) of
             (r, w2) \<Rightarrow> if r \<noteq> 0 then 0
                        else loop_failed_relays L C p fd pl f rl (pl_serial pl) (wolfSSL_set_fd L p fd w2)))"

subsection \<open>Growing the buffer\<close>

lemma half_max: "(-1 :: u64) div 2 = 2 ^ 63 - 1"
  by simp

lemma grow_cap_spec:
  "0 < c \<Longrightarrow> \<exists>r. grow_cap c needed = Some r
     \<and> (case r of None \<Rightarrow> 2 ^ 63 < unat needed
        | Some c' \<Rightarrow> needed \<le> c' \<and> c \<le> c' \<and> (c' = c \<or> unat c' < 2 * unat needed))"
proof (induction "unat needed - unat c" arbitrary: c rule: less_induct)
  case less
  show ?case
  proof (cases "c < needed")
    case False
    then have "grow_cap c needed = Some (Some c)" by (subst grow_cap.simps) (simp only: if_False)
    with False show ?thesis by (simp add: not_less)
  next
    case lt: True
    show ?thesis
    proof (cases "(-1) div 2 < c")
      case True
      then have "2 ^ 63 \<le> unat c" by (simp add: half_max word_less_nat_alt)
      then have "2 ^ 63 < unat needed" using lt by (simp add: word_less_nat_alt)
      with lt True show ?thesis by (subst grow_cap.simps) simp
    next
      case False
      then have c63: "unat c < 2 ^ 63" by (simp add: half_max word_less_nat_alt not_less)
      then have d: "unat (c * 2) = 2 * unat c" by (simp add: unat_word_ariths)
      have pos: "0 < unat c" using less.prems by (simp add: word_less_nat_alt)
      then have p2: "0 < c * 2" using d by (simp add: word_less_nat_alt)
      have lt': "unat c < unat needed" using lt by (simp add: word_less_nat_alt)
      have m: "unat needed - unat (c * 2) < unat needed - unat c" using d pos lt' by linarith
      obtain r where r: "grow_cap (c * 2) needed = Some r"
        "case r of None \<Rightarrow> 2 ^ 63 < unat needed
         | Some c' \<Rightarrow> needed \<le> c' \<and> c * 2 \<le> c' \<and> (c' = c * 2 \<or> unat c' < 2 * unat needed)"
        using less.hyps [OF m p2] by blast
      have g: "grow_cap c needed = grow_cap (c * 2) needed"
        using lt False by (subst grow_cap.simps) simp
      show ?thesis
        using r lt' d by (auto simp: g word_le_nat_alt split: option.split_asm)
    qed
  qed
qed

lemma ssl_read_retry_io: "session_io p w (snd (ssl_read_retry L p n w))"
proof (induction L p n w rule: ssl_read_retry.induct)
  case (1 L p n w)
  obtain r bs e w1 where rd: "wolfSSL_read L p n w = ((r, bs, e), w1)" by (metis prod.exhaust)
  have io: "session_io p w w1" using session_io_prims(1) [of p w L n] by (simp add: rd)
  show ?case
    using io "1.IH" [OF rd [symmetric] refl refl]
    by (subst ssl_read_retry.simps) (auto simp: rd intro: session_io_trans)
qed

lemma ensure_capacity_io:
  assumes "ensure_capacity buf needed w = ((r, buf'), w')"
  shows "session_io p w w' \<and> rb_data buf' = rb_data buf \<and> (r = 0 \<longrightarrow> needed \<le> rb_cap buf')"
proof (cases "needed \<le> rb_cap buf")
  case True
  with assms show ?thesis by (simp add: ensure_capacity_def)
next
  case False
  let ?c = "if rb_cap buf \<noteq> 0 then rb_cap buf else 8192"
  have "0 < ?c" using word_gt_0 by auto
  from grow_cap_spec [OF this, of needed] obtain r' where
    r': "grow_cap ?c needed = Some r'" "case r' of None \<Rightarrow> True | Some c' \<Rightarrow> needed \<le> c'"
    by (auto split: option.splits simp del: not_None_eq)
  with False assms session_io_prims(3) [of p w] show ?thesis
    by (cases r') (auto simp: ensure_capacity_def Let_def split_beta split: if_splits)
qed

lemma wolfssl_read_more_io:
  assumes "length (rb_data buf) < 2 ^ 20" "wolfssl_read_more L p buf w = ((r, buf'), w')"
  shows "session_io p w w'"
proof -
  let ?len = "length (rb_data buf)"
  obtain q b1 w1 where e: "ensure_capacity buf (of_nat ?len + 4096 + 1) w = ((q, b1), w1)"
    by (metis prod.exhaust)
  define n where "n = unat (rb_cap b1 - of_nat ?len - 1)"
  obtain q2 bs w2 where rr: "ssl_read_retry L p n w1 = ((q2, bs), w2)" by (metis prod.exhaust)
  have io1: "session_io p w w1" and cap: "q = 0 \<Longrightarrow> of_nat ?len + 4096 + 1 \<le> rb_cap b1"
    using ensure_capacity_io [OF e, of p] by auto
  have io2: "session_io p w1 w2" using ssl_read_retry_io [of p w1 L n] by (simp add: rr)
  have res: "wolfssl_read_more L p buf w = (if q \<noteq> 0 then ((-1, b1), w1)
      else if q2 \<noteq> 0 then ((-1, b1), w2)
      else ((0, b1\<lparr>rb_data := rb_data b1 @ bs\<rparr>), flag_ub (unat (rb_cap b1) \<le> ?len + length bs) w2))"
    unfolding wolfssl_read_more_def Let_def e by (simp add: n_def [symmetric] rr)
  show ?thesis
  proof (cases "q = 0 \<and> q2 = 0")
    case False
    with res assms(2) io1 session_io_trans [OF io1 io2] show ?thesis by (auto split: if_splits)
  next
    case True
    have ul: "unat (of_nat ?len :: u64) = ?len"
      using assms(1) by (simp add: unat_of_nat take_bit_nat_eq_self)
    have "unat (of_nat ?len + 4096 + 1 :: u64) = ?len + 4097"
      using assms(1) ul by (simp add: unat_word_ariths)
    then have c: "?len + 4097 \<le> unat (rb_cap b1)" using cap True by (simp add: word_le_nat_alt)
    have "of_nat ?len + 1 \<le> rb_cap b1" "unat (of_nat ?len + 1 :: u64) = ?len + 1"
      using c ul assms(1) by (simp_all add: word_le_nat_alt unat_word_ariths)
    then have "n = unat (rb_cap b1) - (?len + 1)"
      unfolding n_def diff_diff_eq by (simp add: unat_sub)
    moreover have "length bs \<le> n" using ssl_read_retry_ok [of L p n w1 bs w2] rr True by simp
    ultimately have "\<not> unat (rb_cap b1) \<le> ?len + length bs" using c by linarith
    then have "w' = w2" using res assms(2) True by (auto simp: flag_ub_def)
    with session_io_trans [OF io1 io2] show ?thesis by simp
  qed
qed

lemma read_headers_io: "session_io p w (snd (read_headers L p buf w))"
proof (induction L p buf w rule: read_headers.induct)
  case (1 L p buf w)
  show ?case
  proof (cases "1024 * 1024 \<le> length (rb_data buf)")
    case True
    then show ?thesis by (subst read_headers.simps) simp
  next
    case False
    obtain r b1 w1 where rm: "wolfssl_read_more L p buf w = ((r, b1), w1)" by (metis prod.exhaust)
    have io: "session_io p w w1" using wolfssl_read_more_io [OF _ rm] False by simp
    show ?thesis
      using io "1.IH" [OF False rm [symmetric] refl]
      by (subst read_headers.simps) (use False in \<open>auto simp: rm intro: session_io_trans\<close>)
  qed
qed


lemma read_request_body_io: "session_io p w (snd (read_request_body L p data n w))"
proof -
  obtain hns w1 where h: "clock_ns w = (hns, w1)" by fastforce
  define cl where "cl = nat (content_length (header_metrics data n hns))"
  obtain r got w2 where b: "read_body L p cl (min (length data - n) cl) w1 = ((r, got), w2)"
    by (metis prod.exhaust)
  have "session_io p w w1" using session_io_prims(2) [of p w] by (simp add: h)
  moreover have "session_io p w1 w2" using read_body_io [of p w1 L cl "min (length data - n) cl"] by (simp add: b)
  ultimately show ?thesis
    using session_io_prims(2) [of p w2]
    by (auto simp: read_request_body_def h b Let_def cl_def [symmetric] split_beta intro: session_io_trans)
qed

lemma read_one_request_io: "session_io p w (snd (read_one_request L p w))"
proof -
  obtain r b w1 where e: "ensure_capacity \<lparr>rb_data = [], rb_cap = 0\<rparr> 65537 w = ((r, b), w1)"
    by (metis prod.exhaust)
  obtain h b2 w2 where h: "read_headers L p b w1 = ((h, b2), w2)" by (metis prod.exhaust)
  have "session_io p w w1" using ensure_capacity_io [OF e, of p] by simp
  moreover have "session_io p w1 w2" using read_headers_io [of p w1 L b] by (simp add: h)
  ultimately show ?thesis
    using read_request_body_io [of p w2 L "rb_data b2" "nat h"]
    by (auto simp: read_one_request_def e h intro: session_io_trans)
qed

lemma send_response_io: "session_io p w (snd (send_response L p m n w))"
  by (simp add: send_response_def Let_def write_all_tls_io)

lemma ka_export_io: "session_io p w (snd (ka_export_live_serial L p s w))"
  by (simp add: ka_export_live_serial_def Let_def split_beta session_io_def split: option.split)

subsection \<open>Resources of a session\<close>

lemma ka_relay_eq: "ka_relay_to_gateway rl pl = connect_and_send rl (payload_bytes pl)"
  by (intro ext) (simp add: ka_relay_to_gateway_def connect_and_send_def Let_def split_beta)

interpretation ka_relay: fd_handoff "ka_relay_to_gateway rl pl"
  for rl pl
  unfolding ka_relay_eq by (rule connect_and_send_handoff)

text \<open>The three ways a round leaves the descriptor: kept, handed over, closed by a failed relay.\<close>

definition gone :: "int \<Rightarrow> nat \<Rightarrow> 's world \<Rightarrow> 's world \<Rightarrow> bool" where
  "gone fd p w w' =
     (fd_wf w' \<and> set (fds w') = set (fds w) - {fd} \<and> rxq w' = rxq w \<and> live w' = live w
    \<and> next_ssl w' = next_ssl w \<and> ub w' = ub w \<and> bad_closes (log w') = bad_closes (log w))"

lemma relay_gone:
  assumes "fd_wf w" "fd \<in> set (fds w)" "0 \<le> fd"
  shows "gone fd p w (snd (ka_relay_to_gateway rl pl fd w))"
  using ka_relay.table [OF assms, of rl pl] connect_and_send_tidy [OF assms, of rl "payload_bytes pl"]
    connect_and_send_frame(4) [of rl "payload_bytes pl" fd w]
  by (simp add: gone_def tidy_def ka_relay_eq)

lemma gone_after_io:
  "session_io p w w1 \<Longrightarrow> p \<in> live w \<Longrightarrow> gone fd p w1 w2 \<Longrightarrow> gone fd p w w2"
  by (simp add: session_io_def gone_def)

lemma ka_round_effect:
  assumes fd: "fd \<in> set (fds w)" "0 \<le> fd" and wf: "fd_wf w" and p: "p \<in> live w"
    and r: "ka_session_round L C p fd i f rl s w = (res, w')"
  shows "case res of
           Again s' \<Rightarrow> session_io p w w' \<and> \<not> relay_fails C fd i f rl s w
         | Leave rc fd' \<Rightarrow>
             if relay_fails C fd i f rl s w then fd' = fd \<and> rc = -1 \<and> gone fd p w w'
             else fd' = fd \<and> session_io p w w' \<or> fd' = -1 \<and> rc = 0 \<and> gone fd p w w'"
proof -
  obtain r1 ow w1 where o: "peek_owner_from_kernel C fd s TLSMIGRATE_KEEPALIVE_TARGET_LEN w = ((r1, ow), w1)"
    by (metis prod.exhaust)
  define st where "st = i\<lparr>pl_serial := s, pl_target_function := put_cstr 128 (cstr ow)\<rparr>"
  obtain r2 wr where rl: "ka_relay_to_gateway rl st fd w1 = (r2, wr)" by fastforce
  obtain r3 m w3 where q: "read_one_request L p w1 = ((r3, m), w3)" by (metis prod.exhaust)
  obtain r4 w4 where sr: "send_response L p m f w3 = (r4, w4)" by fastforce
  obtain r5 s5 w5 where ex: "ka_export_live_serial L p s w4 = ((r5, s5), w5)" by (metis prod.exhaust)
  have i1: "session_io p w w1" using peek_owner_io [of p w C fd s TLSMIGRATE_KEEPALIVE_TARGET_LEN] by (simp add: o)
  have i3: "session_io p w w3"
    using session_io_trans [OF i1] read_one_request_io [of p w1 L] by (simp add: q)
  have i4: "session_io p w w4"
    using session_io_trans [OF i3] send_response_io [of p w3 L m f] by (simp add: sr)
  have i5: "session_io p w w5"
    using session_io_trans [OF i4] ka_export_io [of p w4 L s] by (simp add: ex)
  have "fd_wf w1" "fd \<in> set (fds w1)" using i1 fd wf by (simp_all add: session_io_def fd_wf_def)
  from relay_gone [OF this fd(2), of p rl st] have g: "gone fd p w wr"
    using gone_after_io [OF i1 p] by (simp add: rl)
  have res: "(res, w') =
     (if r1 \<noteq> 0 then (Leave 0 fd, w1)
      else if cstr ow \<noteq> cstr f then (if r2 \<noteq> 0 then (Leave (-1) fd, wr) else (Leave 0 (-1), wr))
      else if r3 \<noteq> 0 then (Leave (-1) fd, w3)
      else if r4 \<noteq> 0 then (Leave (-1) fd, w4)
      else if should_close m then (Leave 0 fd, w4)
      else if r5 \<noteq> 0 then (Leave (-1) fd, w5) else (Again s5, w5))"
    unfolding r [symmetric] ka_session_round_def by (simp add: o rl q sr ex st_def [symmetric])
  have rf: "relay_fails C fd i f rl s w \<longleftrightarrow> r1 = 0 \<and> cstr ow \<noteq> cstr f \<and> r2 \<noteq> 0"
    by (simp add: relay_fails_def o rl st_def [symmetric])
  show ?thesis using res i1 i3 i4 i5 g unfolding rf by (auto split: if_splits)
qed

lemma ka_loop_effect:
  "fd \<in> set (fds w) \<Longrightarrow> 0 \<le> fd \<Longrightarrow> fd_wf w \<Longrightarrow> p \<in> live w \<Longrightarrow>
   ka_session_loop L C p fd i f rl s w = ((rc, fd'), w') \<Longrightarrow>
     fd' = fd \<and> session_io p w w' \<and> loop_failed_relays L C p fd i f rl s w = 0
   \<or> fd' = -1 \<and> gone fd p w w' \<and> loop_failed_relays L C p fd i f rl s w = 0
   \<or> fd' = fd \<and> gone fd p w w' \<and> loop_failed_relays L C p fd i f rl s w = 1"
proof (induction L C p fd i f rl s w rule: ka_session_loop.induct)
  case (1 L C p fd i f rl s w)
  obtain res w1 where r: "ka_session_round L C p fd i f rl s w = (res, w1)" by fastforce
  note e = ka_round_effect [OF "1.prems"(1-4) r]
  show ?case
  proof (cases res)
    case (Leave rc0 fd0)
    then have "loop_failed_relays L C p fd i f rl s w = (if relay_fails C fd i f rl s w then 1 else 0)"
      "rc = rc0 \<and> fd' = fd0 \<and> w' = w1"
      using "1.prems"(5) r
      by (simp_all add: loop_failed_relays.simps [of L C p fd i f rl s w] ka_session_loop.simps [of L C p fd i f rl s w])
    with e Leave show ?thesis by (auto split: if_splits)
  next
    case (Again s1)
    have io: "session_io p w w1" using e Again by simp
    have l: "ka_session_loop L C p fd i f rl s1 w1 = ((rc, fd'), w')"
      and n: "loop_failed_relays L C p fd i f rl s w = loop_failed_relays L C p fd i f rl s1 w1"
      using "1.prems"(5) r Again
      by (simp_all add: ka_session_loop.simps [of L C p fd i f rl s w] loop_failed_relays.simps [of L C p fd i f rl s w])
    have pre: "fd \<in> set (fds w1)" "0 \<le> fd" "fd_wf w1" "p \<in> live w1"
      using io "1.prems" by (simp_all add: session_io_def fd_wf_def)
    from "1.IH" [OF r [symmetric] Again pre l] show ?thesis
      unfolding n using session_io_trans [OF io] gone_after_io [OF io "1.prems"(4)] by blast
  qed
qed


lemma process_session_effect:
  fixes L :: "'s wolfssl" and C :: crypto and f rl :: bytes
  assumes fd: "fd \<in> set (fds w)" "0 \<le> fd" and wf: "fd_wf w" "ssl_wf w"
    and bs: "unat (ser_blob_sz (pl_serial pl)) \<le> 16384"
  defines "w' \<equiv> snd (process_session L C fd pl f rl w)"
  shows "set (fds w') = set (fds w) - {fd} \<and> fd_wf w' \<and> ssl_wf w' \<and> live w' = live w \<and> rxq w' = rxq w
       \<and> ub w' = ub w \<and> bad_closes (log w') = bad_closes (log w) + session_failed_relays L C fd pl f rl w"
proof (cases "fst (wolfSSL_new L w)")
  case None
  then have "w' = close fd (snd (wolfSSL_new L w))" "session_failed_relays L C fd pl f rl w = 0"
    by (simp_all add: w'_def process_session_def session_failed_relays_def split_beta)
  with None fd wf show ?thesis by (simp add: fd_wf_def ssl_wf_def)
next
  case (Some p)
  define w1 where "w1 = wolfSSL_set_fd L p fd (snd (wolfSSL_new L w))"
  define w2 where "w2 = snd (tlspeek_restore L p (pl_serial pl) w1)"
  define l where "l = (if fst (tlspeek_restore L p (pl_serial pl) w1) \<noteq> 0 then ((-1, fd), w2)
     else ka_session_loop L C p fd pl f rl (pl_serial pl) (wolfSSL_set_fd L p fd w2))"
  define n where "n = session_failed_relays L C fd pl f rl w"
  have p: "p \<notin> live w" using wolfSSL_new_ptr [OF Some] ssl_wf_fresh [OF wf(2)] by auto
  have w': "w' = close_if_open (snd (fst l)) (wolfSSL_free p (snd l))"
    unfolding w'_def process_session_def l_def w2_def w1_def using Some by (simp add: split_beta Let_def)
  have n: "n = (if fst (tlspeek_restore L p (pl_serial pl) w1) \<noteq> 0 then 0
     else loop_failed_relays L C p fd pl f rl (pl_serial pl) (wolfSSL_set_fd L p fd w2))"
    unfolding n_def session_failed_relays_def w2_def w1_def using Some by (simp add: split_beta)
  have w2: "fds w2 = fds w" "rxq w2 = rxq w" "live w2 = insert p (live w)" "log w2 = log w"
    "next_ssl w2 = Suc (next_ssl w)" "ub w2 = ub w"
    using bs by (simp_all add: w2_def w1_def Some ub_tlspeek_restore)
  let ?w3 = "wolfSSL_set_fd L p fd w2"
  have w3: "fd \<in> set (fds ?w3)" "fd_wf ?w3" "p \<in> live ?w3" "session_io p w2 ?w3"
    using fd wf w2 by (simp_all add: fd_wf_def session_io_prims)
  obtain rc fd' wl where l: "l = ((rc, fd'), wl)" by (metis prod.exhaust)
  have e: "fd' = fd \<and> session_io p w2 wl \<and> n = 0 \<or> fd' = -1 \<and> gone fd p w2 wl \<and> n = 0
      \<or> fd' = fd \<and> gone fd p w2 wl \<and> n = 1"
  proof (cases "fst (tlspeek_restore L p (pl_serial pl) w1) = 0")
    case True
    then have "ka_session_loop L C p fd pl f rl (pl_serial pl) ?w3 = ((rc, fd'), wl)"
      and "n = loop_failed_relays L C p fd pl f rl (pl_serial pl) ?w3"
      using l by (simp_all add: l_def n)
    with ka_loop_effect [OF w3(1) fd(2) w3(2,3) this(1)] show ?thesis
      using session_io_trans [OF w3(4)] gone_after_io [OF w3(4)] w2 by blast
  next
    case False
    with l n show ?thesis by (simp add: l_def)
  qed
  have lv: "live w - {p} = live w" using p by simp
  have "ssl_wf w'" if "live w' = live w" "next_ssl w' = Suc (next_ssl w)"
    using wf(2) that by (auto simp: ssl_wf_def)
  moreover have "next_ssl w' = Suc (next_ssl w)"
    using e by (auto simp: w' l close_if_open_def session_io_def gone_def w2)
  moreover have "live w' = live w \<and> rxq w' = rxq w \<and> ub w' = ub w"
    using e p by (auto simp: w' l close_if_open_def session_io_def gone_def w2 lv)
  moreover have "set (fds w') = set (fds w) - {fd} \<and> fd_wf w' \<and> bad_closes (log w') = bad_closes (log w) + n"
    using e
  proof (elim disjE conjE)
    assume "fd' = fd" "session_io p w2 wl" "n = 0"
    then show ?thesis using fd wf(1) w2 by (simp add: w' l close_if_open_def session_io_def fd_wf_def)
  next
    assume "gone fd p w2 wl" "fd' = -1" "n = 0"
    then show ?thesis using w2 by (simp add: w' l close_if_open_def gone_def fd_wf_def)
  next
    assume "gone fd p w2 wl" "fd' = fd" "n = 1"
    then show ?thesis using fd w2 by (simp add: w' l close_if_open_def gone_def remove1_idem fd_wf_def)
  qed
  ultimately show ?thesis unfolding n_def by blast
qed

lemma read_one_request_body:
  assumes "read_one_request L p w = ((0, m), w')"
  shows "0 \<le> content_length m \<and> body_bytes_read m = nat (content_length m)"
proof -
  obtain data n v where q: "read_request_body L p data n v = ((0, m), w')"
    using assms by (auto simp: read_one_request_def Let_def split_beta split: if_splits)
  obtain hns w1 where h: "clock_ns v = (hns, w1)" by fastforce
  define hm where "hm = header_metrics data n hns"
  obtain r got w2 where b: "read_body L p (nat (content_length hm))
      (min (length data - n) (nat (content_length hm))) w1 = ((r, got), w2)" by (metis prod.exhaust)
  have r: "r = 0" and m: "m = finish_metrics hm got (fst (clock_ns w2))"
    using q by (auto simp: read_request_body_def h b hm_def [symmetric] Let_def split_beta split: if_splits)
  have "got = nat (content_length hm)" using read_body_done [OF b [unfolded r]] by simp
  moreover have "0 \<le> content_length hm" by (simp add: hm_def header_metrics_def Let_def)
  ultimately show ?thesis by (simp add: m finish_metrics_def Let_def)
qed


subsection \<open>Properties\<close>

text \<open>
  Processing a session always returns (the definitions are total in the answers of the environment),
  releases the client's descriptor whatever happened (served to the end, relayed, failed), frees the
  session it created, uses no freed session, overruns no buffer, and touches no other descriptor.  It closes
  a descriptor that is not open once for each failed relay and not otherwise.
\<close>

theorem ka_process_session_releases:
  assumes "fd \<in> set (fds w)" and "0 \<le> fd" and "fd_wf w" and "ssl_wf w"
    and "unat (ser_blob_sz (pl_serial pl)) \<le> 16384"
  shows "set (fds (snd (process_session L C fd pl f rl w))) = set (fds w) - {fd}
       \<and> live (snd (process_session L C fd pl f rl w)) = live w
       \<and> ub (snd (process_session L C fd pl f rl w)) = ub w
       \<and> bad_closes (log (snd (process_session L C fd pl f rl w)))
           = bad_closes (log w) + session_failed_relays L C fd pl f rl w"
  using process_session_effect [OF assms, of L C f rl] by simp

theorem ka_process_session_releases_witness:
  "set (fds (snd (process_session echo_ssl clear_crypto 5 zero_payload (cs ''fn-a'') (cs ''/relay'')
                    ((boot [Ok 0, Ok 0])\<lparr>fds := [3, 5]\<rparr>)))) = {3}"
proof -
  let ?w = "(boot [Ok 0, Ok 0])\<lparr>fds := [3, 5]\<rparr> :: bytes world"
  have w: "5 \<in> set (fds ?w)" "fd_wf ?w" "ssl_wf ?w" "set (fds ?w) - {5} = {3}"
    by (auto simp: fd_wf_def ssl_wf_def live_def)
  have z: "unat (ser_blob_sz (pl_serial zero_payload)) \<le> 16384"
    by (simp add: zero_payload_def zero_serial_def)
  show ?thesis
    using ka_process_session_releases [OF w(1) _ w(2,3) z, of echo_ssl clear_crypto "cs ''fn-a''" "cs ''/relay''"]
      w(4) by simp
qed

text \<open>
  C35. When the first request of a session belongs to another function and the relay to the gateway fails, the
  worker closes the client's descriptor twice: \<^verbatim>\<open>relay_to_gateway\<close> has closed it already, and the exit path of
  \<^verbatim>\<open>process_session\<close> closes the same number again, when it is not open.
\<close>

theorem ka_relay_failure_closes_twice:
  assumes "fd \<in> set (fds w)" and "0 \<le> fd" and "fd_wf w"
    and "wolfSSL_new L w = (Some p, w1)"
    and "tlspeek_restore L p (pl_serial pl) (wolfSSL_set_fd L p fd w1) = (0, w2)"
    and "peek_owner_from_kernel C fd (pl_serial pl) 128 (wolfSSL_set_fd L p fd w2) = ((0, owner), w3)"
    and "cstr owner \<noteq> cstr f"
    and "ka_relay_to_gateway rl (pl\<lparr>pl_target_function := put_cstr 128 (cstr owner)\<rparr>) fd w3 = (r, w4)" and "r \<noteq> 0"
  shows "process_session L C fd pl f rl w = (-1, close fd (wolfSSL_free p w4))
       \<and> EvClose fd \<in> set (events_since w3 w4) \<and> fd \<notin> set (fds w4)
       \<and> log (close fd (wolfSSL_free p w4)) = EvBadClose fd # log (wolfSSL_free p w4)"
proof -
  have "fds w3 = fds w"
    using peek_owner_same(1) [of C fd "pl_serial pl" 128 "wolfSSL_set_fd L p fd w2"] assms(6)
      wolfSSL_new_frame(1) [of L w] assms(4) tlspeek_restore_frame(1) [of L p "pl_serial pl" "wolfSSL_set_fd L p fd w1"] assms(5)
    by simp
  then have w3: "fd_wf w3" "fd \<in> set (fds w3)" using assms(1,3) by (simp_all add: fd_wf_def)
  have gone: "fd \<notin> set (fds w4)"
    using ka_relay.table [OF w3 assms(2)] assms(8) by (metis DiffD2 insertI1 snd_conv)
  have "count_list (events_since w3 w4) (EvClose fd) = 1"
    using ka_relay.closed_once [OF w3 assms(2)] assms(8) by (metis snd_conv)
  then have "EvClose fd \<in> set (events_since w3 w4)" by (metis count_notin zero_neq_one)
  moreover have "ka_session_round L C p fd pl f rl (pl_serial pl) (wolfSSL_set_fd L p fd w2) = (Leave (-1) fd, w4)"
    using assms(7-9) by (simp add: ka_session_round_def TLSMIGRATE_KEEPALIVE_TARGET_LEN_def assms(6))
  then have "ka_session_loop L C p fd pl f rl (pl_serial pl) (wolfSSL_set_fd L p fd w2) = ((-1, fd), w4)"
    by (simp add: ka_session_loop.simps [of L C p fd pl f rl "pl_serial pl"])
  then have "process_session L C fd pl f rl w = (-1, close fd (wolfSSL_free p w4))"
    using assms(2,4,5) by (simp add: process_session_def close_if_open_def)
  ultimately show ?thesis using gone by simp
qed

text \<open>A connection with a request for another function, and an environment in which no socket can be made.\<close>

definition other_request :: bytes where
  "other_request = cs ''GET /function/other HTTP/1.1''"

definition demo_serial :: tlspeek_serial where
  "demo_serial = zero_serial\<lparr>ser_magic := TLSPEEK_MAGIC, ser_cipher_suite := TLSPEEK_AES_256_GCM\<rparr>"

definition demo_world :: "answer list \<Rightarrow> bytes world" where
  "demo_world a = (boot a)\<lparr>fds := [5], rxq := (\<lambda>_. client_record clear_seal (zeros 32) (zeros 12) 0 other_request),
                           ssls := [0 \<mapsto> []], next_ssl := 1\<rparr>"

lemma demo_owner:
  assumes "a = Ok 0 # as"
  shows "peek_owner_from_kernel clear_crypto 5 demo_serial 128 (demo_world a) =
           ((0, cs ''other''), (demo_world a)\<lparr>script := as\<rparr>)"
proof -
  have s: "sys_status (demo_world a) = (0, (demo_world a)\<lparr>script := as\<rparr>)"
    by (simp add: sys_status_def next_answer_def demo_world_def assms)
  have "serial_view clear_crypto demo_serial (rxq (demo_world a) 5) = Some other_request"
    using serial_view_client_record [OF clear_crypto_inverse, of demo_serial other_request "[]"]
    by (simp add: serial_wf_def zero_serial_def demo_serial_def demo_world_def other_request_def)
  moreover have "ka_parse_request_owner (take 8192 other_request) 128 = Some (cs ''other'')"
    using ka_owner_text [of "cs ''GET''" "cs ''other''" "[]" 128 "cs ''HTTP/1.1''"]
    by (simp add: request_text_def function_prefix_def owner_line_def name_end_def cs_def other_request_def)
  ultimately have "fst (peek_owner_from_kernel clear_crypto 5 demo_serial 128 (demo_world a)) = (0, cs ''other'')"
    by (intro peek_owner_view [OF clear_crypto_lengths]) (simp_all add: s demo_serial_def)
  then have "peek_owner_from_kernel clear_crypto 5 demo_serial 128 (demo_world a) =
      ((0, cs ''other''), snd (peek_owner_from_kernel clear_crypto 5 demo_serial 128 (demo_world a)))"
    by (metis prod.collapse)
  with peek_owner_world [OF this] s show ?thesis by simp
qed

text \<open>The payload of such a connection, as a worker gets it before it has created the session.\<close>

definition demo_payload :: ka_payload where
  "demo_payload = zero_payload\<lparr>pl_serial := demo_serial\<rparr>"

lemma demo_session:
  "wolfSSL_new echo_ssl ((demo_world (Ok 0 # a))\<lparr>ssls := Map.empty, next_ssl := 0\<rparr>) = (Some 0, demo_world a)"
  "wolfSSL_set_fd echo_ssl 0 5 (demo_world a) = demo_world a"
  "tlspeek_restore echo_ssl 0 demo_serial (demo_world a) = (0, demo_world a)"
  by (simp_all add: wolfSSL_new_def sys_alloc_def sys_status_def next_answer_def wolfSSL_set_fd_def ssl_modify_def
      tlspeek_restore_def wolfSSL_tls_import_def demo_world_def demo_serial_def zero_serial_def echo_ssl_def
      flag_ub_def TLSPEEK_MAX_EXPORT_SZ_def)

theorem ka_relay_failure_closes_twice_witness:
  "bad_closes (log (snd (process_session echo_ssl clear_crypto 5 demo_payload (cs ''fn-a'') (cs ''/relay'')
      ((demo_world [Ok 0, Ok 0, Err EOTHER])\<lparr>ssls := Map.empty, next_ssl := 0\<rparr>)))) = 1"
proof -
  let ?w = "demo_world [Ok 0, Err EOTHER]"
  let ?w3 = "?w\<lparr>script := [Err EOTHER]\<rparr>"
  let ?w4 = "close 5 (set_errno EOTHER (?w\<lparr>script := []\<rparr>))"
  have s: "pl_serial demo_payload = demo_serial" by (simp add: demo_payload_def)
  have r: "ka_relay_to_gateway (cs ''/relay'') pl 5 ?w3 = (-1, ?w4)" for pl
    by (simp add: ka_relay_to_gateway_def unix_client_connect_def sys_newfd_def next_answer_def)
  have ne: "cstr (cs ''other'') \<noteq> cstr (cs ''fn-a'')" by (simp add: cs_def cstr_def)
  have "tlspeek_restore echo_ssl 0 (pl_serial demo_payload) (wolfSSL_set_fd echo_ssl 0 5 ?w) = (0, ?w)"
    "peek_owner_from_kernel clear_crypto 5 (pl_serial demo_payload) 128 (wolfSSL_set_fd echo_ssl 0 5 ?w) = ((0, cs ''other''), ?w3)"
    by (simp_all add: s demo_session demo_owner)
  from ka_relay_failure_closes_twice [OF _ _ _ demo_session(1) this ne r]
  have "snd (process_session echo_ssl clear_crypto 5 demo_payload (cs ''fn-a'') (cs ''/relay'')
      ((demo_world [Ok 0, Ok 0, Err EOTHER])\<lparr>ssls := Map.empty, next_ssl := 0\<rparr>)) = close 5 (wolfSSL_free 0 ?w4)"
    by (simp add: fd_wf_def demo_world_def)
  then show ?thesis by (simp add: demo_world_def)
qed

text \<open>
  A request that was read successfully was read to its end: the number of body bytes reported is the
  announced Content-Length (0 when there is none), never more.
\<close>

theorem ka_request_body_complete:
  assumes "read_one_request L p w = ((0, m), w')"
  shows "0 \<le> content_length m \<and> int (body_bytes_read m) = content_length m"
  using read_one_request_body [OF assms] by simp

text \<open>A session whose answers are given: the header and one byte of the body, then the rest.\<close>

definition body_text :: bytes where
  "body_text = cs ''Content-Length: 2'' @ [LF, LF, 65]"

lemma body_text_scan:
  "length body_text = 20" "find_subseq body_text (crlf @ crlf) = -1" "find_subseq body_text [LF, LF] = 17"
  "ka_parse_content_length body_text 19 = 2"
  by code_simp+

lemma body_world_headers:
  "read_headers echo_ssl 0 \<lparr>rb_data = [], rb_cap = 131072\<rparr> (body_world (Data body_text # as)) =
     ((19, \<lparr>rb_data = body_text, rb_cap = 131072\<rparr>), body_world as)"
proof -
  have ne: "body_text \<noteq> []" using body_text_scan(1) by force
  have "wolfSSL_read echo_ssl 0 131071 (body_world (Data body_text # as)) =
      ((20, body_text, ENONE), body_world as)"
    using body_world_run(4) [OF ne, of 131070 as] by (simp add: body_text_scan(1))
  then have "ssl_read_retry echo_ssl 0 131071 (body_world (Data body_text # as)) = ((0, body_text), body_world as)"
    by (simp add: ssl_read_retry.simps [of echo_ssl 0 131071])
  then show ?thesis
    by (simp add: read_headers.simps [of echo_ssl 0 "\<lparr>rb_data = [], rb_cap = 131072\<rparr>"] wolfssl_read_more_def
        ensure_capacity_def flag_ub_def body_text_scan body_text_scan(2) [simplified] Let_def)
qed

theorem ka_request_body_complete_witness:
  "int (body_bytes_read (snd (fst (read_one_request echo_ssl 0
      (body_world [Ok 0, Data body_text, Ok 7, Err WANT_READ, Data [66, 67], Ok 9]))))) = 2"
proof -
  let ?w = "body_world [Ok 0, Data body_text, Ok 7, Err WANT_READ, Data [66, 67], Ok 9]"
  let ?m = "header_metrics body_text 19 7"
  have cl: "content_length ?m = 2" by (simp add: header_metrics_def body_text_scan Let_def)
  have e: "ensure_capacity \<lparr>rb_data = [], rb_cap = 0\<rparr> 65537 ?w =
      ((0, \<lparr>rb_data = [], rb_cap = 131072\<rparr>), body_world [Data body_text, Ok 7, Err WANT_READ, Data [66, 67], Ok 9])"
    by (simp add: ensure_capacity_def grow_cap.simps body_world_run)
  have b: "read_body echo_ssl 0 2 (Suc 0) (body_world [Err WANT_READ, Data [66, 67], Ok 9]) = ((0, 2), body_world [Ok 9])"
    using body_world_run(4) [of "[66, 67]" 0 "[Ok 9]"]
    by (simp add: read_body.simps want_again_def body_world_run)
  have "read_one_request echo_ssl 0 ?w = ((0, finish_metrics ?m 2 9), body_world [])"
    by (simp add: read_one_request_def e body_world_headers read_request_body_def body_world_run(2) cl b
        body_text_scan Let_def)
  moreover have "content_length (finish_metrics ?m 2 9) = 2" by (simp add: finish_metrics_def cl Let_def)
  ultimately show ?thesis using ka_request_body_complete [of echo_ssl 0 ?w "finish_metrics ?m 2 9"] by simp
qed

text \<open>
  C36. The buffer grows without wrap-around: from a non-zero capacity the doubling loop returns, with a
  capacity that covers the need and is less than twice as large (or the old one), or with the error when
  more than half of the address space is asked for.
\<close>

theorem grow_cap_returns:
  assumes "0 < c"
  shows "\<exists>r. grow_cap c needed = Some r
       \<and> (case r of None \<Rightarrow> 2 ^ 63 < unat needed
          | Some c' \<Rightarrow> needed \<le> c' \<and> c \<le> c' \<and> (c' = c \<or> unat c' < 2 * unat needed))"
  using grow_cap_spec [OF assms] .

theorem grow_cap_returns_witness:
  "\<exists>r. grow_cap 8192 65537 = Some r"
  using grow_cap_returns [of 8192 65537] by auto

end
