(* ===== verification/TmWorker.thy ===== *)
theory TmWorker
  imports FnIo
begin

text \<open>
  \<^verbatim>\<open>prototype/faasd_tlsmigrate/function/timing-fn/timing_fn_worker.c\<close>: the function worker of the first
  prototype, which serves one request per migrated connection and closes it.  Three of its functions are
  word for word those of the keep-alive worker and are the definitions of \<open>HttpScan\<close> and \<open>FnIo\<close> here.
\<close>

subsection \<open>The payload\<close>

definition TLSMIGRATE_MAGIC :: u32 where "TLSMIGRATE_MAGIC = 0x544D4754"
definition TLSMIGRATE_VERSION :: u32 where "TLSMIGRATE_VERSION = 1"

record tlsmigrate_payload =
  tm_magic :: u32
  tm_version :: u32
  tm_t0_ns :: u64
  tm_serial :: tlspeek_serial

definition tm_payload_wf :: "tlsmigrate_payload \<Rightarrow> bool" where
  "tm_payload_wf p = serial_wf (tm_serial p)"

definition SIZEOF_tm_payload :: nat where "SIZEOF_tm_payload = 24664"

definition tm_payload_bytes :: "tlsmigrate_payload \<Rightarrow> bytes" where
  "tm_payload_bytes p =
     le_bytes 4 (unat (tm_magic p)) @ le_bytes 4 (unat (tm_version p)) @ le_bytes 8 (unat (tm_t0_ns p))
     @ serial_bytes (tm_serial p)"

definition bytes_tm_payload :: "bytes \<Rightarrow> tlsmigrate_payload" where
  "bytes_tm_payload b =
     \<lparr>tm_magic = of_nat (le_val (slice 0 4 b)), tm_version = of_nat (le_val (slice 4 4 b)),
      tm_t0_ns = of_nat (le_val (slice 8 8 b)), tm_serial = bytes_serial (slice 16 24648 b)\<rparr>"

lemma length_tm_payload_bytes: "tm_payload_wf p \<Longrightarrow> length (tm_payload_bytes p) = SIZEOF_tm_payload"
  by (simp add: tm_payload_bytes_def tm_payload_wf_def length_serial_bytes SIZEOF_tm_payload_def SIZEOF_serial_def)

lemma bytes_tm_payload_roundtrip: "tm_payload_wf p \<Longrightarrow> bytes_tm_payload (tm_payload_bytes p) = p"
  by (simp add: bytes_tm_payload_def tm_payload_bytes_def tm_payload_wf_def slice_simps word_le_bytes_4 word_le_bytes_8
      length_serial_bytes SIZEOF_serial_def bytes_serial_serial_bytes)

subsection \<open>The functions shared with the keep-alive worker\<close>

definition tm_find_subseq :: "bytes \<Rightarrow> bytes \<Rightarrow> int" where
  "tm_find_subseq = find_subseq"

definition tm_parse_request_owner :: "bytes \<Rightarrow> nat \<Rightarrow> bytes option" where
  "tm_parse_request_owner = ka_parse_request_owner"

definition tm_peek_owner_from_kernel ::
  "crypto \<Rightarrow> int \<Rightarrow> tlspeek_serial \<Rightarrow> nat \<Rightarrow> 's world \<Rightarrow> (int \<times> bytes) \<times> 's world" where
  "tm_peek_owner_from_kernel = peek_owner_from_kernel"

definition tm_write_all_tls :: "'s wolfssl \<Rightarrow> nat \<Rightarrow> bytes \<Rightarrow> 's world \<Rightarrow> int \<times> 's world" where
  "tm_write_all_tls = write_all_tls"

lemmas tm_shared_defs =
  tm_find_subseq_def tm_parse_request_owner_def tm_peek_owner_from_kernel_def tm_write_all_tls_def

subsection \<open>One request\<close>

text \<open>
  The loop that collects the header in an array of 65537 bytes: the length of the header (-1 for an
  error) and the bytes received.
\<close>

function tm_read_headers :: "'s wolfssl \<Rightarrow> nat \<Rightarrow> bytes \<Rightarrow> 's world \<Rightarrow> (int \<times> bytes) \<times> 's world" where
  "tm_read_headers L p buf w =
     (if 65536 \<le> length buf then ((-1, buf), w)
      else
        (case wolfSSL_read L p (65536 - length buf) w of
           ((n, bs, e), w1) \<Rightarrow>
             if n \<le> 0 then (if want_again e then tm_read_headers L p buf w1 else ((-1, buf), w1))
             else
               (case flag_ub (65537 \<le> length (buf @ bs)) w1 of
                  w2 \<Rightarrow>
                    if 0 \<le> tm_find_subseq (buf @ bs) (crlf @ crlf)
                    then ((tm_find_subseq (buf @ bs) (crlf @ crlf) + 4, buf @ bs), w2)
                    else if 0 \<le> tm_find_subseq (buf @ bs) [LF, LF]
                    then ((tm_find_subseq (buf @ bs) [LF, LF] + 2, buf @ bs), w2)
                    else tm_read_headers L p (buf @ bs) w2)))"
  by pat_completeness auto

termination
  by (relation "measure (\<lambda>(L, p, buf, w). slen w)") (auto dest: read_consumes)

declare tm_read_headers.simps [simp del]

definition tm_json :: "u64 \<Rightarrow> u64 \<Rightarrow> u64 \<Rightarrow> nat \<Rightarrow> int \<Rightarrow> bytes" where
  "tm_json t0 header_ns body_done_ns body_bytes_read content_length =
     cs ''{\"t0_ns\":'' @ dec_digits (unat t0)
     @ cs '',\"header_ns\":'' @ dec_digits (unat header_ns)
     @ cs '',\"body_done_ns\":'' @ dec_digits (unat body_done_ns)
     @ cs '',\"delta_header_ns\":'' @ dec_digits (unat (if t0 \<noteq> 0 then header_ns - t0 else 0))
     @ cs '',\"delta_body_ns\":'' @ dec_digits (unat (if t0 \<noteq> 0 then body_done_ns - t0 else 0))
     @ cs '',\"body_bytes_read\":'' @ dec_digits body_bytes_read
     @ cs '',\"content_length\":'' @ dec_int content_length @ cs ''}''"

definition tm_response :: "bytes \<Rightarrow> bytes" where
  "tm_response json =
     cs ''HTTP/1.1 200 OK'' @ crlf @ cs ''Content-Type: application/json'' @ crlf
     @ cs ''Content-Length: '' @ dec_digits (length json) @ crlf
     @ cs ''Connection: close'' @ crlf @ crlf @ json"

text \<open>The announced length, 0 when there is none, and the body bytes that came with the header.\<close>

definition tm_content_length :: "bytes \<Rightarrow> nat \<Rightarrow> int" where
  "tm_content_length buf headers_len =
     (if tm_parse_content_length buf headers_len < 0 then 0 else tm_parse_content_length buf headers_len)"

definition tm_already :: "bytes \<Rightarrow> nat \<Rightarrow> nat" where
  "tm_already buf headers_len =
     (if headers_len < length buf
      then min (length buf - headers_len) (nat (tm_content_length buf headers_len)) else 0)"

text \<open>From the complete header on: the body, the clock, the answer.\<close>

definition tm_serve ::
  "'s wolfssl \<Rightarrow> nat \<Rightarrow> u64 \<Rightarrow> bytes \<Rightarrow> nat \<Rightarrow> 's world \<Rightarrow> int \<times> 's world" where
  "tm_serve L p t0 buf headers_len w =
     (let (header_ns, w) = clock_ns w;
          cl = tm_content_length buf headers_len;
          ((r, got), w) = read_body L p (nat cl) (tm_already buf headers_len) w
      in if r \<noteq> 0 then (-1, w)
         else
           (let (body_done_ns, w) = clock_ns w;
                json = tm_json t0 header_ns body_done_ns got cl
            in if 512 \<le> length json then (-1, w)
               else
                 (let resp = tm_response json
                  in if 1024 \<le> length resp then (-1, w)
                     else (let (r, w) = tm_write_all_tls L p resp w in (if r \<noteq> 0 then -1 else 0, w)))))"

text \<open>The quiet flag belongs to the session; setting it through a dead pointer is undefined.\<close>

definition wolfSSL_set_quiet_shutdown :: "nat \<Rightarrow> 's world \<Rightarrow> 's world" where
  "wolfSSL_set_quiet_shutdown p w = flag_ub (\<not> ssl_live p w) w"

definition tm_out :: "nat \<Rightarrow> 's world \<Rightarrow> 's world" where
  "tm_out p w = wolfSSL_free p (wolfSSL_shutdown p (wolfSSL_set_quiet_shutdown p w))"

definition handle_one_request ::
  "'s wolfssl \<Rightarrow> crypto \<Rightarrow> int \<Rightarrow> tlsmigrate_payload \<Rightarrow> bytes option \<Rightarrow> 's world \<Rightarrow> int \<times> 's world" where
  "handle_one_request L C client_fd payload expected w =
     (let ((r, owner), w) = tm_peek_owner_from_kernel C client_fd (tm_serial payload) 128 w
      in if r \<noteq> 0 then (-1, w)
         else if (case expected of None \<Rightarrow> False | Some f \<Rightarrow> cstr f \<noteq> [] \<and> cstr owner \<noteq> cstr f) then (-1, w)
         else
           (let (ssl_p, w) = wolfSSL_new L w
            in case ssl_p of
                 None \<Rightarrow> (-1, w)
               | Some p \<Rightarrow>
                   (let w = wolfSSL_set_fd L p client_fd w;
                        (r, w) = tlspeek_restore L p (tm_serial payload) w
                    in if r \<noteq> 0 then (-1, wolfSSL_free p w)
                       else
                         (let ((header_end, buf), w) = tm_read_headers L p [] (wolfSSL_set_fd L p client_fd w);
                              (rc, w) = (if header_end < 0 then (-1, w)
                                         else tm_serve L p (tm_t0_ns payload) buf (nat header_end) w)
                          in (rc, tm_out p w)))))"

text \<open>One round of the loop in \<^verbatim>\<open>main\<close>.\<close>

definition tm_worker_round :: "'s wolfssl \<Rightarrow> crypto \<Rightarrow> bytes \<Rightarrow> 's world \<Rightarrow> 's world" where
  "tm_worker_round L C function_name w =
     (let (conn_fd, w) = unix_accept w
      in if conn_fd < 0 then w
         else
           (let ((r, fd_out, data), w) = recvfd_with_state SIZEOF_tm_payload w
            in if r \<noteq> 0 then close conn_fd w
               else
                 (let w = close conn_fd w;
                      client_fd = (case fd_out of None \<Rightarrow> -1 | Some f \<Rightarrow> f);
                      payload = bytes_tm_payload (overwrite (zeros SIZEOF_tm_payload) data)
                  in if client_fd < 0 then w
                     else if tm_magic payload \<noteq> TLSMIGRATE_MAGIC \<or> tm_version payload \<noteq> TLSMIGRATE_VERSION
                     then close client_fd w
                     else close client_fd
                            (snd (handle_one_request L C client_fd payload (Some function_name) w)))))"

subsection \<open>What a request keeps\<close>

lemma tm_read_headers_io:
  "length buf \<le> 65536 \<Longrightarrow> tm_read_headers L p buf w = ((h, buf'), w') \<Longrightarrow>
     session_io p w w' \<and> length buf' \<le> 65536 \<and> (0 \<le> h \<longrightarrow> nat h \<le> length buf')"
proof (induction L p buf w rule: tm_read_headers.induct)
  case (1 L p buf w)
  obtain n bs e w1 where rd: "wolfSSL_read L p (65536 - length buf) w = ((n, bs, e), w1)" by (metis prod.exhaust)
  have io: "session_io p w w1" using session_io_prims(1) [of p w L "65536 - length buf"] by (simp add: rd)
  show ?case
  proof (cases "65536 \<le> length buf \<or> n \<le> 0 \<and> \<not> want_again e")
    case True
    with "1.prems" rd io show ?thesis by (auto simp: tm_read_headers.simps [of L p buf w] split: if_splits)
  next
    case go: False
    show ?thesis
    proof (cases "n \<le> 0")
      case True
      with go "1.prems" rd have "tm_read_headers L p buf w1 = ((h, buf'), w')"
        by (simp add: tm_read_headers.simps [of L p buf w] split: if_splits)
      with "1.IH"(1) [OF _ rd [symmetric] refl refl True] go "1.prems"(1) True
      show ?thesis using session_io_trans [OF io] by auto
    next
      case pos: False
      have le: "length (buf @ bs) \<le> 65536"
        using wolfSSL_read_result [of L p "65536 - length buf" w n bs e] rd pos go by auto
      define w2 where "w2 = flag_ub (65537 \<le> length (buf @ bs)) w1"
      have w2: "session_io p w w2" using io le by (simp add: w2_def flag_ub_def)
      let ?a = "find_subseq (buf @ bs) (crlf @ crlf)" and ?b = "find_subseq (buf @ bs) [LF, LF]"
      have step: "tm_read_headers L p buf w = (if 0 \<le> ?a then ((?a + 4, buf @ bs), w2)
          else if 0 \<le> ?b then ((?b + 2, buf @ bs), w2) else tm_read_headers L p (buf @ bs) w2)"
        using pos go by (subst tm_read_headers.simps) (simp add: rd w2_def tm_find_subseq_def)
      show ?thesis
      proof (cases "0 \<le> ?a \<or> 0 \<le> ?b")
        case True
        with step "1.prems"(2) w2 le find_subseq_bound [of "buf @ bs" "crlf @ crlf"] find_subseq_bound [of "buf @ bs" "[LF, LF]"]
        show ?thesis by (auto split: if_splits)
      next
        case False
        with step "1.prems"(2) have "tm_read_headers L p (buf @ bs) w2 = ((h, buf'), w')" by simp
        moreover have "\<not> 65536 \<le> length buf" "\<not> 0 \<le> tm_find_subseq (buf @ bs) (crlf @ crlf)"
          "\<not> 0 \<le> tm_find_subseq (buf @ bs) [LF, LF]" using go False by (simp_all add: tm_find_subseq_def)
        ultimately show ?thesis
          using "1.IH"(2) [OF _ rd [symmetric] refl refl pos _ _ le] session_io_trans [OF w2]
          unfolding w2_def by blast
      qed
    qed
  qed
qed

lemma tm_serve_io: "session_io p w (snd (tm_serve L p t0 buf n w))"
proof -
  obtain hns w1 where h: "clock_ns w = (hns, w1)" by fastforce
  let ?cl = "tm_content_length buf n" and ?al = "tm_already buf n"
  obtain r got w2 where b: "read_body L p (nat ?cl) ?al w1 = ((r, got), w2)" by (metis prod.exhaust)
  obtain dns w3 where d: "clock_ns w2 = (dns, w3)" by fastforce
  have io: "session_io p w w1" "session_io p w1 w2" "session_io p w2 w3"
    using session_io_prims(2) [of p w] read_body_io [of p w1 L "nat ?cl" ?al] session_io_prims(2) [of p w2]
    by (simp_all add: h b d)
  have io2: "session_io p w w2" "session_io p w w3" using io by (blast intro: session_io_trans)+
  have r: "snd (tm_serve L p t0 buf n w) = (if r \<noteq> 0 then w2 else
      if 512 \<le> length (tm_json t0 hns dns got ?cl) then w3 else
      if 1024 \<le> length (tm_response (tm_json t0 hns dns got ?cl)) then w3
      else snd (write_all_tls L p (tm_response (tm_json t0 hns dns got ?cl)) w3))"
    by (simp add: tm_serve_def h b d tm_write_all_tls_def Let_def split_beta)
  show ?thesis
    unfolding r using io2 session_io_trans [OF io2(2) write_all_tls_io] by simp
qed

lemma tm_out_frame:
  "fds (tm_out p w) = fds w" "rxq (tm_out p w) = rxq w" "next_ssl (tm_out p w) = next_ssl w"
  "live (tm_out p w) = live w - {p}" "ub (tm_out p w) = (ub w \<or> p \<notin> live w)"
  "bad_closes (log (tm_out p w)) = bad_closes (log w)"
  by (auto simp: tm_out_def wolfSSL_set_quiet_shutdown_def ssl_live_iff)

lemma handle_one_request_effect:
  assumes "ssl_wf w" and bs: "unat (ser_blob_sz (tm_serial pl)) \<le> 16384"
  shows "tidy w (snd (handle_one_request L C fd pl f w))
       \<and> fds (snd (handle_one_request L C fd pl f w)) = fds w
       \<and> ssl_wf (snd (handle_one_request L C fd pl f w))"
proof -
  obtain r ow w0 where o: "peek_owner_from_kernel C fd (tm_serial pl) 128 w = ((r, ow), w0)" by (metis prod.exhaust)
  have w0: "fds w0 = fds w" "rxq w0 = rxq w" "live w0 = live w" "next_ssl w0 = next_ssl w"
      "bad_closes (log w0) = bad_closes (log w)" "ub w0 = ub w"
    using peek_owner_same [of C fd "tm_serial pl" 128 w] by (simp_all add: o)
  define bad where "bad = (r \<noteq> 0 \<or> (case f of None \<Rightarrow> False | Some f \<Rightarrow> cstr f \<noteq> [] \<and> cstr ow \<noteq> cstr f))"
  show ?thesis
  proof (cases bad)
    case True
    then have "snd (handle_one_request L C fd pl f w) = w0"
      by (auto simp: handle_one_request_def tm_peek_owner_from_kernel_def o bad_def)
    with w0 assms(1) show ?thesis by (simp add: tidy_def ssl_wf_def)
  next
    case ok: False
    show ?thesis
    proof (cases "fst (wolfSSL_new L w0)")
      case None
      with ok have "snd (handle_one_request L C fd pl f w) = snd (wolfSSL_new L w0)"
        by (auto simp: handle_one_request_def tm_peek_owner_from_kernel_def o bad_def split_beta split: option.splits)
      with w0 None assms(1) show ?thesis by (simp add: tidy_def ssl_wf_def)
    next
      case (Some p)
      define w1 where "w1 = wolfSSL_set_fd L p fd (snd (wolfSSL_new L w0))"
      obtain q w2 where q: "tlspeek_restore L p (tm_serial pl) w1 = (q, w2)" by fastforce
      obtain h buf w3 where h: "tm_read_headers L p [] (wolfSSL_set_fd L p fd w2) = ((h, buf), w3)"
        by (metis prod.exhaust)
      define w4 where "w4 = (if h < 0 then w3 else snd (tm_serve L p (tm_t0_ns pl) buf (nat h) w3))"
      have p: "p \<notin> live w" using wolfSSL_new_ptr [OF Some] ssl_wf_fresh [of w0] assms(1) w0
        by (auto simp: ssl_wf_def)
      have res: "snd (handle_one_request L C fd pl f w) = (if q \<noteq> 0 then wolfSSL_free p w2 else tm_out p w4)"
        using ok Some unfolding handle_one_request_def bad_def w4_def
        by (auto simp: tm_peek_owner_from_kernel_def o q [unfolded w1_def] h split_beta Let_def split: option.splits)
      have w2s: "w2 = snd (tlspeek_restore L p (tm_serial pl) w1)" by (simp add: q)
      have w2: "fds w2 = fds w" "rxq w2 = rxq w" "live w2 = insert p (live w)"
        "next_ssl w2 = Suc (next_ssl w)" "bad_closes (log w2) = bad_closes (log w)" "ub w2 = ub w"
        using w0 Some bs ub_tlspeek_restore [of L p "tm_serial pl" w1]
        by (simp_all add: w2s, simp_all add: w1_def)
      have "session_io p w2 w3"
        using session_io_trans [OF session_io_prims(7) [of p w2 L fd]] tm_read_headers_io [OF _ h] by simp
      then have "session_io p w2 w4"
        using tm_serve_io [of p w3 L "tm_t0_ns pl" buf "nat h"] unfolding w4_def by (auto intro: session_io_trans)
      then have w4: "fds w4 = fds w" "rxq w4 = rxq w" "live w4 = insert p (live w)"
        "next_ssl w4 = Suc (next_ssl w)" "bad_closes (log w4) = bad_closes (log w)" "ub w4 = ub w"
        using w2 by (simp_all add: session_io_def)
      have lv: "insert p (live w) - {p} = live w" using p by simp
      show ?thesis
        using assms(1) w2 w4 p unfolding res tidy_def ssl_wf_def
        by (auto simp: tm_out_frame)
    qed
  qed
qed

lemma tm_round_effect:
  assumes wf: "fd_wf w" "ssl_wf w"
    and one: "0 \<le> fst (unix_accept w) \<Longrightarrow> one_descriptor (snd (unix_accept w))"
    and m: "fst (recvfd_with_state SIZEOF_tm_payload (snd (unix_accept w))) = (rc, f, d)"
    and bs: "0 \<le> fst (unix_accept w) \<Longrightarrow> rc = 0 \<Longrightarrow> unat (ser_blob_sz (tm_serial (bytes_tm_payload (overwrite (zeros SIZEOF_tm_payload) d)))) \<le> 16384"
  shows "tidy w (tm_worker_round L C name w) \<and> set (fds (tm_worker_round L C name w)) = set (fds w)
       \<and> fd_wf (tm_worker_round L C name w) \<and> ssl_wf (tm_worker_round L C name w)"
proof (cases "fst (unix_accept w) < 0")
  case True
  then have "tm_worker_round L C name w = snd (unix_accept w)" by (simp add: tm_worker_round_def split_beta)
  with True wf show ?thesis by (simp add: tidy_def fd_wf_def ssl_wf_def)
next
  case False
  define c where "c = fst (unix_accept w)"
  define w1 where "w1 = snd (unix_accept w)"
  define w2 where "w2 = snd (recvfd_with_state SIZEOF_tm_payload w1)"
  define pl where "pl = bytes_tm_payload (overwrite (zeros SIZEOF_tm_payload) d)"
  have c0: "c \<notin> set (fds w)" "fds w1 = c # fds w" "0 \<le> c"
    using unix_accept_fresh [of w] False by (simp_all add: c_def w1_def)
  show ?thesis
  proof (cases "rc = 0")
    case refused: False
    then have "fds w2 = fds w1"
      using recvfd_failed [of SIZEOF_tm_payload w1] one m False by (simp add: w1_def w2_def SIZEOF_tm_payload_def)
    moreover have "tm_worker_round L C name w = close c w2"
      using refused False m by (simp add: tm_worker_round_def split_beta c_def w1_def w2_def)
    ultimately show ?thesis
      using c0 wf by (simp add: tidy_def fd_wf_def ssl_wf_def) (simp add: w2_def w1_def)
  next
    case True
    have r: "fst (recvfd_with_state SIZEOF_tm_payload w1) = (0, f, d)" using m True by (simp add: w1_def)
    obtain fd where fd: "f = Some fd" "0 \<le> fd" "fd \<notin> set (fds w1)" "fds w2 = fd # fds w1"
      using recvfd_ok [OF r] unfolding w2_def by blast
    have c: "c \<notin> set (fds w)" "fds w1 = c # fds w" "c \<noteq> fd" using c0 fd by auto
    define w3 where "w3 = close c w2"
    have w3: "fds w3 = fd # fds w" "tidy w w3" "ssl_wf w3"
      using c fd wf by (auto simp: w3_def w2_def w1_def tidy_def ssl_wf_def)
    have res: "tm_worker_round L C name w = close fd
        (if tm_magic pl \<noteq> TLSMIGRATE_MAGIC \<or> tm_version pl \<noteq> TLSMIGRATE_VERSION then w3
         else snd (handle_one_request L C fd pl (Some name) w3))"
      using False fd r unfolding w3_def w2_def w1_def c_def pl_def
      by (simp add: tm_worker_round_def split_beta Let_def)
    have h: "tidy w3 (snd (handle_one_request L C fd pl (Some name) w3))"
      "fds (snd (handle_one_request L C fd pl (Some name) w3)) = fds w3"
      "ssl_wf (snd (handle_one_request L C fd pl (Some name) w3))"
      using handle_one_request_effect [OF w3(3), of pl L C fd "Some name"] bs True False by (simp_all add: pl_def)
    show ?thesis
      using res h w3 wf c fd by (auto simp: tidy_def ssl_wf_def fd_wf_def)
  qed
qed

subsection \<open>The Content-Length scanner against the one of the keep-alive worker\<close>

lemma strcasestr_0:
  assumes "n \<noteq> []"
  shows "strcasestr h n = Some 0 \<longleftrightarrow> map tolower (take (length n) h) = map tolower n"
  using assms by (cases h) auto

lemma tolower_0 [simp]: "tolower c = 0 \<longleftrightarrow> c = 0"
  by (auto simp: tolower_def dest: eq_neg_iff_add_eq_0 [THEN iffD2])

lemma take_cstr_key:
  assumes "0 \<notin> set k"
  shows "map tolower (take (length k) (cstr l)) = k \<longleftrightarrow> map tolower (take (length k) l) = k"
  using assms
proof (induction k arbitrary: l)
  case (Cons y ys)
  show ?case
  proof (cases l)
    case (Cons x xs)
    with Cons.prems Cons.IH [of xs] show ?thesis by (auto simp: cstr_def)
  qed (simp add: cstr_def)
qed simp

text \<open>A header range that ends with a line feed: so does every line of it.\<close>

definition terminated :: "bytes \<Rightarrow> nat \<Rightarrow> bool" where
  "terminated p n = (n = 0 \<or> n \<le> length p \<and> p ! (n - 1) = LF)"

lemma line_len_LF:
  assumes "terminated p n" "0 < n"
  shows "line_len p n \<le> n \<and> n \<le> length p \<and> p ! (line_len p n - 1) = LF \<and> terminated (drop (line_len p n) p) (n - line_len p n)"
proof -
  have t: "n \<le> length p" "p ! (n - 1) = LF" using assms by (auto simp: terminated_def)
  have "LF \<in> set (take n p)"
    using t assms(2) by (auto simp: in_set_conv_nth intro!: exI [of _ "n - 1"])
  then obtain i where i: "memchr p LF n = Some i" using memchr_None [of p LF n] by auto
  then have l: "line_len p n = Suc i" "i < n" "p ! i = LF" using memchr_Some [OF i] by (auto simp: line_len_def)
  then have "drop (Suc i) p ! (n - Suc i - 1) = LF" if "Suc i < n"
  proof -
    have "drop (Suc i) p ! (n - Suc i - 1) = p ! (Suc i + (n - Suc i - 1))" using t that by (intro nth_drop) simp
    also have "Suc i + (n - Suc i - 1) = n - 1" using that by arith
    finally show ?thesis using t by simp
  qed
  with l t show ?thesis by (auto simp: terminated_def)
qed

lemma tm_line_agrees:
  assumes len: "0 < len \<Longrightarrow> len \<le> length line \<and> line ! (len - 1) = LF"
  shows "tm_line_length line len =
           (case ka_line_int64 line len (cs ''content-length:'') of
              None \<Rightarrow> None | Some v \<Rightarrow> if 0 \<le> v then Some v else None)"
proof -
  define key where "key = cs ''content-length:''"
  have key: "length key = 15" "map tolower key = key" "0 \<notin> set key" "LF \<notin> set key" "key \<noteq> []"
    by (auto simp: key_def cs_def tolower_def)
  have m1: "strcasestr (cstr line) key = Some 0 \<longleftrightarrow> map tolower (take 15 line) = key"
    using strcasestr_0 [OF key(5), of "cstr line"] take_cstr_key [OF key(3), of line] key(1,2) by simp
  have m2: "strncasecmp_eq line key 15 \<longleftrightarrow> map tolower (take 15 line) = key"
    using strncasecmp_eq_iff [OF key(3), of line] key(1,2) by simp
  have long: "15 \<le> len" if "map tolower (take 15 line) = key" "0 < len"
  proof (rule ccontr)
    assume "\<not> 15 \<le> len"
    then have "len - 1 < length (take 15 line)" using len [OF that(2)] that(2) by simp arith
    then have "key ! (len - 1) = LF"
      unfolding that(1) [symmetric] using len [OF that(2)] by (simp add: tolower_def)
    moreover have "len - 1 < length key" using \<open>\<not> 15 \<le> len\<close> key(1) by simp
    ultimately show False using key(4) nth_mem by metis
  qed
  show ?thesis
    using m1 m2 long key(1)
    unfolding tm_line_length_def ka_line_int64_def key_def [symmetric]
    by (auto simp: Let_def split_beta)
qed

lemma line_break_len_le: "line_break_len (take k p) \<le> k"
  using length_takeWhile_le [of "\<lambda>c. c = CR \<or> c = LF" "take k p"] by (simp add: line_break_len_def)

lemma tm_loop_agrees:
  "terminated p n \<Longrightarrow> 0 \<le> ka_parse_header_int64 p n (cs ''content-length:'') \<Longrightarrow>
     tm_content_length_loop p n = ka_parse_header_int64 p n (cs ''content-length:'')"
proof (induction p n rule: tm_content_length_loop.induct)
  case (1 p n)
  show ?case
  proof (cases "n = 0")
    case True
    with "1.prems" show ?thesis by (simp add: ka_parse_header_int64.simps)
  next
    case False
    define ll where "ll = line_len p n"
    define sk where "sk = line_break_len (take ll p)"
    note t = line_len_LF [OF "1.prems"(1), folded ll_def]
    have sk: "sk \<le> ll" by (simp add: sk_def line_break_len_le)
    have "0 < ll - sk \<Longrightarrow> ll - sk \<le> length (drop sk p) \<and> drop sk p ! (ll - sk - 1) = LF"
      using t False sk by (simp add: diff_le_mono)
    note agree = tm_line_agrees [OF this]
    have tm: "tm_content_length_loop p n = (case tm_line_length (drop sk p) (ll - sk) of
        Some v \<Rightarrow> v | None \<Rightarrow> tm_content_length_loop (drop ll p) (n - ll))"
      unfolding ll_def sk_def by (subst tm_content_length_loop.simps) (simp only: False if_False Let_def)
    have ka: "ka_parse_header_int64 p n (cs ''content-length:'') =
       (case ka_line_int64 (drop sk p) (ll - sk) (cs ''content-length:'') of
        Some v \<Rightarrow> v | None \<Rightarrow> ka_parse_header_int64 (drop ll p) (n - ll) (cs ''content-length:''))"
      unfolding ll_def sk_def by (subst ka_parse_header_int64.simps) (simp only: False if_False Let_def)
    show ?thesis
    proof (cases "ka_line_int64 (drop sk p) (ll - sk) (cs ''content-length:'')")
      case None
      with agree have n: "tm_line_length (drop sk p) (ll - sk) = None" by simp
      have "terminated (drop ll p) (n - ll)" using t False by simp
      with "1.IH" [OF False ll_def sk_def n] tm ka None n "1.prems"(2) show ?thesis by simp
    next
      case (Some v)
      with agree tm ka "1.prems"(2) show ?thesis by simp
    qed
  qed
qed

subsection \<open>The answer\<close>

lemma length_dec_u64: "length (dec_digits (unat (x :: u64))) \<le> 20"
proof -
  have "unat x < 2 ^ LENGTH(64)" by (rule unsigned_less)
  then show ?thesis by (intro length_dec_digits [of _ 19, simplified]) simp
qed

lemma length_dec_llong: "0 \<le> v \<Longrightarrow> v \<le> LLONG_MAX \<Longrightarrow> length (dec_digits (nat v)) \<le> 19"
  by (intro length_dec_digits [of _ 18, simplified]) (simp add: LLONG_MAX_def nat_less_iff)

lemma tm_json_length:
  assumes "0 \<le> cl" "cl \<le> LLONG_MAX" "int got \<le> cl"
  shows "length (tm_json t0 hns dns got cl) \<le> 250"
  using length_dec_llong [OF assms(1,2)] length_dec_llong [of "int got"] assms
    length_dec_u64 [of t0] length_dec_u64 [of hns] length_dec_u64 [of dns]
    length_dec_u64 [of "if t0 \<noteq> 0 then hns - t0 else 0"] length_dec_u64 [of "if t0 \<noteq> 0 then dns - t0 else 0"]
  by (simp add: tm_json_def dec_int_def)

lemma tm_response_length: "length json \<le> 250 \<Longrightarrow> length (tm_response json) < 1024"
  using length_dec_digits [of "length json" 2] by (simp add: tm_response_def)

lemma strtoll_max: "fst (strtoll v) \<le> LLONG_MAX"
  by (simp add: strtoll_def Let_def LLONG_MAX_def LLONG_MIN_def)

lemma tm_line_max: "tm_line_length line len = Some v \<Longrightarrow> v \<le> LLONG_MAX"
  using strtoll_max [of "drop (blank_len (take (len - 15) (drop 15 line))) (drop 15 line)"]
  by (auto simp: tm_line_length_def Let_def split_beta split: if_splits)

lemma tm_loop_max: "tm_content_length_loop p n \<le> LLONG_MAX"
proof (induction p n rule: tm_content_length_loop.induct)
  case (1 p n)
  show ?case
    using "1.IH" [OF _ refl refl] tm_line_max
    by (subst tm_content_length_loop.simps) (auto simp: Let_def LLONG_MAX_def split: option.split)
qed

lemma tm_content_length_range: "0 \<le> tm_content_length buf n \<and> tm_content_length buf n \<le> LLONG_MAX"
  using tm_loop_max [of buf n]
  by (auto simp: tm_content_length_def tm_parse_content_length_def LLONG_MAX_def)

subsection \<open>The worker as a step relation\<close>

text \<open>
  What is known of the next message, if a connection is waiting: it carries at most one descriptor, and when
  it is received the blob length is within the structure.  A receive that fails, finds the end of the stream or
  data without a descriptor, and one that gets a part of the payload, are steps like any other.
\<close>

definition gateway_message :: "'s world \<Rightarrow> bool" where
  "gateway_message w =
     (0 \<le> fst (unix_accept w) \<longrightarrow>
        one_descriptor (snd (unix_accept w))
      \<and> (case fst (recvfd_with_state SIZEOF_tm_payload (snd (unix_accept w))) of
           (r, f, d) \<Rightarrow> r = 0 \<longrightarrow> unat (ser_blob_sz (tm_serial
              (bytes_tm_payload (overwrite (zeros SIZEOF_tm_payload) d)))) \<le> 16384))"

inductive tm_step :: "'s wolfssl \<Rightarrow> crypto \<Rightarrow> bytes \<Rightarrow> 's world \<Rightarrow> 's world \<Rightarrow> bool"
  for L :: "'s wolfssl" and C :: crypto and name :: bytes where
  serve_one: "gateway_message w \<Longrightarrow> tm_step L C name w (tm_worker_round L C name w)"
| kernel_delivers: "tm_step L C name w (w\<lparr>script := as, rxq := q\<rparr>)"

inductive tm_reach :: "'s wolfssl \<Rightarrow> crypto \<Rightarrow> bytes \<Rightarrow> 's world \<Rightarrow> 's world \<Rightarrow> bool"
  for L :: "'s wolfssl" and C :: crypto and name :: bytes and w0 :: "'s world" where
  start: "tm_reach L C name w0 w0"
| step: "tm_reach L C name w0 w \<Longrightarrow> tm_step L C name w w' \<Longrightarrow> tm_reach L C name w0 w'"

inductive_cases tm_stepE: "tm_step L C name w w'"

lemma tm_step_keeps:
  assumes "tm_step L C name w w'" "fd_wf w" "ssl_wf w"
  shows "fd_wf w' \<and> ssl_wf w' \<and> set (fds w') = set (fds w) \<and> live w' = live w \<and> ub w' = ub w
       \<and> bad_closes (log w') = bad_closes (log w)"
proof -
  consider (serve) "w' = tm_worker_round L C name w" "gateway_message w" | (deliver) as q where "w' = w\<lparr>script := as, rxq := q\<rparr>"
    using assms(1) by (blast elim: tm_stepE)
  then show ?thesis
  proof cases
    case serve
    obtain r f d where m: "fst (recvfd_with_state SIZEOF_tm_payload (snd (unix_accept w))) = (r, f, d)"
      by (metis prod.exhaust)
    have g: "one_descriptor (snd (unix_accept w))"
      "r = 0 \<Longrightarrow> unat (ser_blob_sz (tm_serial (bytes_tm_payload (overwrite (zeros SIZEOF_tm_payload) d)))) \<le> 16384"
      if "0 \<le> fst (unix_accept w)"
      using serve(2) that unfolding gateway_message_def by (simp_all add: m)
    have "tidy w w' \<and> set (fds w') = set (fds w) \<and> fd_wf w' \<and> ssl_wf w'"
      unfolding serve(1) by (rule tm_round_effect [OF assms(2,3) g(1) m g(2)])
    then show ?thesis by (simp add: tidy_def)
  next
    case deliver
    with assms(2,3) show ?thesis by (simp add: fd_wf_def ssl_wf_def live_def)
  qed
qed

lemma tm_reach_keeps:
  "tm_reach L C name w0 w \<Longrightarrow> fd_wf w0 \<Longrightarrow> ssl_wf w0 \<Longrightarrow>
     fd_wf w \<and> ssl_wf w \<and> set (fds w) = set (fds w0) \<and> live w = live w0 \<and> ub w = ub w0
   \<and> bad_closes (log w) = bad_closes (log w0)"
proof (induction rule: tm_reach.induct)
  case (step w w')
  then show ?case using tm_step_keeps [OF step.hyps(2)] by simp
qed simp

definition zero_tm_payload :: tlsmigrate_payload where
  "zero_tm_payload = \<lparr>tm_magic = 0, tm_version = 0, tm_t0_ns = 0, tm_serial = zero_serial\<rparr>"

subsection \<open>Properties\<close>

text \<open>
  On a header that ends with its blank line, the scanner of the one-request worker reads the same
  Content-Length as the one of the keep-alive worker whenever that one finds a length.
\<close>

theorem tm_content_length_agrees:
  assumes "n \<le> length p" and "0 < n" and "p ! (n - 1) = LF" and "0 \<le> ka_parse_content_length p n"
  shows "tm_parse_content_length p n = ka_parse_content_length p n"
  using tm_loop_agrees [of p n] assms
  by (simp add: tm_parse_content_length_def ka_parse_content_length_def terminated_def)

theorem tm_content_length_agrees_witness:
  "tm_parse_content_length (cs ''content-LENGTH: 12'' @ [CR, LF, CR, LF]) 22 = 12"
proof -
  have "ka_parse_content_length (cs ''content-LENGTH: 12'' @ [CR, LF, CR, LF]) 22 = 12" by code_simp
  with tm_content_length_agrees [of 22 "cs ''content-LENGTH: 12'' @ [CR, LF, CR, LF]"]
  show ?thesis by (simp add: cs_def)
qed

text \<open>
  C32. Once the header is complete, only the connection decides: the worker fails when the body cannot be
  read, otherwise it writes the answer with exactly the announced number of body bytes in its report.  The
  two checks for a truncated print never strike: the answer fits its arrays for all values of the clock, of
  the payload and of the header.
\<close>

theorem tm_answer_always_fits:
  assumes "clock_ns w = (hns, w1)" and "cl = tm_content_length buf n"
    and "read_body L p (nat cl) (tm_already buf n) w1 = ((r, got), w2)" and "clock_ns w2 = (dns, w3)"
    and "resp = tm_response (tm_json t0 hns dns (nat cl) cl)"
  shows "tm_serve L p t0 buf n w = (if r \<noteq> 0 then (-1, w2) else write_all_tls L p resp w3)
       \<and> length resp < 1024"
proof -
  note cl = tm_content_length_range [of buf n, folded assms(2)]
  have al: "tm_already buf n \<le> nat cl" by (simp add: tm_already_def assms(2))
  have got: "r = 0 \<Longrightarrow> got = nat cl" using read_body_done [of L p "nat cl" "tm_already buf n" w1 got w2] assms(3) al by simp
  have j: "length (tm_json t0 hns dns (nat cl) cl) \<le> 250" using tm_json_length [of cl "nat cl"] cl by simp
  have rc: "fst (write_all_tls L p resp w3) = 0 \<or> fst (write_all_tls L p resp w3) = -1"
    using write_all_tls_output [of L p resp w3 "fst (write_all_tls L p resp w3)" "snd (write_all_tls L p resp w3)"] by auto
  have "tm_serve L p t0 buf n w = (if r \<noteq> 0 then (-1, w2)
      else (if fst (write_all_tls L p resp w3) \<noteq> 0 then -1 else 0, snd (write_all_tls L p resp w3)))"
    using got j tm_response_length [OF j]
    by (simp add: tm_serve_def assms(1,3,4) assms(2) [symmetric] tm_write_all_tls_def assms(5) split_beta)
  with rc tm_response_length [OF j] assms(5) show ?thesis by (auto simp: prod_eq_iff)
qed

theorem tm_answer_always_fits_witness:
  "fst (tm_serve echo_ssl 0 0 [LF, LF] 2 (body_world [Ok 5, Ok 6, Ok 500])) = 0
 \<and> length (tm_response (tm_json 0 5 6 0 0)) < 1024"
proof -
  let ?resp = "tm_response (tm_json 0 5 6 0 0)"
  have cl: "tm_content_length [LF, LF] 2 = 0" by code_simp
  have rb: "read_body echo_ssl 0 (nat 0) (tm_already [LF, LF] 2) (body_world [Ok 6, Ok 500]) =
      ((0, 0), body_world [Ok 6, Ok 500])"
    by (simp add: read_body.simps tm_already_def)
  have t: "tm_serve echo_ssl 0 0 [LF, LF] 2 (body_world [Ok 5, Ok 6, Ok 500]) =
      (if (0::int) \<noteq> 0 then (-1, body_world [Ok 6, Ok 500]) else write_all_tls echo_ssl 0 ?resp (body_world [Ok 500]))
      \<and> length ?resp < 1024"
    using tm_answer_always_fits [OF body_world_run(2) [of 5] cl [symmetric] rb body_world_run(2) [of 6] refl, of 0]
    by simp
  have "length ?resp \<le> 500" by code_simp
  then have "fst (write_all_tls echo_ssl 0 ?resp (body_world [Ok 500])) = 0"
    by (simp add: write_all_tls.simps wolfSSL_write_def next_answer_def body_world_def boot_def write_count_def
        ssl_modify_def echo_ssl_def emit_def)
  with t show ?thesis by simp
qed

end
