(* ===== verification/FnStart.thy ===== *)
theory FnStart
  imports Startup KaWorker TmWorker
begin

text \<open>
  The start of the two function workers (\<^verbatim>\<open>main\<close> of \<^verbatim>\<open>timing_fn_worker.c\<close> and \<^verbatim>\<open>timing_fn_keepalive_worker.c\<close>) and
  of the gateway library (\<^verbatim>\<open>tlsmigratekeepalive_new_ctx\<close>), and the loops of the two workers from their start on.  The
  environment of the process is a function from names to values.
\<close>

subsection \<open>The environment and the socket\<close>

text \<open>A variable that is not set or empty leaves the default.\<close>

definition env_or :: "(bytes \<Rightarrow> bytes option) \<Rightarrow> bytes \<Rightarrow> bytes \<Rightarrow> bytes" where
  "env_or getenv name preset =
     (case getenv name of None \<Rightarrow> preset | Some v \<Rightarrow> if cstr v = [] then preset else cstr v)"

definition env_socket_dir :: "(bytes \<Rightarrow> bytes option) \<Rightarrow> bytes" where
  "env_socket_dir getenv = env_or getenv (cs ''TLSMIGRATE_SOCKET_DIR'') (cs ''/run/tlsmigrate'')"

text \<open>The path is printed into an array of 256 bytes.\<close>

definition fn_sock_path :: "bytes \<Rightarrow> bytes \<Rightarrow> bytes" where
  "fn_sock_path socket_dir function_name = take 255 (socket_dir @ cs ''/'' @ function_name @ cs ''.sock'')"

text \<open>A call on a path that is recorded when it succeeds.\<close>

definition sys_path :: "event \<Rightarrow> 's world \<Rightarrow> int \<times> 's world" where
  "sys_path e w = (let (r, w) = sys_status w in (r, if r < 0 then w else emit e w))"

text \<open>The directory may exist; if it does not and cannot be made, the worker goes on without it.\<close>

definition fn_directory :: "bytes \<Rightarrow> 's world \<Rightarrow> 's world" where
  "fn_directory socket_dir w =
     (let (r, w) = sys_path (EvMkdir socket_dir) w
      in if r \<noteq> 0 \<and> errno w \<noteq> EEXIST then w else snd (sys_path (EvChmod socket_dir) w))"

text \<open>Context, certificate and key (which may be missing), the listener; the exit code when one is not to be had.\<close>

definition fn_listen :: "bytes \<Rightarrow> 's world \<Rightarrow> (int + int) \<times> 's world" where
  "fn_listen sock_path w =
     (let (wctx, w) = sys_alloc w
      in if \<not> wctx then (Inl 1, w)
         else
           (let (_, w) = sys_status w;
                (_, w) = sys_status w;
                (listen_fd, w) = unix_server_socket sock_path w
            in if listen_fd < 0 then (Inl 1, w) else (Inr listen_fd, snd (sys_path (EvChmod sock_path) w))))"

text \<open>\<^verbatim>\<open>main\<close> of the one-request worker: the name of its function and its listener.\<close>

definition tm_start :: "(bytes \<Rightarrow> bytes option) \<Rightarrow> 's world \<Rightarrow> (int + bytes \<times> int) \<times> 's world" where
  "tm_start getenv w =
     (let socket_dir = env_socket_dir getenv;
          function_name = env_or getenv (cs ''TLSMIGRATE_FUNCTION_NAME'') (cs ''timing-fn'');
          (r, w) = fn_listen (fn_sock_path socket_dir function_name) (fn_directory socket_dir w)
      in (map_sum id (Pair function_name) r, w))"

text \<open>\<^verbatim>\<open>main\<close> of the keep-alive worker: its function, the socket of the gateway for what is not its own, its listener.\<close>

definition ka_start :: "(bytes \<Rightarrow> bytes option) \<Rightarrow> 's world \<Rightarrow> (int + bytes \<times> bytes \<times> int) \<times> 's world" where
  "ka_start getenv w =
     (let socket_dir = env_socket_dir getenv;
          function_name = env_or getenv (cs ''TLSMIGRATE_FUNCTION_NAME'') (cs ''timing-ka-a'');
          relay_socket = env_or getenv (cs ''TLSMIGRATE_RELAY_SOCKET'') (cs ''/run/tlsmigrate/keepalive-relay.sock'');
          (r, w) = fn_listen (fn_sock_path socket_dir function_name) (fn_directory socket_dir w)
      in (map_sum id (\<lambda>listen_fd. (function_name, relay_socket, listen_fd)) r, w))"

subsection \<open>The context of the gateway library\<close>

text \<open>
  The blocks of memory and the wolfSSL contexts that a call has taken and not released.
\<close>

record held =
  blocks :: int
  wctxs :: int

text \<open>Files that are not named, and each step that may fail; a context is returned or everything given back.\<close>

definition tlsmigratekeepalive_new_ctx ::
  "bytes option \<Rightarrow> bytes option \<Rightarrow> held \<Rightarrow> 's world \<Rightarrow> (bool \<times> held) \<times> 's world" where
  "tlsmigratekeepalive_new_ctx cert_file key_file h w =
     (if cert_file = None \<or> key_file = None then ((False, h), w)
      else
        (let (ctx, w) = sys_alloc w
         in if \<not> ctx then ((False, h), w)
            else
              (let h = h\<lparr>blocks := blocks h + 1\<rparr>; (wctx, w) = sys_alloc w
               in if \<not> wctx then ((False, h\<lparr>blocks := blocks h - 1\<rparr>), w)
                  else
                    (let h = h\<lparr>wctxs := wctxs h + 1\<rparr>; (cert, w) = sys_status w
                     in if cert \<noteq> 0 then ((False, h\<lparr>wctxs := wctxs h - 1, blocks := blocks h - 1\<rparr>), w)
                        else
                          (let (key, w) = sys_status w
                           in if key \<noteq> 0 then ((False, h\<lparr>wctxs := wctxs h - 1, blocks := blocks h - 1\<rparr>), w)
                              else ((True, h), w))))))"

text \<open>Releasing it: the argument says whether there is a structure and whether it holds a context.\<close>

definition tlsmigratekeepalive_free_ctx :: "bool option \<Rightarrow> held \<Rightarrow> held" where
  "tlsmigratekeepalive_free_ctx ctx h =
     (case ctx of
        None \<Rightarrow> h
      | Some wctx \<Rightarrow>
          (let h = (if wctx then h\<lparr>wctxs := wctxs h - 1\<rparr> else h) in h\<lparr>blocks := blocks h - 1\<rparr>))"

lemma new_ctx_all_or_nothing:
  "fst (tlsmigratekeepalive_new_ctx c k h w) =
     (fst (fst (tlsmigratekeepalive_new_ctx c k h w)),
      if fst (fst (tlsmigratekeepalive_new_ctx c k h w)) then h\<lparr>blocks := blocks h + 1, wctxs := wctxs h + 1\<rparr> else h)"
  by (simp add: tlsmigratekeepalive_new_ctx_def Let_def split_beta)

lemma new_ctx_frame:
  "fds (snd (tlsmigratekeepalive_new_ctx c k h w)) = fds w" "log (snd (tlsmigratekeepalive_new_ctx c k h w)) = log w"
  "live (snd (tlsmigratekeepalive_new_ctx c k h w)) = live w" "ub (snd (tlsmigratekeepalive_new_ctx c k h w)) = ub w"
  by (simp_all add: tlsmigratekeepalive_new_ctx_def Let_def split_beta)

text \<open>A context that was made and freed leaves nothing; so does one that was not made.\<close>

lemma free_ctx_new_ctx:
  "tlsmigratekeepalive_new_ctx c k h w = ((ok, h'), w') \<Longrightarrow>
     tlsmigratekeepalive_free_ctx (if ok then Some True else None) h' = h"
  using new_ctx_all_or_nothing [of c k h w] by (simp add: tlsmigratekeepalive_free_ctx_def split: if_splits)

subsection \<open>What starting opens\<close>

lemma sys_path_frame:
  "fds (snd (sys_path e w)) = fds w" "live (snd (sys_path e w)) = live w" "ub (snd (sys_path e w)) = ub w"
  "next_ssl (snd (sys_path e w)) = next_ssl w"
  "\<forall>fd. e \<noteq> EvBadClose fd \<Longrightarrow> bad_closes (log (snd (sys_path e w))) = bad_closes (log w)"
  "set (log w) \<subseteq> set (log (snd (sys_path e w)))"
  by (auto simp: sys_path_def split_beta split: event.split)

lemma fn_directory_frame:
  "fds (fn_directory d w) = fds w" "live (fn_directory d w) = live w" "ub (fn_directory d w) = ub w"
  "next_ssl (fn_directory d w) = next_ssl w" "bad_closes (log (fn_directory d w)) = bad_closes (log w)"
  by (simp_all add: fn_directory_def split_beta sys_path_frame)

lemma fn_listen_effect:
  assumes "fn_listen p w = (r, w')"
  shows "live w' = live w \<and> next_ssl w' = next_ssl w \<and> ub w' = ub w \<and> bad_closes (log w') = bad_closes (log w)
       \<and> (case r of Inl c \<Rightarrow> c = 1 \<and> fds w' = fds w
          | Inr l \<Rightarrow> 0 \<le> l \<and> l \<notin> set (fds w) \<and> fds w' = l # fds w \<and> EvListen l (sun_path p) \<in> set (log w'))"
proof -
  define v where "v = snd (sys_status (snd (sys_status (snd (sys_alloc w)))))"
  have v: "fds v = fds w" "live v = live w" "next_ssl v = next_ssl w" "ub v = ub w" "log v = log w" by (simp_all add: v_def)
  define l where "l = fst (unix_server_socket p v)"
  define u where "u = snd (unix_server_socket p v)"
  have o: "opens l v u" unfolding l_def u_def by (rule unix_server_socket_opens)
  have e: "fn_listen p w =
      (if \<not> fst (sys_alloc w) then (Inl 1, snd (sys_alloc w)) else if l < 0 then (Inl 1, u)
       else (Inr l, snd (sys_path (EvChmod p) u)))"
    by (simp add: fn_listen_def Let_def split_beta v_def l_def u_def)
  consider "r = Inl 1" "w' = snd (sys_alloc w)" | "l < 0" "r = Inl 1" "w' = u"
    | "0 \<le> l" "r = Inr l" "w' = snd (sys_path (EvChmod p) u)"
    using assms e by (auto split: if_splits)
  then show ?thesis
  proof cases
    case 2
    then show ?thesis using o v by (simp add: opens_def)
  next
    case 3
    have "EvListen l (sun_path p) \<in> set (log u)"
      using unix_server_socket_listens [of p v] 3(1) by (simp add: l_def u_def)
    then have "EvListen l (sun_path p) \<in> set (log w')" using sys_path_frame(6) [of u] 3(3) by blast
    then show ?thesis using 3 o v by (simp add: opens_def sys_path_frame)
  qed simp
qed

text \<open>A start of either worker.\<close>

definition starts_at :: "bytes \<Rightarrow> int \<Rightarrow> 's world \<Rightarrow> 's world \<Rightarrow> bool" where
  "starts_at path l w w' =
     (0 \<le> l \<and> l \<notin> set (fds w) \<and> fds w' = l # fds w \<and> live w' = live w \<and> next_ssl w' = next_ssl w \<and> ub w' = ub w
    \<and> bad_closes (log w') = bad_closes (log w) \<and> EvListen l (sun_path path) \<in> set (log w'))"

lemma fn_start_effect:
  assumes "fn_listen p (fn_directory d w) = (Inr l, w')"
  shows "starts_at p l w w'"
  using fn_listen_effect [OF assms] by (simp add: starts_at_def fn_directory_frame)

lemma tm_start_effect:
  assumes "tm_start getenv w = (Inr (name, l), w')"
  shows "starts_at (fn_sock_path (env_socket_dir getenv) name) l w w'"
proof -
  obtain r v where q: "fn_listen (fn_sock_path (env_socket_dir getenv)
      (env_or getenv (cs ''TLSMIGRATE_FUNCTION_NAME'') (cs ''timing-fn''))) (fn_directory (env_socket_dir getenv) w) = (r, v)"
    by fastforce
  with assms have "r = Inr l" "v = w'" "name = env_or getenv (cs ''TLSMIGRATE_FUNCTION_NAME'') (cs ''timing-fn'')"
    by (cases r; simp add: tm_start_def Let_def)+
  with q show ?thesis using fn_start_effect by blast
qed

lemma ka_start_effect:
  assumes "ka_start getenv w = (Inr (name, relay, l), w')"
  shows "starts_at (fn_sock_path (env_socket_dir getenv) name) l w w'"
proof -
  obtain r v where q: "fn_listen (fn_sock_path (env_socket_dir getenv)
      (env_or getenv (cs ''TLSMIGRATE_FUNCTION_NAME'') (cs ''timing-ka-a''))) (fn_directory (env_socket_dir getenv) w) = (r, v)"
    by fastforce
  with assms have "r = Inr l" "v = w'" "name = env_or getenv (cs ''TLSMIGRATE_FUNCTION_NAME'') (cs ''timing-ka-a'')"
    by (cases r; simp add: ka_start_def Let_def)+
  with q show ?thesis using fn_start_effect by blast
qed

lemma failed_fn_start_clean:
  "fst (tm_start getenv w) = Inl c \<Longrightarrow> c = 1 \<and> fds (snd (tm_start getenv w)) = fds w"
  "fst (ka_start getenv w) = Inl c \<Longrightarrow> c = 1 \<and> fds (snd (ka_start getenv w)) = fds w"
proof -
  have f: "fst (fn_listen p (fn_directory d w)) = Inl c \<Longrightarrow> c = 1 \<and> fds (snd (fn_listen p (fn_directory d w))) = fds w" for p d
    using fn_listen_effect [OF surjective_pairing, of p "fn_directory d w"] by (simp add: fn_directory_frame)
  have m: "map_sum id g x = Inl c \<longleftrightarrow> x = Inl c" for g :: "int \<Rightarrow> 'b" and x :: "int + int" by (cases x) simp_all
  have m': "map_sum id g x = Inl c \<longleftrightarrow> x = Inl c" for g :: "int \<Rightarrow> 'c" and x :: "int + int" by (cases x) simp_all
  show "fst (tm_start getenv w) = Inl c \<Longrightarrow> c = 1 \<and> fds (snd (tm_start getenv w)) = fds w"
    "fst (ka_start getenv w) = Inl c \<Longrightarrow> c = 1 \<and> fds (snd (ka_start getenv w)) = fds w"
    using f by (simp_all add: tm_start_def ka_start_def Let_def split_beta m m')
qed

subsection \<open>The keep-alive worker as a step relation\<close>

text \<open>
  What is known of the next message is what is known for the one-request worker: at most one descriptor, and a
  blob within the structure when it is received.  A receive may fail, end or bring a part only.
\<close>

definition ka_gateway_message :: "'s world \<Rightarrow> bool" where
  "ka_gateway_message w =
     (0 \<le> fst (unix_accept w) \<longrightarrow>
        one_descriptor (snd (unix_accept w))
      \<and> (case fst (recvfd_with_state SIZEOF_payload (snd (unix_accept w))) of
           (r, f, d) \<Rightarrow> r = 0 \<longrightarrow> unat (ser_blob_sz (pl_serial
              (bytes_payload (overwrite (zeros SIZEOF_payload) d)))) \<le> 16384))"

text \<open>The failed relays of a round: those of the session it serves, if it gets to one.\<close>

definition round_failed_relays :: "'s wolfssl \<Rightarrow> crypto \<Rightarrow> bytes \<Rightarrow> bytes \<Rightarrow> 's world \<Rightarrow> nat" where
  "round_failed_relays L C name relay w =
     (case unix_accept w of
        (conn_fd, w1) \<Rightarrow>
          (case recvfd_with_state SIZEOF_payload w1 of
             ((r, f, d), w2) \<Rightarrow>
               (let pl = bytes_payload (overwrite (zeros SIZEOF_payload) d)
                in if conn_fd < 0 \<or> r \<noteq> 0 \<or> pl_magic pl \<noteq> TLSMIGRATE_KEEPALIVE_MAGIC
                      \<or> pl_version pl \<noteq> TLSMIGRATE_KEEPALIVE_VERSION then 0
                   else session_failed_relays L C (the f) pl name relay (close conn_fd w2))))"

text \<open>A step, with the number of relays that fail in it.\<close>

inductive ka_step :: "'s wolfssl \<Rightarrow> crypto \<Rightarrow> bytes \<Rightarrow> bytes \<Rightarrow> 's world \<Rightarrow> nat \<Rightarrow> 's world \<Rightarrow> bool"
  for L :: "'s wolfssl" and C :: crypto and name relay :: bytes where
  ka_serve_one: "ka_gateway_message w \<Longrightarrow>
     ka_step L C name relay w (round_failed_relays L C name relay w) (ka_worker_round L C name relay w)"
| ka_kernel_delivers: "ka_step L C name relay w 0 (w\<lparr>script := as, rxq := q\<rparr>)"

text \<open>Reachable states, with the number of relays that failed on the way.\<close>

inductive ka_reach :: "'s wolfssl \<Rightarrow> crypto \<Rightarrow> bytes \<Rightarrow> bytes \<Rightarrow> 's world \<Rightarrow> nat \<Rightarrow> 's world \<Rightarrow> bool"
  for L :: "'s wolfssl" and C :: crypto and name relay :: bytes and w0 :: "'s world" where
  ka_begin: "ka_reach L C name relay w0 0 w0"
| ka_next: "ka_reach L C name relay w0 k w \<Longrightarrow> ka_step L C name relay w n w' \<Longrightarrow> ka_reach L C name relay w0 (k + n) w'"

inductive_cases ka_stepE: "ka_step L C name relay w n w'"

lemma ka_round_keeps:
  assumes "ka_gateway_message w" and wf: "fd_wf w" "ssl_wf w"
  shows "fd_wf (ka_worker_round L C name relay w) \<and> ssl_wf (ka_worker_round L C name relay w)
       \<and> set (fds (ka_worker_round L C name relay w)) = set (fds w)
       \<and> live (ka_worker_round L C name relay w) = live w \<and> ub (ka_worker_round L C name relay w) = ub w
       \<and> bad_closes (log (ka_worker_round L C name relay w)) = bad_closes (log w) + round_failed_relays L C name relay w"
proof (cases "fst (unix_accept w) < 0")
  case True
  then have "ka_worker_round L C name relay w = snd (unix_accept w)" "round_failed_relays L C name relay w = 0"
    by (simp_all add: ka_worker_round_def round_failed_relays_def split_beta Let_def)
  with True wf show ?thesis by (simp add: fd_wf_def ssl_wf_def)
next
  case False
  define c where "c = fst (unix_accept w)"
  obtain r f d v where q: "recvfd_with_state SIZEOF_payload (snd (unix_accept w)) = ((r, f, d), v)" by (metis prod.exhaust)
  define pl where "pl = bytes_payload (overwrite (zeros SIZEOF_payload) d)"
  have m: "one_descriptor (snd (unix_accept w))" "r = 0 \<Longrightarrow> unat (ser_blob_sz (pl_serial pl)) \<le> 16384"
    using assms(1) False q by (simp_all add: ka_gateway_message_def pl_def)
  have v: "live v = live w" "ub v = ub w" "log v = log w" "next_ssl v = next_ssl w" "c \<notin> set (fds w)" "0 \<le> c"
    using recvfd_frame [of SIZEOF_payload "snd (unix_accept w)"] unix_accept_fresh [of w] False
    unfolding q by (simp_all add: c_def)
  show ?thesis
  proof (cases "r = 0")
    case refused: False
    have "0 < SIZEOF_payload" by (simp add: SIZEOF_payload_def)
    with refused have "fds v = c # fds w"
      using recvfd_failed [OF _ m(1), of SIZEOF_payload] False by (simp add: q c_def)
    moreover have "ka_worker_round L C name relay w = close c v" "round_failed_relays L C name relay w = 0"
      using refused False q by (simp_all add: ka_worker_round_def round_failed_relays_def split_beta c_def Let_def)
    ultimately show ?thesis using v wf by (simp add: fd_wf_def ssl_wf_def)
  next
    case True
    obtain fd where fd: "f = Some fd" "0 \<le> fd" "fd \<notin> set (fds (snd (unix_accept w)))"
      "fds v = fd # fds (snd (unix_accept w))"
      using recvfd_ok [of SIZEOF_payload "snd (unix_accept w)" f d] q True by auto
    have fv: "fds v = fd # c # fds w" "fd \<noteq> c" "fd \<notin> set (fds w)" using fd False by (simp_all add: c_def)
    define u where "u = close c v"
    have u: "live u = live w" "ub u = ub w" "bad_closes (log u) = bad_closes (log w)" "fds u = fd # fds w"
      "fd_wf u" "ssl_wf u"
      using v fv wf by (simp_all add: u_def fd_wf_def ssl_wf_def)
    have e: "ka_worker_round L C name relay w =
        (if pl_magic pl \<noteq> TLSMIGRATE_KEEPALIVE_MAGIC \<or> pl_version pl \<noteq> TLSMIGRATE_KEEPALIVE_VERSION then close fd u
         else snd (process_session L C fd pl name relay u))"
      using False q True fd by (simp add: ka_worker_round_def split_beta Let_def u_def c_def pl_def)
    have n: "round_failed_relays L C name relay w =
        (if pl_magic pl \<noteq> TLSMIGRATE_KEEPALIVE_MAGIC \<or> pl_version pl \<noteq> TLSMIGRATE_KEEPALIVE_VERSION then 0
         else session_failed_relays L C fd pl name relay u)"
      using False q True fd by (simp add: round_failed_relays_def split_beta Let_def u_def c_def pl_def)
    show ?thesis
    proof (cases "pl_magic pl \<noteq> TLSMIGRATE_KEEPALIVE_MAGIC \<or> pl_version pl \<noteq> TLSMIGRATE_KEEPALIVE_VERSION")
      case True
      with u wf fv show ?thesis by (simp add: e n fd_wf_def ssl_wf_def)
    next
      case False
      have pre: "fd \<in> set (fds u)" "set (fds u) - {fd} = set (fds w)" using u fv by auto
      from process_session_effect [OF pre(1) fd(2) u(5,6) m(2) [OF True], of L C name relay] False u pre(2)
      show ?thesis by (simp add: e n)
    qed
  qed
qed

lemma ka_reach_keeps:
  "ka_reach L C name relay w0 k w \<Longrightarrow> fd_wf w0 \<Longrightarrow> ssl_wf w0 \<Longrightarrow>
     fd_wf w \<and> ssl_wf w \<and> set (fds w) = set (fds w0) \<and> live w = live w0 \<and> ub w = ub w0
   \<and> bad_closes (log w) = bad_closes (log w0) + k"
proof (induction rule: ka_reach.induct)
  case (ka_next k w n w')
  note ih = ka_next.IH [OF ka_next.prems]
  consider (serve) "w' = ka_worker_round L C name relay w" "n = round_failed_relays L C name relay w" "ka_gateway_message w"
    | (deliver) as q where "w' = w\<lparr>script := as, rxq := q\<rparr>" "n = 0"
    using ka_next.hyps(2) by (blast elim: ka_stepE)
  then show ?case
  proof cases
    case serve
    have "fd_wf w" "ssl_wf w" using ih by simp_all
    from ka_round_keeps [OF serve(3) this, of L C name relay] ih show ?thesis unfolding serve(1,2) by simp
  next
    case deliver
    with ih show ?thesis by (simp add: fd_wf_def ssl_wf_def live_def)
  qed
qed simp

text \<open>A worker that gets the message whole serves its session.\<close>

lemma ka_worker_serves_message:
  assumes wf: "payload_wf pl" and magic: "pl_magic pl = TLSMIGRATE_KEEPALIVE_MAGIC" "pl_version pl = TLSMIGRATE_KEEPALIVE_VERSION"
    and sc: "script v = Ok 0 # Msg (payload_bytes pl) (Some fd_cmsg) False # as"
  shows "\<exists>fd u. fd \<notin> set (fds v) \<and> fds u = fd # fds v \<and> live u = live v \<and> script u = as
       \<and> ka_worker_round L C name relay v = snd (process_session L C fd pl name relay u)"
proof -
  let ?d = "payload_bytes pl"
  define c where "c = lowest_free (fds v)"
  define f where "f = lowest_free (c # fds v)"
  define v2 where "v2 = v\<lparr>script := as, fds := f # c # fds v\<rparr>"
  have c: "c \<notin> set (fds v)" "0 \<le> c" using lowest_free_fresh [of "fds v"] by (simp_all add: c_def)
  have f: "f \<notin> set (c # fds v)" "0 \<le> f" using lowest_free_fresh [of "c # fds v"] by (simp_all add: f_def)
  have d: "length ?d = SIZEOF_payload" "?d \<noteq> []" "0 < SIZEOF_payload" using length_payload_bytes [OF wf] by (auto simp: SIZEOF_payload_def)
  have rights: "rights_count (Some fd_cmsg) = Suc 0" by (simp add: rights_count_def fd_cmsg_def CMSG_LEN_int_def)
  have fc: "cmsg_level fd_cmsg = SOL_SOCKET" "cmsg_type fd_cmsg = SCM_RIGHTS" "cmsg_len fd_cmsg = CMSG_LEN_int"
    by (simp_all add: fd_cmsg_def)
  have acc: "unix_accept v = (c, v\<lparr>script := Msg ?d (Some fd_cmsg) False # as, fds := c # fds v\<rparr>)"
    using sc c by (simp add: unix_accept_def sys_newfd_def next_answer_def Let_def c_def)
  have rc: "recvfd_with_state SIZEOF_payload (snd (unix_accept v)) = ((0, Some f, ?d), v2)"
    using d fc by (simp add: acc recvfd_with_state_def recvmsg_def next_answer_def rights f_def [symmetric] v2_def)
  have "bytes_payload (overwrite (zeros SIZEOF_payload) ?d) = pl"
    using d by (simp add: overwrite_full bytes_payload_payload_bytes [OF wf])
  then have "ka_worker_round L C name relay v = snd (process_session L C f pl name relay (close c v2))"
    using c f magic rc by (simp add: ka_worker_round_def acc split_beta Let_def)
  moreover have "fds (close c v2) = f # fds v" "live (close c v2) = live v" "script (close c v2) = as"
    using f by (simp_all add: v2_def close_def emit_def live_def)
  ultimately show ?thesis using f by (metis list.set_intros(2) )
qed

subsection \<open>Properties\<close>

text \<open>
  C14. The one-request worker from its start on: when it starts, it listens at the path its directory and its function
  give, and whatever the connections send and whichever calls fail, receiving a message included, after any number of
  rounds it holds the listener and what it started with, has closed nothing twice and has overrun no buffer.  Of a
  message only that is assumed which the gateways keep to: at most one descriptor, and a blob length within the structure.
\<close>

theorem tm_service_safe:
  assumes "tm_start getenv w = (Inr (name, l), w1)" and "tm_reach L C name w1 w2" and "fd_wf w" and "ssl_wf w"
  shows "EvListen l (sun_path (fn_sock_path (env_socket_dir getenv) name)) \<in> set (log w1)
       \<and> set (fds w2) = insert l (set (fds w)) \<and> live w2 = live w \<and> ub w2 = ub w
       \<and> bad_closes (log w2) = bad_closes (log w)"
proof -
  note s = tm_start_effect [OF assms(1), unfolded starts_at_def]
  have "fd_wf w1" "ssl_wf w1" using s assms(3,4) by (simp_all add: fd_wf_def ssl_wf_def)
  from tm_reach_keeps [OF assms(2) this] s show ?thesis by simp
qed

text \<open>
  C9. The keep-alive worker from its start on: it holds the listener and what it started with after any number of rounds,
  in which a message may fail to arrive, arrive in part, be refused, or start a session that is served to its end,
  relayed, or broken off; no freed session is used and no buffer overrun.  The descriptors it closes when they are not
  open are exactly as many as its failed relays, one for each.  Of a message only that is assumed which the
  senders keep to: at most one descriptor, and a blob length within the structure.
\<close>

theorem ka_service_safe:
  assumes "ka_start getenv w = (Inr (name, relay, l), w1)" and "ka_reach L C name relay w1 k w2" and "fd_wf w" and "ssl_wf w"
  shows "EvListen l (sun_path (fn_sock_path (env_socket_dir getenv) name)) \<in> set (log w1)
       \<and> set (fds w2) = insert l (set (fds w)) \<and> live w2 = live w \<and> ub w2 = ub w
       \<and> bad_closes (log w2) = bad_closes (log w) + k"
proof -
  note s = ka_start_effect [OF assms(1), unfolded starts_at_def]
  have "fd_wf w1" "ssl_wf w1" using s assms(3,4) by (simp_all add: fd_wf_def ssl_wf_def)
  from ka_reach_keeps [OF assms(2) this] s show ?thesis by simp
qed

text \<open>A start in which every call succeeds, and a first message of the gateway with the wrong magic.\<close>

definition fn_world :: "answer list \<Rightarrow> bytes world" where
  "fn_world as = boot (replicate 10 (Ok 0) @ as)"

definition no_env :: "bytes \<Rightarrow> bytes option" where
  "no_env = (\<lambda>_. None)"

lemma fn_listen_world:
  "\<exists>w1. fn_listen p (fn_directory d (fn_world as)) = (Inr 0, w1) \<and> script w1 = as \<and> fds w1 = [0]"
proof -
  have r: "replicate 10 (Ok 0) = [Ok 0, Ok 0, Ok 0, Ok 0, Ok 0, Ok 0, Ok 0, Ok 0, Ok 0, Ok 0]"
    by (simp add: numeral_eq_Suc)
  show ?thesis
    by (simp add: fn_listen_def fn_directory_def fn_world_def r sys_path_def sys_status_def sys_alloc_def next_answer_def
        unix_server_socket_def sys_newfd_def lowest_free_def emit_def Let_def boot_def)
qed

theorem tm_service_safe_witness:
  "\<exists>w1. set (fds (tm_worker_round echo_ssl clear_crypto (cs ''timing-fn'') w1)) = {0}
      \<and> tm_start no_env (fn_world [Ok 0, Msg (tm_payload_bytes zero_tm_payload) (Some fd_cmsg) False])
        = (Inr (cs ''timing-fn'', 0), w1)"
proof -
  let ?d = "tm_payload_bytes zero_tm_payload"
  let ?w = "fn_world [Ok 0, Msg ?d (Some fd_cmsg) False]"
  obtain w1 where w1: "tm_start no_env ?w = (Inr (cs ''timing-fn'', 0), w1)" "script w1 = [Ok 0, Msg ?d (Some fd_cmsg) False]"
    "fds w1 = [0]"
    using fn_listen_world [of "fn_sock_path (env_socket_dir no_env) (cs ''timing-fn'')" "env_socket_dir no_env"
        "[Ok 0, Msg ?d (Some fd_cmsg) False]"]
    by (auto simp: tm_start_def Let_def env_or_def no_env_def)
  have wf: "tm_payload_wf zero_tm_payload" by (simp add: tm_payload_wf_def zero_tm_payload_def)
  note len = length_tm_payload_bytes [OF wf]
  have b: "ser_blob_sz (tm_serial (bytes_tm_payload (overwrite (zeros SIZEOF_tm_payload) ?d))) = 0"
    using len by (simp add: overwrite_full bytes_tm_payload_roundtrip [OF wf])
      (simp add: zero_tm_payload_def zero_serial_def)
  have pos: "0 < SIZEOF_tm_payload" by (simp add: SIZEOF_tm_payload_def)
  have ne: "?d \<noteq> []" using len pos by auto
  have "gateway_message w1"
    using w1 b len ne pos by (simp add: gateway_message_def one_descriptor_def unix_accept_def sys_newfd_def lowest_free_def recvfd_with_state_def
        recvmsg_def next_answer_def rights_count_def fd_cmsg_def CMSG_LEN_int_def split_beta Let_def)
  from tm_service_safe [OF w1(1) tm_reach.step [OF tm_reach.start tm_step.serve_one [OF this]]] w1(1)
  show ?thesis by (simp add: fd_wf_def ssl_wf_def fn_world_def)
qed

theorem ka_service_safe_witness:
  "\<exists>w1. set (fds (ka_worker_round echo_ssl clear_crypto (cs ''timing-ka-a'') (cs ''/run/tlsmigrate/keepalive-relay.sock'') w1)) = {0}
      \<and> ka_start no_env (fn_world [Ok 0, Msg (payload_bytes zero_payload) (Some fd_cmsg) False])
        = (Inr (cs ''timing-ka-a'', cs ''/run/tlsmigrate/keepalive-relay.sock'', 0), w1)"
proof -
  let ?d = "payload_bytes zero_payload"
  let ?w = "fn_world [Ok 0, Msg ?d (Some fd_cmsg) False]"
  obtain w1 where w1: "ka_start no_env ?w = (Inr (cs ''timing-ka-a'', cs ''/run/tlsmigrate/keepalive-relay.sock'', 0), w1)"
    "script w1 = [Ok 0, Msg ?d (Some fd_cmsg) False]" "fds w1 = [0]"
    using fn_listen_world [of "fn_sock_path (env_socket_dir no_env) (cs ''timing-ka-a'')" "env_socket_dir no_env"
        "[Ok 0, Msg ?d (Some fd_cmsg) False]"]
    by (auto simp: ka_start_def Let_def env_or_def no_env_def)
  note len = length_payload_bytes [OF payload_wf_zero]
  have b: "ser_blob_sz (pl_serial (bytes_payload (overwrite (zeros SIZEOF_payload) ?d))) = 0"
    using len by (simp add: overwrite_full bytes_payload_payload_bytes) (simp add: zero_payload_def zero_serial_def)
  have pos: "0 < SIZEOF_payload" by (simp add: SIZEOF_payload_def)
  have ne: "?d \<noteq> []" using len pos by auto
  have "ka_gateway_message w1"
    using w1 b len ne pos by (simp add: ka_gateway_message_def one_descriptor_def unix_accept_def sys_newfd_def lowest_free_def recvfd_with_state_def
        recvmsg_def next_answer_def rights_count_def fd_cmsg_def CMSG_LEN_int_def split_beta Let_def)
  from ka_service_safe [OF w1(1) ka_reach.ka_next [OF ka_reach.ka_begin ka_step.ka_serve_one [OF this]]] w1(1)
  show ?thesis by (simp add: fd_wf_def ssl_wf_def fn_world_def)
qed

end
