(* ===== verification/HotPotato.thy ===== *)
theory HotPotato
  imports Worker
begin

text \<open>
  \<^verbatim>\<open>faad_optimization-Romero_New\<close>: the predecessor of the program.  Its gateway reads the first request,
  parses it and passes connection, session and parsed parameters to the worker of the function; a worker
  serves requests on the connection until one names the other function, and passes the connection back to
  the gateway (\<^verbatim>\<open>gateway.c\<close>, \<^verbatim>\<open>worker_sum.c\<close>, \<^verbatim>\<open>worker_product.c\<close>, \<^verbatim>\<open>common.h\<close>).  \<^verbatim>\<open>classic_proxy.c\<close> is the
  baseline without migration.

  A null session pointer is an \<open>option\<close>: the library's calls refuse it with an error.  How a double is laid
  out in memory is a parameter, as is its arithmetic.
\<close>

subsection \<open>The message\<close>

definition MAX_EXPORT_SZ :: nat where "MAX_EXPORT_SZ = 16384"
definition MAX_REQUEST_SZ :: nat where "MAX_REQUEST_SZ = 8192"
definition UDS_PATH_SUM :: bytes where "UDS_PATH_SUM = cs ''/tmp/faas_sum.sock''"
definition UDS_PATH_PRODUCT :: bytes where "UDS_PATH_PRODUCT = cs ''/tmp/faas_product.sock''"
definition UDS_PATH_BACK :: bytes where "UDS_PATH_BACK = cs ''/tmp/faas_back.sock''"

record 'f cdouble_mem = "'f cdouble" +
  d_put :: "'f \<Rightarrow> bytes"
  d_get :: "bytes \<Rightarrow> 'f"

record 'f migration_msg =
  mg_function_name :: bytes
  mg_tls_blob :: bytes
  mg_blob_sz :: u32
  mg_http_request :: bytes
  mg_request_len :: int
  mg_param_a :: 'f
  mg_param_b :: 'f

definition zero_msg :: "'f cdouble_mem \<Rightarrow> 'f migration_msg" where
  "zero_msg F = \<lparr>mg_function_name = zeros 32, mg_tls_blob = zeros 16384, mg_blob_sz = 0,
                 mg_http_request = zeros 8192, mg_request_len = 0,
                 mg_param_a = d_get F (zeros 8), mg_param_b = d_get F (zeros 8)\<rparr>"

definition msg_bytes :: "'f cdouble_mem \<Rightarrow> 'f migration_msg \<Rightarrow> bytes" where
  "msg_bytes F m =
     mg_function_name m @ mg_tls_blob m @ le_bytes 4 (unat (mg_blob_sz m)) @ mg_http_request m
     @ le_bytes 4 (unat (word_of_int (mg_request_len m) :: u32)) @ d_put F (mg_param_a m) @ d_put F (mg_param_b m)"

definition SIZEOF_msg :: nat where "SIZEOF_msg = 24632"

definition bytes_msg :: "'f cdouble_mem \<Rightarrow> bytes \<Rightarrow> 'f migration_msg" where
  "bytes_msg F b =
     \<lparr>mg_function_name = slice 0 32 b, mg_tls_blob = slice 32 16384 b,
      mg_blob_sz = of_nat (le_val (slice 16416 4 b)), mg_http_request = slice 16420 8192 b,
      mg_request_len = sint (of_nat (le_val (slice 24612 4 b)) :: u32),
      mg_param_a = d_get F (slice 24616 8 b), mg_param_b = d_get F (slice 24624 8 b)\<rparr>"

subsection \<open>Parsing a request\<close>

text \<open>
  The path (at most 63 bytes) and the query (at most 127) of the first line, of which 255 bytes are looked
  at; \<open>None\<close> when the line has no blank.
\<close>

definition hp_line :: "bytes \<Rightarrow> bytes" where
  "hp_line http_request = takeWhile (\<lambda>c. c \<noteq> CR) (takeWhile (\<lambda>c. c \<noteq> LF) (take 255 (cstr http_request)))"

definition hp_target :: "bytes \<Rightarrow> (bytes \<times> bytes) option" where
  "hp_target http_request =
     (case dropWhile (\<lambda>c. c \<noteq> SP) (hp_line http_request) of
        [] \<Rightarrow> None
      | _ # path_start \<Rightarrow>
          (let t = takeWhile (\<lambda>c. c \<noteq> SP) path_start
           in case dropWhile (\<lambda>c. c \<noteq> 63) t of
                [] \<Rightarrow> Some (take 63 t, [])
              | _ # q \<Rightarrow> Some (take 63 (takeWhile (\<lambda>c. c \<noteq> 63) t), take 127 q)))"

definition parse_request ::
  "'f cdouble_mem \<Rightarrow> bytes \<Rightarrow> 'f migration_msg \<Rightarrow> int \<times> 'f migration_msg" where
  "parse_request F http_request msg =
     (case hp_target http_request of
        None \<Rightarrow> (-1, msg)
      | Some (path, query) \<Rightarrow>
          (let name = (if path = cs ''/sum'' then Some (cs ''sum'')
                       else if path = cs ''/product'' then Some (cs ''product'') else None)
           in case name of
                None \<Rightarrow> (-1, msg)
              | Some f \<Rightarrow>
                  (0, msg\<lparr>mg_function_name := overwrite (mg_function_name msg) (f @ [0]),
                          mg_param_a := url_param (cdouble.truncate F) query (cs ''a=''),
                          mg_param_b := url_param (cdouble.truncate F) query (cs ''b='')\<rparr>)))"

text \<open>The workers have their own copy of the function.\<close>

definition parse_request_local ::
  "'f cdouble_mem \<Rightarrow> bytes \<Rightarrow> 'f migration_msg \<Rightarrow> int \<times> 'f migration_msg" where
  "parse_request_local = parse_request"

subsection \<open>Sending and receiving\<close>

text \<open>The sender keeps its own descriptor of the connection.\<close>

definition hp_send :: "bytes \<Rightarrow> bytes \<Rightarrow> int \<Rightarrow> 's world \<Rightarrow> int \<times> 's world" where
  "hp_send uds_path payload client_fd w =
     (let (uds_fd, w) = unix_client_connect uds_path w
      in if uds_fd < 0 then (-1, w)
         else
           (let (sent, w) = sendmsg_fd uds_fd client_fd payload w
            in (if 0 < sent then 0 else -1, close uds_fd w)))"

definition send_to_worker :: "'f cdouble_mem \<Rightarrow> int \<Rightarrow> 'f migration_msg \<Rightarrow> 's world \<Rightarrow> int \<times> 's world" where
  "send_to_worker F client_fd msg w =
     hp_send (if cstr (mg_function_name msg) = cs ''sum'' then UDS_PATH_SUM else UDS_PATH_PRODUCT)
       (msg_bytes F msg) client_fd w"

definition send_back_to_gateway :: "'f cdouble_mem \<Rightarrow> int \<Rightarrow> 'f migration_msg \<Rightarrow> 's world \<Rightarrow> int \<times> 's world" where
  "send_back_to_gateway F client_fd msg w = hp_send UDS_PATH_BACK (msg_bytes F msg) client_fd w"

text \<open>Return code, descriptor and data; a negative socket makes \<^verbatim>\<open>recvmsg\<close> fail.\<close>

definition receive_handoff :: "int \<Rightarrow> 's world \<Rightarrow> (int \<times> int option \<times> bytes) \<times> 's world" where
  "receive_handoff uds_conn w =
     (if uds_conn < 0 then ((-1, None, []), set_errno EOTHER w)
      else
        (let ((n, m), w) = recvmsg SIZEOF_msg w
         in if n \<le> 0 then ((-1, None, rm_data m), w)
            else (case rm_cmsg m of
                    None \<Rightarrow> ((-1, None, rm_data m), w)
                  | Some c \<Rightarrow> if cmsg_type c = SCM_RIGHTS then ((0, Some (rm_fd m), rm_data m), w)
                              else ((-1, None, rm_data m), w))))"

definition receive_back :: "int \<Rightarrow> 's world \<Rightarrow> (int \<times> int option \<times> bytes) \<times> 's world" where
  "receive_back = receive_handoff"

text \<open>The product worker has its own copies, in fewer lines.\<close>

definition product_parse_request_local ::
  "'f cdouble_mem \<Rightarrow> bytes \<Rightarrow> 'f migration_msg \<Rightarrow> int \<times> 'f migration_msg" where
  "product_parse_request_local = parse_request"

definition product_send_back_to_gateway ::
  "'f cdouble_mem \<Rightarrow> int \<Rightarrow> 'f migration_msg \<Rightarrow> 's world \<Rightarrow> int \<times> 's world" where
  "product_send_back_to_gateway = send_back_to_gateway"

definition product_receive_handoff :: "int \<Rightarrow> 's world \<Rightarrow> (int \<times> int option \<times> bytes) \<times> 's world" where
  "product_receive_handoff = receive_handoff"

definition received_msg :: "'f cdouble_mem \<Rightarrow> bytes \<Rightarrow> 'f migration_msg" where
  "received_msg F data = bytes_msg F (overwrite (zeros SIZEOF_msg) data)"

subsection \<open>The session between the hops\<close>

text \<open>Exporting; the return code is not looked at, a failed export leaves the array and sets the size to its bound.\<close>

definition hp_export ::
  "'s wolfssl \<Rightarrow> nat \<Rightarrow> 'f migration_msg \<Rightarrow> 's world \<Rightarrow> 'f migration_msg \<times> 's world" where
  "hp_export L p msg w =
     (let msg = msg\<lparr>mg_blob_sz := of_nat MAX_EXPORT_SZ\<rparr>;
          ((rc, blob), w) = wolfSSL_tls_export L p w
      in (if rc \<le> 0 then msg
          else msg\<lparr>mg_tls_blob := overwrite (mg_tls_blob msg) blob, mg_blob_sz := of_nat (length blob)\<rparr>, w))"

definition quiet_free :: "nat \<Rightarrow> 's world \<Rightarrow> 's world" where
  "quiet_free p w = wolfSSL_free p (flag_ub (\<not> ssl_live p w) w)"

subsection \<open>The gateway\<close>

text \<open>Case A of the loop: a new client.\<close>

definition hp_new_client :: "'s wolfssl \<Rightarrow> 'f cdouble_mem \<Rightarrow> 's world \<Rightarrow> 's world" where
  "hp_new_client L F w =
     (let (client_fd, w) = sys_newfd w;
          (ssl_p, w) = wolfSSL_new L w
      in case ssl_p of
           None \<Rightarrow> close client_fd w
         | Some p \<Rightarrow>
             (let ((ok, _, _), w) = wolfSSL_accept L p (wolfSSL_set_fd L p client_fd w)
              in if \<not> ok then close client_fd (wolfSSL_free p w)
                 else
                   (let ((n, bs, _), w) = wolfSSL_read L p (MAX_REQUEST_SZ - 1) w;
                        msg = (zero_msg F)\<lparr>mg_request_len := n, mg_http_request := overwrite (zeros 8192) bs\<rparr>;
                        (r, msg) = parse_request F (mg_http_request msg) msg
                    in if n \<le> 0 \<or> r \<noteq> 0 then close client_fd (wolfSSL_free p w)
                       else
                         (let (msg, w) = hp_export L p msg w;
                              (s, w) = send_to_worker F client_fd msg (quiet_free p w)
                          in if s < 0 then close client_fd w else w))))"

text \<open>Case B: a connection that comes back.\<close>

definition hp_returned :: "'f cdouble_mem \<Rightarrow> 's world \<Rightarrow> 's world" where
  "hp_returned F w =
     (let (uds_conn, w) = sys_newfd w;
          ((r, fd, data), w) = receive_back uds_conn w;
          w = (case fd of
                 Some client_fd \<Rightarrow>
                   if r \<noteq> 0 then w
                   else
                     (let (q, msg) = parse_request F (mg_http_request (received_msg F data)) (received_msg F data)
                      in if q \<noteq> 0 then close client_fd w
                         else close client_fd (snd (send_to_worker F client_fd msg w)))
               | None \<Rightarrow> w)
      in close uds_conn w)"

definition hp_gateway_round :: "'s wolfssl \<Rightarrow> 'f cdouble_mem \<Rightarrow> bool \<Rightarrow> bool \<Rightarrow> 's world \<Rightarrow> 's world" where
  "hp_gateway_round L F tcp_in back_in w =
     (let w = (if tcp_in then hp_new_client L F w else w) in if back_in then hp_returned F w else w)"

subsection \<open>The workers\<close>

text \<open>The two workers differ in the name, the operation and the text.\<close>

record 'f hp_role =
  r_name :: bytes
  r_op :: "'f \<Rightarrow> 'f \<Rightarrow> 'f"
  r_label :: bytes

definition sum_role :: "'f cdouble_mem \<Rightarrow> 'f hp_role" where
  "sum_role F = \<lparr>r_name = cs ''sum'', r_op = d_add F, r_label = cs ''SUM Result: ''\<rparr>"

definition product_role :: "'f cdouble_mem \<Rightarrow> 'f hp_role" where
  "product_role F = \<lparr>r_name = cs ''product'', r_op = d_mul F, r_label = cs ''PRODUCT Result: ''\<rparr>"

definition hp_response :: "'f cdouble_mem \<Rightarrow> 'f hp_role \<Rightarrow> 'f migration_msg \<Rightarrow> bytes" where
  "hp_response F R msg =
     (let text = r_label R @ d_fmt2 F (r_op R (mg_param_a msg) (mg_param_b msg)) @ [LF]
      in cs ''HTTP/1.1 200 OK'' @ crlf @ cs ''Content-Length: '' @ dec_digits (length text) @ crlf
         @ cs ''Connection: keep-alive'' @ crlf @ crlf @ take 255 text)"

text \<open>The requests of one connection; the printed length is written from an array of 512 bytes.\<close>

function hp_session ::
  "'s wolfssl \<Rightarrow> 'f cdouble_mem \<Rightarrow> 'f hp_role \<Rightarrow> nat \<Rightarrow> int \<Rightarrow> 'f migration_msg \<Rightarrow> 's world \<Rightarrow> 's world" where
  "hp_session L F R p client_fd msg w =
     (case wolfSSL_read L p (MAX_REQUEST_SZ - 1)
             (snd (wolfSSL_write L p (hp_response F R msg) (flag_ub (512 < length (hp_response F R msg)) w))) of
        ((n, bs, e), w2) \<Rightarrow>
          if n \<le> 0 then close client_fd (wolfSSL_free p w2)
          else
            (case parse_request_local F (overwrite (zeros 8192) bs)
                    (msg\<lparr>mg_http_request := overwrite (zeros 8192) bs, mg_request_len := n\<rparr>) of
               (r, msg2) \<Rightarrow>
                 if r \<noteq> 0 then close client_fd (wolfSSL_free p w2)
                 else if cstr (mg_function_name msg2) = r_name R then hp_session L F R p client_fd msg2 w2
                 else
                   (case hp_export L p msg2 w2 of
                      (msg3, w3) \<Rightarrow>
                        (case send_back_to_gateway F client_fd msg3 (quiet_free p w3) of
                           (s, w4) \<Rightarrow> if s < 0 then close client_fd w4 else w4))))"
  by pat_completeness auto

termination
proof (relation "measure (\<lambda>(L, F, R, p, fd, m, w). slen w)", simp, clarsimp)
  fix L :: "'s wolfssl" and p n bs e w w2 and b :: bytes and u
  assume r: "((n, bs, e), w2) = wolfSSL_read L p (MAX_REQUEST_SZ - Suc 0) (snd (wolfSSL_write L p b (flag_ub u w)))"
    and n: "\<not> n \<le> 0"
  have "slen w2 < slen (snd (wolfSSL_write L p b (flag_ub u w)))"
    using wolfSSL_read_progress [of L p "MAX_REQUEST_SZ - Suc 0" _ n bs e w2] r n by simp
  also have "\<dots> \<le> slen w" using slen_wolfSSL_write [of L p b "flag_ub u w"] by (simp add: slen_def flag_ub_def)
  finally show "slen w2 < slen w" .
qed

declare hp_session.simps [simp del]

definition hp_worker_round ::
  "'s wolfssl \<Rightarrow> 'f cdouble_mem \<Rightarrow> 'f hp_role \<Rightarrow> 's world \<Rightarrow> 's world" where
  "hp_worker_round L F R w =
     (let (uds_conn, w) = sys_newfd w;
          ((r, fd, data), w) = receive_handoff uds_conn w;
          w = (case fd of
                 None \<Rightarrow> w
               | Some client_fd \<Rightarrow>
                   if r \<noteq> 0 then w
                   else
                     (let msg = received_msg F data; (ssl_p, w) = wolfSSL_new L w
                      in case ssl_p of
                           None \<Rightarrow> close client_fd w
                         | Some p \<Rightarrow>
                             (let w = flag_ub (MAX_EXPORT_SZ < unat (mg_blob_sz msg)) (wolfSSL_set_fd L p client_fd w);
                                  (_, w) = wolfSSL_tls_import L p (take (unat (mg_blob_sz msg)) (mg_tls_blob msg)) w
                              in hp_session L F R p client_fd msg (wolfSSL_set_fd L p client_fd w))))
      in close uds_conn w)"

definition hp_sum_round :: "'s wolfssl \<Rightarrow> 'f cdouble_mem \<Rightarrow> 's world \<Rightarrow> 's world" where
  "hp_sum_round L F = hp_worker_round L F (sum_role F)"

definition hp_product_round :: "'s wolfssl \<Rightarrow> 'f cdouble_mem \<Rightarrow> 's world \<Rightarrow> 's world" where
  "hp_product_round L F = hp_worker_round L F (product_role F)"

subsection \<open>The baseline proxy\<close>

definition bridge :: "'s wolfssl \<Rightarrow> nat \<Rightarrow> int \<Rightarrow> 's world \<Rightarrow> 's world" where
  "bridge L p worker_fd w =
     (let ((n, buf, _), w) = wolfSSL_read L p 4096 w
      in if n \<le> 0 then w
         else
           (let (_, w) = sys_write worker_fd buf w;
                ((n, buf), w) = sys_read 4096 w
            in if n \<le> 0 then w else snd (wolfSSL_write L p buf w)))"

text \<open>A socket that could not be made is closed all the same.\<close>

definition classic_proxy_round :: "'s wolfssl \<Rightarrow> 's world \<Rightarrow> 's world" where
  "classic_proxy_round L w =
     (let (client_fd, w) = sys_newfd w;
          (ssl_p, w) = wolfSSL_new L w
      in case ssl_p of
           None \<Rightarrow> close client_fd w
         | Some p \<Rightarrow>
             (let ((ok, _, _), w) = wolfSSL_accept L p (wolfSSL_set_fd L p client_fd w);
                  w = (if \<not> ok then w
                       else
                         (let (worker_fd, w) = sys_newfd w;
                              (c, w) = sys_status w;
                              w = (if 0 \<le> worker_fd \<and> c = 0
                                   then bridge L p worker_fd (emit (EvConnect worker_fd (sun_path UDS_PATH_SUM)) w) else w)
                          in close worker_fd w))
              in close client_fd (wolfSSL_free p (wolfSSL_shutdown p w))))"

subsection \<open>Who holds the connection\<close>

text \<open>How often the descriptor was put on a socket with at least a byte of the message.\<close>

definition handed :: "int \<Rightarrow> event list \<Rightarrow> nat" where
  "handed fd l = length (filter (\<lambda>e. case e of EvSendFd _ f pl \<Rightarrow> f = fd \<and> pl \<noteq> [] | _ \<Rightarrow> False) l)"

lemma handed_simps [simp]:
  "handed fd [] = 0"
  "handed fd (e # l) = (case e of EvSendFd _ f pl \<Rightarrow> if f = fd \<and> pl \<noteq> [] then Suc (handed fd l) else handed fd l
                        | _ \<Rightarrow> handed fd l)"
  "handed fd (l @ m) = handed fd l + handed fd m"
  by (simp_all add: handed_def split: event.split)

lemma connect_handed: "handed fd (log (snd (unix_client_connect path w))) = handed fd (log w)"
proof -
  obtain evs where e: "log (snd (unix_client_connect path w)) = evs @ log w"
    "\<forall>e \<in> set evs. \<exists>x. x \<notin> set (fds w) \<and> (e = EvClose x \<or> e = EvConnect x (sun_path path))"
    using connect_log [of path w] by blast
  have "handed fd evs = 0" using e(2) by (fastforce simp: handed_def filter_empty_conv)
  with e(1) show ?thesis by simp
qed

text \<open>
  Connecting, sending descriptor and message, doing something that only waits, and closing the socket.
\<close>

lemma forward_effect:
  assumes wf: "fd_wf w"
    and g: "\<And>v. fds (g v) = fds v" "\<And>v. live (g v) = live v" "\<And>v. ub (g v) = ub v" "\<And>v. rxq (g v) = rxq v"
      "\<And>v. log (g v) = log v" "\<And>v. next_ssl (g v) = next_ssl v"
    and s: "(case unix_client_connect path w of (u, w) \<Rightarrow>
               if u < 0 then (-1, w)
               else (case sendmsg_fd u fd pl w of (sent, w) \<Rightarrow> (if 0 < sent then 0 else -1, close u (g w)))) = (r, w')"
  shows "set (fds w') = set (fds w) \<and> fd_wf w' \<and> tidy w w' \<and> next_ssl w' = next_ssl w
       \<and> handed fd (log w') = handed fd (log w) + (if r = 0 then 1 else 0) \<and> (r = 0 \<or> r = (-1::int))"
proof -
  let ?u = "fst (unix_client_connect path w)" and ?w = "snd (unix_client_connect path w)"
  have bc: "bad_closes (log ?w) = bad_closes (log w)" by (rule connect_bad_closes)
  have hd: "handed fd (log ?w) = handed fd (log w)" by (rule connect_handed)
  show ?thesis
  proof (cases "?u < 0")
    case True
    with s have "r = -1" "w' = ?w" by (simp_all add: split_beta)
    with True wf bc hd show ?thesis by (simp add: tidy_def fd_wf_def)
  next
    case False
    let ?n = "fst (sendmsg_fd ?u fd pl ?w)" and ?v = "snd (sendmsg_fd ?u fd pl ?w)"
    have r: "r = (if 0 < ?n then 0 else -1)" "w' = close ?u (g ?v)" using s False by (simp_all add: split_beta)
    have f: "fds ?v = ?u # fds w" "?u \<notin> set (fds w)" using False connect_fresh [of path w] by auto
    have n: "0 < ?n \<Longrightarrow> take (nat ?n) pl \<noteq> []"
      by (auto simp: sendmsg_fd_def Let_def split_beta split: answer.splits)
    show ?thesis
      using r f n wf bc hd by (auto simp: tidy_def fd_wf_def sendmsg_log g split: if_splits)
  qed
qed

lemma hp_send_effect:
  assumes wf: "fd_wf w" and s: "hp_send path pl fd w = (r, w')"
  shows "set (fds w') = set (fds w) \<and> fd_wf w' \<and> tidy w w' \<and> next_ssl w' = next_ssl w
       \<and> handed fd (log w') = handed fd (log w) + (if r = 0 then 1 else 0) \<and> (r = 0 \<or> r = -1)"
  by (rule forward_effect [where g = "\<lambda>w. w" and path = path and pl = pl, OF wf]) (use s [unfolded hp_send_def Let_def] in simp_all)

lemma quiet_free_frame:
  "fds (quiet_free p w) = fds w" "rxq (quiet_free p w) = rxq w" "next_ssl (quiet_free p w) = next_ssl w"
  "live (quiet_free p w) = live w - {p}" "ub (quiet_free p w) = (ub w \<or> p \<notin> live w)"
  "bad_closes (log (quiet_free p w)) = bad_closes (log w)" "handed fd (log (quiet_free p w)) = handed fd (log w)"
  by (auto simp: quiet_free_def ssl_live_iff)

lemma hp_export_frame:
  "fds (snd (hp_export L p m w)) = fds w" "rxq (snd (hp_export L p m w)) = rxq w"
  "next_ssl (snd (hp_export L p m w)) = next_ssl w" "live (snd (hp_export L p m w)) = live w"
  "ub (snd (hp_export L p m w)) = (ub w \<or> p \<notin> live w)" "log (snd (hp_export L p m w)) = log w"
  by (simp_all add: hp_export_def Let_def split_beta)

definition short_numbers :: "'f cdouble_mem \<Rightarrow> bool" where
  "short_numbers F = (\<forall>x. length (d_fmt2 F x) \<le> 320)"

lemma hp_response_length:
  assumes "short_numbers F" "length (r_label R) \<le> 16"
  shows "length (hp_response F R m) \<le> 512"
proof -
  define t where "t = r_label R @ d_fmt2 F (r_op R (mg_param_a m) (mg_param_b m)) @ [LF]"
  have "length (d_fmt2 F (r_op R (mg_param_a m) (mg_param_b m))) \<le> 320" using assms(1) by (simp add: short_numbers_def)
  then have "length t < 1000" using assms(2) by (simp add: t_def)
  then have "length (dec_digits (length t)) \<le> 3" using length_dec_digits [of "length t" 2] by simp
  then show ?thesis by (simp add: hp_response_def t_def [symmetric])
qed

lemma write_keeps:
  "bad_closes (log (snd (wolfSSL_write L p b w))) = bad_closes (log w)"
  "handed fd (log (snd (wolfSSL_write L p b w))) = handed fd (log w)"
  by (simp_all add: wolfSSL_write_def Let_def split_beta)

lemma hp_session_effect:
  "fd \<in> set (fds w) \<Longrightarrow> fd_wf w \<Longrightarrow> p \<in> live w \<Longrightarrow> short_numbers F \<Longrightarrow> length (r_label R) \<le> 16 \<Longrightarrow>
   live (hp_session L F R p fd m w) = live w - {p} \<and> fd_wf (hp_session L F R p fd m w)
 \<and> ub (hp_session L F R p fd m w) = ub w \<and> rxq (hp_session L F R p fd m w) = rxq w
 \<and> next_ssl (hp_session L F R p fd m w) = next_ssl w
 \<and> bad_closes (log (hp_session L F R p fd m w)) = bad_closes (log w)
 \<and> (handed fd (log (hp_session L F R p fd m w)) = handed fd (log w)
      \<and> set (fds (hp_session L F R p fd m w)) = set (fds w) - {fd}
  \<or> handed fd (log (hp_session L F R p fd m w)) = Suc (handed fd (log w))
      \<and> set (fds (hp_session L F R p fd m w)) = set (fds w))"
proof (induction L F R p fd m w rule: hp_session.induct)
  case (1 L F R p fd m w)
  define w1 where "w1 = snd (wolfSSL_write L p (hp_response F R m) (flag_ub (512 < length (hp_response F R m)) w))"
  obtain n bs e w2 where rd: "wolfSSL_read L p (MAX_REQUEST_SZ - 1) w1 = ((n, bs, e), w2)" by (metis prod.exhaust)
  have nl: "\<not> 512 < length (hp_response F R m)" using hp_response_length "1.prems"(4,5) by (simp add: not_less)
  have w1: "fds w1 = fds w" "rxq w1 = rxq w" "live w1 = live w" "next_ssl w1 = next_ssl w" "ub w1 = ub w"
    "bad_closes (log w1) = bad_closes (log w)" "handed fd (log w1) = handed fd (log w)"
    using "1.prems"(3) nl by (simp_all add: w1_def write_keeps flag_ub_def)
  have w2: "fds w2 = fds w" "rxq w2 = rxq w" "live w2 = live w" "next_ssl w2 = next_ssl w" "ub w2 = ub w" "log w2 = log w1"
    using wolfSSL_read_frame [of L p "MAX_REQUEST_SZ - 1" w1] "1.prems"(3) w1 unfolding rd by simp_all
  define m1 where "m1 = m\<lparr>mg_http_request := overwrite (zeros 8192) bs, mg_request_len := n\<rparr>"
  obtain r m2 where pr: "parse_request_local F (overwrite (zeros 8192) bs) m1 = (r, m2)" by fastforce
  obtain m3 w3 where ex: "hp_export L p m2 w2 = (m3, w3)" by fastforce
  obtain s w4 where sb: "send_back_to_gateway F fd m3 (quiet_free p w3) = (s, w4)" by fastforce
  have w3: "fds w3 = fds w" "rxq w3 = rxq w" "live w3 = live w" "next_ssl w3 = next_ssl w" "ub w3 = ub w" "log w3 = log w1"
    using hp_export_frame [of L p m2 w2] "1.prems"(3) w2 unfolding ex by simp_all
  have q: "fd_wf (quiet_free p w3)" using "1.prems"(2) w3 by (simp add: fd_wf_def quiet_free_frame)
  note snd4 = hp_send_effect [OF q sb [unfolded send_back_to_gateway_def]]
  have eq: "hp_session L F R p fd m w =
    (if n \<le> 0 \<or> r \<noteq> 0 then close fd (wolfSSL_free p w2)
     else if cstr (mg_function_name m2) = r_name R then hp_session L F R p fd m2 w2
     else if s < 0 then close fd w4 else w4)"
    using rd [unfolded w1_def] pr [unfolded m1_def] ex sb by (subst hp_session.simps) simp
  consider (drop) "n \<le> 0 \<or> r \<noteq> 0" | (again) "0 < n" "r = 0" "cstr (mg_function_name m2) = r_name R"
    | (other) "0 < n" "r = 0" "cstr (mg_function_name m2) \<noteq> r_name R" by linarith
  then show ?case
  proof cases
    case drop
    with "1.prems" w1 w2 show ?thesis by (simp add: eq fd_wf_def)
  next
    case again
    have pre: "fd \<in> set (fds w2)" "fd_wf w2" "p \<in> live w2" using "1.prems" w2 by (simp_all add: fd_wf_def)
    have e: "hp_session L F R p fd m w = hp_session L F R p fd m2 w2" using again eq by simp
    have n0: "\<not> n \<le> 0" "\<not> r \<noteq> 0" using again by simp_all
    have "snd (wolfSSL_write L p (hp_response F R m) (flag_ub (512 < length (hp_response F R m)) w)) = w1"
      by (simp add: w1_def)
    then show ?thesis
      using "1.IH" [OF rd [unfolded w1_def, symmetric] refl refl n0(1) pr [unfolded m1_def, symmetric] n0(2) again(3)
        pre "1.prems"(4,5)] w1 w2 unfolding e by simp
  next
    case other
    with "1.prems" w1 w3 snd4 show ?thesis
      unfolding eq by (auto simp: quiet_free_frame tidy_def fd_wf_def)
  qed
qed

lemma handoff_frame:
  "rxq (snd (receive_handoff c w)) = rxq w" "live (snd (receive_handoff c w)) = live w"
  "next_ssl (snd (receive_handoff c w)) = next_ssl w" "ub (snd (receive_handoff c w)) = ub w"
  "log (snd (receive_handoff c w)) = log w"
  by (simp_all add: receive_handoff_def Let_def split_beta split: option.split)

text \<open>The import changes the session only.\<close>

lemma hp_open_session:
  assumes "wolfSSL_new L w = (Some p, w1)" "ssl_wf w" "unat (mg_blob_sz m) \<le> 16384"
    and "wolfSSL_tls_import L p b (flag_ub (MAX_EXPORT_SZ < unat (mg_blob_sz m)) (wolfSSL_set_fd L p fd w1)) = (r, w2)"
  shows "fds (wolfSSL_set_fd L p fd w2) = fds w \<and> rxq (wolfSSL_set_fd L p fd w2) = rxq w
       \<and> live (wolfSSL_set_fd L p fd w2) = insert p (live w) \<and> p \<notin> live w
       \<and> next_ssl (wolfSSL_set_fd L p fd w2) = Suc (next_ssl w) \<and> ub (wolfSSL_set_fd L p fd w2) = ub w
       \<and> log (wolfSSL_set_fd L p fd w2) = log w"
proof -
  let ?v = "flag_ub (MAX_EXPORT_SZ < unat (mg_blob_sz m)) (wolfSSL_set_fd L p fd w1)"
  have n: "fst (wolfSSL_new L w) = Some p" "snd (wolfSSL_new L w) = w1" using assms(1) by simp_all
  have p: "p \<notin> live w" using wolfSSL_new_ptr [OF n(1)] ssl_wf_fresh [OF assms(2)] by simp
  have w1: "fds w1 = fds w" "rxq w1 = rxq w" "live w1 = insert p (live w)" "next_ssl w1 = Suc (next_ssl w)"
    "ub w1 = ub w" "log w1 = log w"
    using n by (auto simp: n(2) [symmetric] n(1))
  have v: "fds ?v = fds w" "rxq ?v = rxq w" "live ?v = insert p (live w)" "next_ssl ?v = Suc (next_ssl w)"
    "ub ?v = ub w" "log ?v = log w"
    using w1 assms(3) by (simp_all add: MAX_EXPORT_SZ_def)
  have w2: "w2 = snd (wolfSSL_tls_import L p b ?v)" using assms(4) by simp
  show ?thesis using v p unfolding w2 by simp
qed

text \<open>A round in which a connection arrives with one descriptor.\<close>

definition one_handoff :: "int \<Rightarrow> bytes \<Rightarrow> 's world \<Rightarrow> bool" where
  "one_handoff f d w =
     (0 \<le> fst (sys_newfd w)
    \<and> fst (receive_handoff (fst (sys_newfd w)) (snd (sys_newfd w))) = (0, Some f, d)
    \<and> fds (snd (receive_handoff (fst (sys_newfd w)) (snd (sys_newfd w)))) = f # fds (snd (sys_newfd w))
    \<and> f \<notin> set (fds (snd (sys_newfd w))))"

lemma hp_worker_round_effect:
  assumes wf: "fd_wf w" "ssl_wf w" and F: "short_numbers F" "length (r_label R) \<le> 16"
    and one: "one_handoff f d w" and bs: "unat (mg_blob_sz (received_msg F d)) \<le> 16384"
  shows "tidy w (hp_worker_round L F R w)
       \<and> (set (fds (hp_worker_round L F R w)) = set (fds w)
            \<and> handed f (log (hp_worker_round L F R w)) = handed f (log w)
        \<or> set (fds (hp_worker_round L F R w)) = insert f (set (fds w))
            \<and> handed f (log (hp_worker_round L F R w)) = Suc (handed f (log w)))
       \<and> f \<notin> set (fds w)"
proof -
  define c where "c = fst (sys_newfd w)"
  define w1 where "w1 = snd (receive_handoff c (snd (sys_newfd w)))"
  define m where "m = received_msg F d"
  have c: "0 \<le> c" "c \<notin> set (fds w)" using one sys_newfd_fresh [of w] by (auto simp: one_handoff_def c_def)
  have rcv: "fst (receive_handoff c (snd (sys_newfd w))) = (0, Some f, d)" using one by (simp add: one_handoff_def c_def)
  have f1: "fds w1 = f # c # fds w" "f \<notin> set (fds w)" "f \<noteq> c"
    using one c fds_sys_newfd [of w] by (auto simp: one_handoff_def c_def w1_def)
  have w1: "rxq w1 = rxq w" "live w1 = live w" "next_ssl w1 = next_ssl w" "ub w1 = ub w" "log w1 = log w"
    unfolding w1_def by (simp_all add: handoff_frame)
  have wf1: "fd_wf w1" "ssl_wf w1" using wf f1 c w1 by (auto simp: fd_wf_def ssl_wf_def)
  obtain ssl_p w2 where nw: "wolfSSL_new L w1 = (ssl_p, w2)" by fastforce
  have round: "hp_worker_round L F R w = close c
     (case ssl_p of None \<Rightarrow> close f w2
      | Some p \<Rightarrow> hp_session L F R p f m (wolfSSL_set_fd L p f (snd (wolfSSL_tls_import L p
          (take (unat (mg_blob_sz m)) (mg_tls_blob m))
          (flag_ub (MAX_EXPORT_SZ < unat (mg_blob_sz m)) (wolfSSL_set_fd L p f w2))))))"
    using nw rcv unfolding w1_def c_def
    by (simp add: hp_worker_round_def split_beta Let_def m_def [symmetric] split: option.split)
  show ?thesis
  proof (cases ssl_p)
    case None
    then have n: "fst (wolfSSL_new L w1) = None" "w2 = snd (wolfSSL_new L w1)" using nw by simp_all
    then have "fds w2 = fds w1" "tidy w1 w2" "log w2 = log w1" unfolding n(2) by (simp_all add: tidy_def n(1))
    with None f1 w1 wf1 c show ?thesis by (auto simp: round tidy_def fd_wf_def)
  next
    case (Some p)
    define v where "v = wolfSSL_set_fd L p f (snd (wolfSSL_tls_import L p (take (unat (mg_blob_sz m)) (mg_tls_blob m))
        (flag_ub (MAX_EXPORT_SZ < unat (mg_blob_sz m)) (wolfSSL_set_fd L p f w2))))"
    have v: "fds v = fds w1" "rxq v = rxq w1" "live v = insert p (live w1)" "p \<notin> live w1" "ub v = ub w1" "log v = log w1"
      using hp_open_session [OF nw [unfolded Some] wf1(2) bs [folded m_def] surjective_pairing] unfolding v_def by blast+
    have pre: "f \<in> set (fds v)" "fd_wf v" "p \<in> live v" using v f1 wf1 by (simp_all add: fd_wf_def)
    define W where "W = hp_session L F R p f m v"
    note e = hp_session_effect [OF pre F, of L m, folded W_def]
    have r: "hp_worker_round L F R w = close c W" by (simp add: round Some W_def v_def)
    have cW: "fd_wf W" "set (fds W) = insert c (set (fds w)) \<and> handed f (log W) = handed f (log w)
        \<or> set (fds W) = insert f (insert c (set (fds w))) \<and> handed f (log W) = Suc (handed f (log w))"
      using e f1(3) by (simp_all add: v f1 w1) blast
    have t: "tidy w W" using e v w1 by (simp add: tidy_def)
    have cl: "set (fds (close c W)) = set (fds W) - {c}" "handed f (log (close c W)) = handed f (log W)"
      "c \<in> set (fds W) \<Longrightarrow> tidy W (close c W)" using cW(1) by (simp_all add: fd_wf_def tidy_def)
    show ?thesis unfolding r using cW(2)
    proof (elim disjE conjE)
      assume a: "set (fds W) = insert c (set (fds w))" "handed f (log W) = handed f (log w)"
      then show "tidy w (close c W) \<and> (set (fds (close c W)) = set (fds w) \<and> handed f (log (close c W)) = handed f (log w)
          \<or> set (fds (close c W)) = insert f (set (fds w)) \<and> handed f (log (close c W)) = Suc (handed f (log w)))
          \<and> f \<notin> set (fds w)"
        using cl t c f1 by (simp add: tidy_def)
    next
      assume a: "set (fds W) = insert f (insert c (set (fds w)))" "handed f (log W) = Suc (handed f (log w))"
      then show "tidy w (close c W) \<and> (set (fds (close c W)) = set (fds w) \<and> handed f (log (close c W)) = handed f (log w)
          \<or> set (fds (close c W)) = insert f (set (fds w)) \<and> handed f (log (close c W)) = Suc (handed f (log w)))
          \<and> f \<notin> set (fds w)"
        using cl t c f1 by (simp add: tidy_def insert_Diff_if)
    qed
  qed
qed

text \<open>
  The gateway of the predecessor keeps the descriptor of a new client exactly when it passed the connection on;
  everything else a new client made it take is released.
\<close>

lemma hp_new_client_effect:
  assumes wf: "fd_wf w" "ssl_wf w" and c: "0 \<le> fst (sys_newfd w)"
  shows "tidy w (hp_new_client L F w)
       \<and> (fst (sys_newfd w) \<in> set (fds (hp_new_client L F w))
            \<longleftrightarrow> handed (fst (sys_newfd w)) (log (hp_new_client L F w)) = Suc (handed (fst (sys_newfd w)) (log w)))
       \<and> set (fds (hp_new_client L F w)) - {fst (sys_newfd w)} = set (fds w)"
proof -
  define fd where "fd = fst (sys_newfd w)"
  define w1 where "w1 = snd (sys_newfd w)"
  have w1: "fds w1 = fd # fds w" "fd \<notin> set (fds w)" "live w1 = live w" "rxq w1 = rxq w" "ub w1 = ub w" "log w1 = log w"
    "next_ssl w1 = next_ssl w"
    using c sys_newfd_fresh [of w] by (simp_all add: w1_def fd_def)
  obtain ssl_p w2 where nw: "wolfSSL_new L w1 = (ssl_p, w2)" by fastforce
  have goal: "tidy w v \<and> (fd \<in> set (fds v) \<longleftrightarrow> handed fd (log v) = Suc (handed fd (log w))) \<and> set (fds v) - {fd} = set (fds w)"
    if "tidy w v" "set (fds v) = set (fds w) \<and> handed fd (log v) = handed fd (log w)
        \<or> set (fds v) = insert fd (set (fds w)) \<and> handed fd (log v) = Suc (handed fd (log w))" for v
    using that w1(2) by (elim conjE disjE; simp)
  show ?thesis
  proof (cases ssl_p)
    case None
    have n: "fst (wolfSSL_new L w1) = None" "w2 = snd (wolfSSL_new L w1)" using nw None by simp_all
    have "hp_new_client L F w = close fd w2" using None nw by (simp add: hp_new_client_def split_beta Let_def fd_def w1_def)
    then show ?thesis using goal [of "hp_new_client L F w"] w1 n(1) by (simp add: tidy_def n(2) fd_def [symmetric])
  next
    case (Some p)
    have n: "fst (wolfSSL_new L w1) = Some p" "w2 = snd (wolfSSL_new L w1)" using nw Some by simp_all
    have p: "p \<notin> live w" using wolfSSL_new_ptr [OF n(1)] ssl_wf_fresh [OF wf(2)] w1 by simp
    define a where "a = wolfSSL_accept L p (wolfSSL_set_fd L p fd w2)"
    define rd where "rd = wolfSSL_read L p (MAX_REQUEST_SZ - 1) (snd a)"
    have sa: "fds (snd a) = fd # fds w" "live (snd a) = insert p (live w)" "rxq (snd a) = rxq w" "ub (snd a) = ub w"
      "log (snd a) = log w"
      using n(1) w1 by (simp_all add: a_def n(2))
    have sr: "fds (snd rd) = fd # fds w" "live (snd rd) = insert p (live w)" "rxq (snd rd) = rxq w" "ub (snd rd) = ub w"
      "log (snd rd) = log w"
      using sa by (simp_all add: rd_def)
    have st: "fds v = fd # fds w" "live v = insert p (live w)" "rxq v = rxq w" "ub v = ub w" "log v = log w"
      if "v = snd a \<or> v = snd rd" for v
      using that sa sr by blast+
    define m0 where "m0 = (zero_msg F)\<lparr>mg_request_len := fst (fst rd), mg_http_request := overwrite (zeros 8192) (fst (snd (fst rd)))\<rparr>"
    obtain r m1 where pr: "parse_request F (mg_http_request m0) m0 = (r, m1)" by fastforce
    obtain m2 w3 where ex: "hp_export L p m1 (snd rd) = (m2, w3)" by fastforce
    obtain s w4 where sw: "send_to_worker F fd m2 (quiet_free p w3) = (s, w4)" by fastforce
    have eq: "hp_new_client L F w =
        (if \<not> fst (fst a) then close fd (wolfSSL_free p (snd a))
         else if fst (fst rd) \<le> 0 \<or> r \<noteq> 0 then close fd (wolfSSL_free p (snd rd))
         else if s < 0 then close fd w4 else w4)"
      using nw Some pr ex sw by (simp add: hp_new_client_def split_beta Let_def fd_def w1_def a_def rd_def m0_def)
    have lv: "live w - {p} = live w" using p by simp
    have dropped: "tidy w (close fd (wolfSSL_free p v)) \<and> set (fds (close fd (wolfSSL_free p v))) = set (fds w)
        \<and> handed fd (log (close fd (wolfSSL_free p v))) = handed fd (log w)" if "v = snd a \<or> v = snd rd" for v
      using st [OF that] lv by (simp add: tidy_def)
    have w3: "fds w3 = fd # fds w" "live w3 = insert p (live w)" "rxq w3 = rxq w" "ub w3 = ub w" "log w3 = log w"
      using hp_export_frame [of L p m1 "snd rd"] st [of "snd rd"] unfolding ex by simp_all
    define q where "q = quiet_free p w3"
    have q: "fds q = fd # fds w" "live q = live w" "rxq q = rxq w" "ub q = ub w" "bad_closes (log q) = bad_closes (log w)"
      "handed fd (log q) = handed fd (log w)"
      using w3 lv by (simp_all add: q_def quiet_free_frame)
    have "fd_wf q" using q w1 wf by (simp add: fd_wf_def)
    from hp_send_effect [OF this sw [folded q_def, unfolded send_to_worker_def]]
    have s4: "set (fds w4) = insert fd (set (fds w))" "fd_wf w4" "tidy q w4"
      "handed fd (log w4) = handed fd (log w) + (if s = 0 then 1 else 0)" "s = 0 \<or> s = -1"
      using q by simp_all
    have t4: "tidy w w4" using s4(3) q by (simp add: tidy_def)
    consider "\<not> fst (fst a)" | "fst (fst a)" "fst (fst rd) \<le> 0 \<or> r \<noteq> 0" | "fst (fst a)" "\<not> (fst (fst rd) \<le> 0 \<or> r \<noteq> 0)" by blast
    then have "tidy w (hp_new_client L F w) \<and> (set (fds (hp_new_client L F w)) = set (fds w)
          \<and> handed fd (log (hp_new_client L F w)) = handed fd (log w)
        \<or> set (fds (hp_new_client L F w)) = insert fd (set (fds w))
          \<and> handed fd (log (hp_new_client L F w)) = Suc (handed fd (log w)))"
    proof cases
      case 1
      then have "hp_new_client L F w = close fd (wolfSSL_free p (snd a))" by (simp add: eq)
      with dropped [of "snd a"] show ?thesis by simp
    next
      case 2
      then have "hp_new_client L F w = close fd (wolfSSL_free p (snd rd))" by (simp add: eq)
      with dropped [of "snd rd"] show ?thesis by simp
    next
      case 3
      then have e: "hp_new_client L F w = (if s < 0 then close fd w4 else w4)" by (simp add: eq)
      from s4(5) show ?thesis
      proof
        assume "s = 0"
        with e t4 s4 show ?thesis by simp
      next
        assume m: "s = -1"
        with e have "hp_new_client L F w = close fd w4" by simp
        with m t4 s4(1,2,4) w1(2) show ?thesis by (simp add: tidy_def fd_wf_def)
      qed
    qed
    with goal [of "hp_new_client L F w"] show ?thesis unfolding fd_def [symmetric] by blast
  qed
qed

subsection \<open>Properties\<close>

text \<open>
  C38. A round of a worker frees the session it created, closes nothing twice and overruns no array, whatever
  the client and the gateway do; but its copy of the connection's descriptor stays open exactly when the
  connection was passed back to the gateway: each hand-back costs the worker a descriptor.
\<close>

theorem hp_handback_keeps_descriptor:
  assumes "fd_wf w" and "ssl_wf w" and "short_numbers F" and "one_handoff f d w"
    and "unat (mg_blob_sz (received_msg F d)) \<le> 16384" and "R = sum_role F \<or> R = product_role F"
  shows "tidy w (hp_worker_round L F R w)
       \<and> (f \<in> set (fds (hp_worker_round L F R w))
            \<longleftrightarrow> handed f (log (hp_worker_round L F R w)) = Suc (handed f (log w)))
       \<and> set (fds (hp_worker_round L F R w)) - {f} = set (fds w)"
proof -
  have "length (r_label R) \<le> 16" using assms(6) by (auto simp: sum_role_def product_role_def cs_def)
  note e = hp_worker_round_effect [OF assms(1-3) this assms(4,5), of L]
  define W where "W = hp_worker_round L F R w"
  have "(f \<in> set (fds W) \<longleftrightarrow> handed f (log W) = Suc (handed f (log w))) \<and> set (fds W) - {f} = set (fds w)"
    using e unfolding W_def [symmetric] by (elim conjE disjE; simp)
  with e show ?thesis unfolding W_def by blast
qed

definition whole_mem :: "nat cdouble_mem" where
  "whole_mem = cdouble.extend
     \<lparr>d_zero = 0, d_atof = (\<lambda>s. digits_value 0 (takeWhile isdigit s)), d_add = (+), d_mul = (*), d_fmt2 = (\<lambda>n. [49])\<rparr>
     (cdouble_mem.fields (\<lambda>n. zeros 8) (\<lambda>b. 0))"

lemma slice_zeros: "off + n \<le> k \<Longrightarrow> slice off n (zeros k) = zeros n"
  by (simp add: slice_def zeros_def)

theorem hp_handback_keeps_descriptor_witness:
  "set (fds (hp_worker_round echo_ssl whole_mem (sum_role whole_mem)
     ((boot [Ok 0, Msg (zeros SIZEOF_msg) (Some fd_cmsg) False, Ok 0])\<lparr>fds := [3]\<rparr>))) - {1} = {3}"
proof -
  let ?w = "(boot [Ok 0, Msg (zeros SIZEOF_msg) (Some fd_cmsg) False, Ok 0])\<lparr>fds := [3]\<rparr> :: bytes world"
  have F: "short_numbers whole_mem"
    by (simp add: short_numbers_def whole_mem_def cdouble.defs cdouble_mem.defs)
  have pos: "0 < SIZEOF_msg" by (simp add: SIZEOF_msg_def)
  then have ne: "zeros SIZEOF_msg \<noteq> []" "length (zeros SIZEOF_msg) = SIZEOF_msg" by (auto simp: zeros_def)
  have one: "one_handoff 1 (zeros SIZEOF_msg) ?w"
    using pos ne by (simp add: one_handoff_def sys_newfd_def next_answer_def lowest_free_def boot_def receive_handoff_def
        recvmsg_def rights_count_def fd_cmsg_def CMSG_LEN_int_def split_beta)
  have "slice 16416 4 (zeros SIZEOF_msg) = zeros 4" by (rule slice_zeros) (simp add: SIZEOF_msg_def)
  moreover have "le_val (zeros 4) = 0" by code_simp
  ultimately have "mg_blob_sz (received_msg whole_mem (zeros SIZEOF_msg)) = 0"
    unfolding received_msg_def bytes_msg_def overwrite_full [OF refl] by simp
  then show ?thesis
    using hp_handback_keeps_descriptor [OF _ _ F one, of "sum_role whole_mem" echo_ssl]
    by (simp add: fd_wf_def ssl_wf_def live_def)
qed

end
