(* ===== verification/HelloWorker.thy ===== *)
theory HelloWorker
  imports HotPotato
begin

text \<open>
  \<^verbatim>\<open>faad_optimization-Romero_New/worker.c\<close>: the first worker of the predecessor, which answers every connection it
  is handed with one fixed response.  It shares the message with the workers of \<open>HotPotato\<close>, but checks more of
  the control message, and releases what it took in every case.  The file uses a socket path \<^verbatim>\<open>UDS_PATH\<close> that
  \<^verbatim>\<open>common.h\<close> does not define (it defines one for each function); the path is an argument here.
\<close>

subsection \<open>Receiving\<close>

text \<open>Return code, descriptor (-1 unless one was received) and data.\<close>

definition hello_receive :: "'s world \<Rightarrow> (int \<times> int \<times> bytes) \<times> 's world" where
  "hello_receive w =
     (let ((n, m), w) = recvmsg SIZEOF_msg w
      in if n \<le> 0 then ((-1, -1, rm_data m), w)
         else if rm_ctrunc m then ((-1, -1, rm_data m), w)
         else
           (case rm_cmsg m of
              None \<Rightarrow> ((-1, -1, rm_data m), w)
            | Some c \<Rightarrow>
                if cmsg_level c = SOL_SOCKET \<and> cmsg_type c = SCM_RIGHTS \<and> cmsg_len c = CMSG_LEN_int
                then ((0, rm_fd m, rm_data m), w)
                else ((-1, -1, rm_data m), w)))"

subsection \<open>One connection\<close>

definition hello_response :: bytes where
  "hello_response =
     cs ''HTTP/1.1 200 OK'' @ crlf @ cs ''Content-Type: text/plain'' @ crlf @ cs ''Content-Length: '' @ dec_digits 22
     @ crlf @ cs ''Connection: close'' @ crlf @ crlf @ cs ''Hello from the Worker!''"

definition hello_serve :: "'s wolfssl \<Rightarrow> 'f cdouble_mem \<Rightarrow> int \<Rightarrow> int \<Rightarrow> bytes \<Rightarrow> 's world \<Rightarrow> 's world" where
  "hello_serve L F uds_conn client_fd data w =
     (let msg = received_msg F data; (ssl_p, w) = wolfSSL_new L w
      in case ssl_p of
           None \<Rightarrow> close uds_conn (close client_fd w)
         | Some p \<Rightarrow>
             (let w = flag_ub (MAX_EXPORT_SZ < unat (mg_blob_sz msg)) (wolfSSL_set_fd L p client_fd w);
                  (ret, w) = wolfSSL_tls_import L p (take (unat (mg_blob_sz msg)) (mg_tls_blob msg)) w;
                  w = wolfSSL_set_fd L p client_fd w
              in if ret \<le> 0 then close uds_conn (close client_fd (wolfSSL_free p w))
                 else
                   (let (_, w) = wolfSSL_write L p hello_response w
                    in close uds_conn (close client_fd (wolfSSL_free p (wolfSSL_shutdown p w))))))"

definition hello_round :: "'s wolfssl \<Rightarrow> 'f cdouble_mem \<Rightarrow> 's world \<Rightarrow> 's world" where
  "hello_round L F w =
     (let (uds_conn, w) = sys_newfd w
      in if uds_conn < 0 then w
         else
           (let ((r, client_fd, data), w) = hello_receive w
            in if r \<noteq> 0 then close uds_conn w else hello_serve L F uds_conn client_fd data w))"

text \<open>The start: context, certificate, key, socket.  A start that fails leaves the socket to the exit of the process.\<close>

definition hello_start :: "bytes \<Rightarrow> 's world \<Rightarrow> (int + int) \<times> 's world" where
  "hello_start path w =
     (let (ctx, w) = sys_alloc w
      in if \<not> ctx then (Inl 1, w)
         else
           (let (cert, w) = sys_status w
            in if cert < 0 then (Inl 1, w)
               else
                 (let (key, w) = sys_status w
                  in if key < 0 then (Inl 1, w)
                     else
                       (let (uds_fd, w) = sys_newfd w
                        in if uds_fd < 0 then (Inl 1, w)
                           else
                             (let w = emit (EvUnlink path) w; (b, w) = sys_status w
                              in if b < 0 then (Inl 1, w)
                                 else
                                   (let (l, w) = sys_status w
                                    in if l < 0 then (Inl 1, w)
                                       else (Inr uds_fd, emit (EvListen uds_fd (sun_path path)) w)))))))"

subsection \<open>What a round holds and releases\<close>

text \<open>A message that is taken brings exactly one descriptor.\<close>

lemma hello_receive_frame:
  "rxq (snd (hello_receive w)) = rxq w" "live (snd (hello_receive w)) = live w"
  "next_ssl (snd (hello_receive w)) = next_ssl w" "ub (snd (hello_receive w)) = ub w"
  "log (snd (hello_receive w)) = log w"
  by (simp_all add: hello_receive_def Let_def split_beta split: option.split)

lemma recvmsg_fds:
  "\<exists>l. fds (snd (recvmsg n w)) = l @ fds w \<and> distinct l \<and> set l \<inter> set (fds w) = {}
     \<and> length l = rights_count (rm_cmsg (snd (fst (recvmsg n w))))
     \<and> (\<forall>f. l = [f] \<longrightarrow> rm_fd (snd (fst (recvmsg n w))) = f)"
proof (cases "fst (next_answer w)")
  case (Msg d c t)
  obtain l v where i: "install_fds (rights_count c) (snd (next_answer w)) = (l, v)" by fastforce
  have "fds v = rev l @ fds w" "length l = rights_count c" "distinct l" "set l \<inter> set (fds w) = {}"
    using install_fds_result [OF i] by simp_all
  then show ?thesis
    using Msg i by (intro exI [of _ "rev l"]) (auto simp: recvmsg_def split_beta split: list.split)
qed (simp_all add: recvmsg_def split_beta rights_count_def)

lemma hello_receive_fds:
  assumes "hello_receive w = ((r, f, d), w')"
  shows "(r = 0 \<and> fds w' = f # fds w \<and> f \<notin> set (fds w)) \<or> (r = -1 \<and> set (fds w) \<subseteq> set (fds w') \<and> (fd_wf w \<longrightarrow> fd_wf w'))"
proof -
  obtain n m v where rm: "recvmsg SIZEOF_msg w = ((n, m), v)" by (metis prod.exhaust)
  obtain l where l: "fds v = l @ fds w" "distinct l" "set l \<inter> set (fds w) = {}"
    "length l = rights_count (rm_cmsg m)" "\<forall>x. l = [x] \<longrightarrow> rm_fd m = x"
    using recvmsg_fds [of SIZEOF_msg w] unfolding rm by auto
  have w': "w' = v" using assms rm by (auto simp: hello_receive_def Let_def split: option.splits if_splits)
  have v: "set (fds w) \<subseteq> set (fds v)" "fd_wf w \<Longrightarrow> fd_wf v" using l by (auto simp: fd_wf_def)
  show ?thesis
  proof (cases "r = 0")
    case True
    then obtain c where c: "rm_cmsg m = Some c" "cmsg_level c = SOL_SOCKET" "cmsg_type c = SCM_RIGHTS" "cmsg_len c = CMSG_LEN_int"
      "f = rm_fd m"
      using assms rm by (auto simp: hello_receive_def Let_def split: option.splits if_splits)
    then have "length l = Suc 0" using l(4) by (simp add: rights_count_def CMSG_LEN_int_def)
    then obtain x where "l = [x]" by (auto simp: length_Suc_conv)
    with l c True w' show ?thesis by simp
  next
    case False
    then have "r = -1" using assms rm by (auto simp: hello_receive_def Let_def split: option.splits if_splits)
    with v w' show ?thesis by simp
  qed
qed

lemma hello_serve_effect:
  assumes "fds w = f # u # rest" "f \<noteq> u" "f \<notin> set rest" "u \<notin> set rest" "ssl_wf w"
  shows "fds (hello_serve L F u f d w) = rest \<and> live (hello_serve L F u f d w) = live w
       \<and> bad_closes (log (hello_serve L F u f d w)) = bad_closes (log w)
       \<and> (ub (hello_serve L F u f d w) \<longleftrightarrow>
            ub w \<or> fst (wolfSSL_new L w) \<noteq> None \<and> MAX_EXPORT_SZ < unat (mg_blob_sz (received_msg F d)))"
proof -
  obtain ssl_p w2 where nw: "wolfSSL_new L w = (ssl_p, w2)" by fastforce
  show ?thesis
  proof (cases ssl_p)
    case None
    have e: "hello_serve L F u f d w = close u (close f w2)" by (simp add: hello_serve_def nw None)
    have n: "fst (wolfSSL_new L w) = None" "w2 = snd (wolfSSL_new L w)" using nw None by simp_all
    show ?thesis using assms n(1) unfolding e n(2) by simp
  next
    case (Some p)
    define m where "m = received_msg F d"
    define v where "v = flag_ub (MAX_EXPORT_SZ < unat (mg_blob_sz m)) (wolfSSL_set_fd L p f w2)"
    define i where "i = wolfSSL_tls_import L p (take (unat (mg_blob_sz m)) (mg_tls_blob m)) v"
    define x where "x = wolfSSL_set_fd L p f (snd i)"
    define y where "y = snd (wolfSSL_write L p hello_response x)"
    have n: "fst (wolfSSL_new L w) = Some p" "w2 = snd (wolfSSL_new L w)" using nw Some by simp_all
    have p: "p \<notin> live w" using wolfSSL_new_ptr [OF n(1)] ssl_wf_fresh [OF assms(5)] by simp
    have x: "fds x = fds w" "live x = insert p (live w)" "log x = log w"
      "ub x \<longleftrightarrow> ub w \<or> MAX_EXPORT_SZ < unat (mg_blob_sz m)"
      using n(1) by (auto simp: x_def i_def v_def n(2))
    have y: "fds y = fds w" "live y = insert p (live w)" "bad_closes (log y) = bad_closes (log w)"
      "ub y \<longleftrightarrow> ub w \<or> MAX_EXPORT_SZ < unat (mg_blob_sz m)"
      using x by (auto simp: y_def write_keeps)
    have e: "hello_serve L F u f d w =
        (if fst i \<le> 0 then close u (close f (wolfSSL_free p x)) else close u (close f (wolfSSL_free p (wolfSSL_shutdown p y))))"
      by (simp add: hello_serve_def nw Some Let_def split_beta m_def v_def i_def x_def y_def)
    show ?thesis using x y p assms n(1) unfolding e m_def [symmetric] by (cases "fst i \<le> 0") simp_all
  qed
qed


subsection \<open>Properties\<close>

text \<open>The message of the round, when there is a connection to read it from.\<close>

definition hello_message :: "'s world \<Rightarrow> (int \<times> int \<times> bytes) \<times> 's world" where
  "hello_message w = hello_receive (snd (sys_newfd w))"

definition hello_takes :: "'s world \<Rightarrow> bool" where
  "hello_takes w = (0 \<le> fst (sys_newfd w) \<and> fst (fst (hello_message w)) = 0)"

text \<open>
  C25. Whatever the gateway sends and the client does, a round of the first worker frees every session it makes, closes
  no descriptor twice and never one it had before; the descriptors are afterwards as before unless the message
  was refused (it may have carried descriptors that are not closed).  Undefined behaviour is
  exactly the size of a session that exceeds its array.
\<close>

theorem hello_round_releases:
  assumes "fd_wf w" and "ssl_wf w"
  shows "live (hello_round L F w) = live w \<and> bad_closes (log (hello_round L F w)) = bad_closes (log w)
       \<and> set (fds w) \<subseteq> set (fds (hello_round L F w))
       \<and> (set (fds (hello_round L F w)) = set (fds w) \<or> 0 \<le> fst (sys_newfd w) \<and> \<not> hello_takes w)
       \<and> (ub (hello_round L F w) \<longleftrightarrow> ub w \<or> hello_takes w \<and> fst (wolfSSL_new L (snd (hello_message w))) \<noteq> None
            \<and> MAX_EXPORT_SZ < unat (mg_blob_sz (received_msg F (snd (snd (fst (hello_message w)))))))"
proof (cases "fst (sys_newfd w) < 0")
  case True
  then show ?thesis by (simp add: hello_round_def hello_takes_def split_beta Let_def)
next
  case False
  define u where "u = fst (sys_newfd w)"
  obtain r f d v where m: "hello_message w = ((r, f, d), v)" by (metis prod.exhaust)
  have v: "live v = live w" "ub v = ub w" "log v = log w" "next_ssl v = next_ssl w"
    using hello_receive_frame [of "snd (sys_newfd w)"] m unfolding hello_message_def by simp_all
  have w1: "fds (snd (sys_newfd w)) = u # fds w" "u \<notin> set (fds w)" "fd_wf (snd (sys_newfd w))"
    using False sys_newfd_fresh [of w] assms(1) by (simp_all add: u_def fd_wf_def)
  have e: "hello_round L F w = (if r \<noteq> 0 then close u v else hello_serve L F u f d v)"
    using False m by (simp add: hello_round_def split_beta Let_def u_def hello_message_def)
  have t: "hello_takes w \<longleftrightarrow> r = 0" using False by (simp add: hello_takes_def m)
  note rc = hello_receive_fds [OF m [unfolded hello_message_def]]
  show ?thesis
  proof (cases "r = 0")
    case True
    then have "fds v = f # u # fds w" "f \<noteq> u" "f \<notin> set (fds w)" using rc w1 by auto
    from hello_serve_effect [OF this w1(2), of L F d] True v assms(2) show ?thesis
      by (simp add: e t m ssl_wf_def)
  next
    case False
    then have "insert u (set (fds w)) \<subseteq> set (fds v)" "fd_wf v" using rc w1 by simp_all
    with False v w1 \<open>\<not> fst (sys_newfd w) < 0\<close> show ?thesis by (auto simp: e t fd_wf_def)
  qed
qed

theorem hello_round_releases_witness:
  "set (fds (hello_round echo_ssl whole_mem
     ((boot [Ok 0, Msg (zeros SIZEOF_msg) (Some fd_cmsg) False, Ok 0])\<lparr>fds := [3]\<rparr>))) = {3}"
proof -
  let ?w = "(boot [Ok 0, Msg (zeros SIZEOF_msg) (Some fd_cmsg) False, Ok 0])\<lparr>fds := [3]\<rparr> :: bytes world"
  have "zeros SIZEOF_msg \<noteq> []" "0 < SIZEOF_msg" by (simp_all add: zeros_def SIZEOF_msg_def)
  then have "hello_takes ?w"
    by (simp add: hello_takes_def hello_message_def hello_receive_def sys_newfd_def next_answer_def boot_def
        recvmsg_def rights_count_def fd_cmsg_def CMSG_LEN_int_def split_beta lowest_free_nonneg Let_def)
  then show ?thesis using hello_round_releases [of ?w echo_ssl whole_mem] by (simp add: fd_wf_def ssl_wf_def live_def)
qed

text \<open>A message with two descriptors is refused, and both stay open.\<close>

lemma hello_refused_leaks:
  "set (fds (hello_round echo_ssl whole_mem
     ((boot [Ok 0, Msg [0] (Some (fd_cmsg\<lparr>cmsg_len := 24\<rparr>)) False])\<lparr>fds := [3]\<rparr>))) = {2, 1, 3}"
  by (simp add: hello_round_def hello_receive_def sys_newfd_def next_answer_def boot_def recvmsg_def rights_count_def fd_cmsg_def
      CMSG_LEN_int_def SOL_SOCKET_def SCM_RIGHTS_def SIZEOF_msg_def lowest_free_def close_def emit_def upt_rec numeral_2_eq_2 split_beta Let_def)

end
