(* ===== verification/SniGateway.thy ===== *)
theory SniGateway
  imports HotPotato "HOL-Library.Monad_Syntax"
begin

text \<open>
  \<^verbatim>\<open>Performance_old/gateway.c\<close>: the first gateway, which passes the untouched connection to the worker.  It
  peeks at the first bytes; a TLS ClientHello is routed by its server name, a plain request by its URL.

  A read of the peeked bytes is checked: \<open>None\<close> is a read outside them.  The third-party HTTP parser is a
  parameter, the record \<open>http_parser\<close>: which parts of a text it hands to the \<^verbatim>\<open>on_url\<close> callback (offset and
  length), and how much of the text it consumes.  The gateway serves each connection in a child process, a
  world of its own.
\<close>

subsection \<open>The server name of a ClientHello\<close>

definition rd :: "bytes \<Rightarrow> nat \<Rightarrow> byte option" where
  "rd data i = (if i < length data then Some (data ! i) else None)"

definition rd16 :: "bytes \<Rightarrow> nat \<Rightarrow> nat option" where
  "rd16 data i = do { hi \<leftarrow> rd data i; lo \<leftarrow> rd data (i + 1); Some (256 * unat hi + unat lo) }"

text \<open>\<^verbatim>\<open>strncpy\<close> writes exactly \<open>n\<close> bytes: the string up to its terminator, then zeros.\<close>

definition strncpy :: "bytes \<Rightarrow> nat \<Rightarrow> bytes" where
  "strncpy src n = (let s = take n (cstr src) in s @ zeros (n - length s))"

text \<open>
  The loop over the extensions.  The inner result is what is written to \<^verbatim>\<open>hostname\<close> when the name is found,
  \<open>None\<close> for \<^verbatim>\<open>-1\<close>.  A server name entry of another type is skipped from behind its own header.
\<close>

function sni_extensions :: "bytes \<Rightarrow> nat \<Rightarrow> nat \<Rightarrow> bytes option option" where
  "sni_extensions data ext_end pos =
     (if pos + 4 \<le> ext_end then
        do {
          ext_type \<leftarrow> rd16 data pos;
          ext_len \<leftarrow> rd16 data (pos + 2);
          if ext_type \<noteq> 0 then sni_extensions data ext_end (pos + 4 + ext_len)
          else if ext_end < pos + 4 + 5 then Some None
          else do {
            type \<leftarrow> rd data (pos + 4 + 2);
            name_len \<leftarrow> rd16 data (pos + 4 + 3);
            if type = 0 \<and> pos + 9 + name_len \<le> ext_end
            then Some (Some (strncpy (drop (pos + 9) data) name_len @ [0]))
            else sni_extensions data ext_end (pos + 9 + ext_len)
          }
        }
      else Some None)"
  by pat_completeness auto

termination
  by (relation "measure (\<lambda>(data, ext_end, pos). ext_end - pos)") auto

declare sni_extensions.simps [simp del]

definition parse_sni :: "bytes \<Rightarrow> bytes option option" where
  "parse_sni data =
     (let len = length data
      in if len < 43 then Some None
         else do {
           b \<leftarrow> rd data 0;
           if b \<noteq> 0x16 then Some None
           else if len < 43 + 1 then Some None
           else do {
             sid \<leftarrow> rd data 43;
             let pos = 43 + 1 + unat sid;
             if len < pos + 2 then Some None
             else do {
               cs_len \<leftarrow> rd16 data pos;
               let pos = pos + 2 + cs_len;
               if len < pos + 1 then Some None
               else do {
                 comp \<leftarrow> rd data pos;
                 let pos = pos + 1 + unat comp;
                 if len < pos + 2 then Some None
                 else do {
                   ext_total_len \<leftarrow> rd16 data pos;
                   sni_extensions data (min (pos + 2 + ext_total_len) len) (pos + 2)
                 }
               }
             }
           }
         })"

subsection \<open>Choosing the function\<close>

record http_parser =
  hp_urls :: "bytes \<Rightarrow> (nat \<times> nat) list"
  hp_parsed :: "bytes \<Rightarrow> nat"

text \<open>Running the parser on a text: the callback sees the rest of the text and the length of its part.\<close>

definition http_parser_execute :: "http_parser \<Rightarrow> (bytes \<Rightarrow> nat \<Rightarrow> 'd \<Rightarrow> 'd) \<Rightarrow> bytes \<Rightarrow> 'd \<Rightarrow> nat \<times> 'd" where
  "http_parser_execute H on_url text data =
     (hp_parsed H text, foldl (\<lambda>d (off, len). on_url (drop off text) len d) data (hp_urls H text))"

definition strcasestr :: "bytes \<Rightarrow> bytes \<Rightarrow> bool" where
  "strcasestr h n = (find_at (map tolower n) (map tolower (cstr h)) \<noteq> None)"

text \<open>\<^verbatim>\<open>strncmp\<close> with a name of that length.\<close>

definition starts_with :: "bytes \<Rightarrow> nat \<Rightarrow> bytes \<Rightarrow> bool" where
  "starts_with at len name = (length name \<le> len \<and> take (length name) at = name)"

definition on_url_gw :: "bytes \<Rightarrow> nat \<Rightarrow> bytes \<Rightarrow> bytes" where
  "on_url_gw at len function =
     (if starts_with at len (cs ''/sum'') then cs ''sum''
      else if starts_with at len (cs ''/product'') then cs ''product'' else function)"

text \<open>The function name for the peeked bytes, empty when there is none; \<^verbatim>\<open>hostname\<close> has 128 bytes.\<close>

definition pf_target :: "http_parser \<Rightarrow> bytes \<Rightarrow> 's world \<Rightarrow> bytes \<times> 's world" where
  "pf_target H buf w =
     (if buf ! 0 = 0x16 then
        (case parse_sni buf of
           None \<Rightarrow> ([], flag_ub True w)
         | Some None \<Rightarrow> ([], w)
         | Some (Some hostname) \<Rightarrow>
             (if strcasestr hostname (cs ''sum'') then cs ''sum''
              else if strcasestr hostname (cs ''prod'') then cs ''product'' else [],
              flag_ub (128 < length hostname) w))
      else (snd (http_parser_execute H on_url_gw buf []), w))"

subsection \<open>The message and the connection\<close>

record 'f pf_msg =
  pf_function_name :: bytes
  pf_http_request :: bytes
  pf_request_len :: int
  pf_buffered_data :: bytes
  pf_buffered_sz :: int
  pf_param_a :: 'f
  pf_param_b :: 'f

definition pf_zero_msg :: "'f cdouble_mem \<Rightarrow> 'f pf_msg" where
  "pf_zero_msg F =
     \<lparr>pf_function_name = zeros 32, pf_http_request = zeros 8192, pf_request_len = 0,
      pf_buffered_data = zeros 1024, pf_buffered_sz = 0,
      pf_param_a = d_get F (zeros 8), pf_param_b = d_get F (zeros 8)\<rparr>"

definition int_bytes :: "int \<Rightarrow> bytes" where
  "int_bytes i = le_bytes 4 (unat (word_of_int i :: u32))"

definition bytes_int :: "bytes \<Rightarrow> int" where
  "bytes_int b = sint (of_nat (le_val b) :: u32)"

definition pf_msg_bytes :: "'f cdouble_mem \<Rightarrow> 'f pf_msg \<Rightarrow> bytes" where
  "pf_msg_bytes F m =
     pf_function_name m @ pf_http_request m @ int_bytes (pf_request_len m) @ pf_buffered_data m
     @ int_bytes (pf_buffered_sz m) @ d_put F (pf_param_a m) @ d_put F (pf_param_b m)"

definition SIZEOF_pf_msg :: nat where "SIZEOF_pf_msg = 9272"

definition bytes_pf_msg :: "'f cdouble_mem \<Rightarrow> bytes \<Rightarrow> 'f pf_msg" where
  "bytes_pf_msg F b =
     \<lparr>pf_function_name = slice 0 32 b, pf_http_request = slice 32 8192 b,
      pf_request_len = bytes_int (slice 8224 4 b), pf_buffered_data = slice 8228 1024 b,
      pf_buffered_sz = bytes_int (slice 9252 4 b),
      pf_param_a = d_get F (slice 9256 8 b), pf_param_b = d_get F (slice 9264 8 b)\<rparr>"

text \<open>The gateway waits for one byte of the worker before it goes on.\<close>

definition pf_send_to_worker :: "'f cdouble_mem \<Rightarrow> int \<Rightarrow> 'f pf_msg \<Rightarrow> 's world \<Rightarrow> int \<times> 's world" where
  "pf_send_to_worker F client_fd msg w =
     (let (uds_fd, w) = unix_client_connect
            (if cstr (pf_function_name msg) = cs ''sum'' then UDS_PATH_SUM else UDS_PATH_PRODUCT) w
      in if uds_fd < 0 then (-1, w)
         else
           (let (sent, w) = sendmsg_fd uds_fd client_fd (pf_msg_bytes F msg) w;
                (_, w) = sys_read 1 w
            in (if 0 < sent then 0 else -1, close uds_fd w)))"

text \<open>The child that serves one connection.\<close>

definition pf_child :: "'f cdouble_mem \<Rightarrow> http_parser \<Rightarrow> int \<Rightarrow> int \<Rightarrow> 's world \<Rightarrow> 's world" where
  "pf_child F H listen_fd client_fd w =
     (let w = close listen_fd w;
          (ready, w) = sys_value w;
          w = (if 0 < ready then
                 (let ((n, buf), w) = recv_peek client_fd 1023 w
                  in if 5 < n then
                       (let (function, w) = pf_target H buf w
                        in if function \<noteq> [] then
                             snd (pf_send_to_worker F client_fd
                                    ((pf_zero_msg F)\<lparr>pf_function_name := put_cstr 32 function\<rparr>) w)
                           else w)
                     else w)
               else w)
      in close client_fd w)"

text \<open>The loop of the parent.\<close>

definition pf_gateway_round :: "'s world \<Rightarrow> (int \<times> 's world) option \<times> 's world" where
  "pf_gateway_round = accept_fork"

subsection \<open>No read outside the peeked bytes\<close>

text \<open>
  The result of a piece of the parser: every read was inside the buffer, and a name that is found lies behind
  at least \<open>k\<close> bytes of the buffer.
\<close>

definition reads_ok :: "bytes \<Rightarrow> nat \<Rightarrow> bytes option option \<Rightarrow> bool" where
  "reads_ok data k r =
     (case r of None \<Rightarrow> False | Some None \<Rightarrow> True
      | Some (Some h) \<Rightarrow> h \<noteq> [] \<and> last h = 0 \<and> k + length h \<le> Suc (length data))"

lemma rd_some: "i < length data \<Longrightarrow> rd data i = Some (data ! i)"
  by (simp add: rd_def)

lemma rd16_some:
  "i + 1 < length data \<Longrightarrow> rd16 data i = Some (256 * unat (data ! i) + unat (data ! (i + 1)))"
  by (simp add: rd16_def rd_some)

lemma length_strncpy [simp]: "length (strncpy s n) = n"
  by (simp add: strncpy_def Let_def)

lemma reads_ok_if:
  "(c \<Longrightarrow> reads_ok data k a) \<Longrightarrow> (\<not> c \<Longrightarrow> reads_ok data k b) \<Longrightarrow> reads_ok data k (if c then a else b)"
  by simp

lemma reads_ok_stop: "reads_ok data k (Some None)"
  by (simp add: reads_ok_def)

lemma reads_ok_rd:
  "i < length data \<Longrightarrow> (\<And>v. rd data i = Some v \<Longrightarrow> reads_ok data k (f v)) \<Longrightarrow> reads_ok data k (rd data i \<bind> f)"
  by (simp add: rd_some)

lemma reads_ok_rd16:
  "i + 1 < length data \<Longrightarrow> (\<And>v. rd16 data i = Some v \<Longrightarrow> reads_ok data k (f v)) \<Longrightarrow>
   reads_ok data k (rd16 data i \<bind> f)"
  by (simp add: rd16_some)

lemmas reads_ok_intros = reads_ok_if reads_ok_stop reads_ok_rd reads_ok_rd16

lemma reads_ok_mono: "reads_ok data k r \<Longrightarrow> j \<le> k \<Longrightarrow> reads_ok data j r"
  by (auto simp: reads_ok_def split: option.splits)

lemma sni_extensions_in_bounds: "ext_end \<le> length data \<Longrightarrow> reads_ok data (pos + 9) (sni_extensions data ext_end pos)"
proof (induction data ext_end pos rule: sni_extensions.induct)
  case (1 data ext_end pos)
  note IH1 = reads_ok_mono [OF "1.IH"(1) [OF _ _ _ _ "1.prems"]]
  note IH2 = reads_ok_mono [OF "1.IH"(2) [OF _ _ _ _ _ _ _ _ "1.prems"]]
  have found: "reads_ok data (pos + 9) (Some (Some (strncpy x n @ [0])))" if "pos + 9 + n \<le> ext_end" for x n
    using that "1.prems" by (simp add: reads_ok_def)
  show ?case
    using "1.prems"
    by (subst sni_extensions.simps) (intro reads_ok_intros; (assumption | rule IH1 IH2 found | simp)+)
qed

lemma parse_sni_reads_ok: "reads_ok data 58 (parse_sni data)"
  unfolding parse_sni_def Let_def
  by (intro reads_ok_intros; (rule reads_ok_mono [OF sni_extensions_in_bounds])?; auto)

subsection \<open>A ClientHello as a client writes it\<close>

record client_hello =
  ch_random :: bytes
  ch_session_id :: bytes
  ch_cipher_suites :: bytes
  ch_compression :: bytes
  ch_extensions :: "(nat \<times> bytes) list"

definition be2 :: "nat \<Rightarrow> bytes" where
  "be2 n = [of_nat (n div 256), of_nat (n mod 256)]"

definition ext_bytes :: "nat \<times> bytes \<Rightarrow> bytes" where
  "ext_bytes e = be2 (fst e) @ be2 (length (snd e)) @ snd e"

definition server_name_ext :: "bytes \<Rightarrow> nat \<times> bytes" where
  "server_name_ext name = (0, be2 (length name + 3) @ [0] @ be2 (length name) @ name)"

definition hello_front :: "client_hello \<Rightarrow> bytes" where
  "hello_front h =
     [of_nat (length (ch_session_id h))] @ ch_session_id h
     @ be2 (length (ch_cipher_suites h)) @ ch_cipher_suites h
     @ [of_nat (length (ch_compression h))] @ ch_compression h"

definition hello_exts :: "client_hello \<Rightarrow> bytes" where
  "hello_exts h = concat (map ext_bytes (ch_extensions h))"

definition hello_bytes :: "client_hello \<Rightarrow> bytes" where
  "hello_bytes h =
     (let body_len = 2 + length (ch_random h) + length (hello_front h) + 2 + length (hello_exts h)
      in [0x16, 3, 1] @ be2 (body_len + 4)
         @ [1, of_nat (body_len div 65536)] @ be2 (body_len mod 65536)
         @ [3, 3] @ ch_random h @ hello_front h @ be2 (length (hello_exts h)) @ hello_exts h)"

definition hello_wf :: "client_hello \<Rightarrow> bool" where
  "hello_wf h =
     (length (ch_random h) = 32 \<and> length (ch_session_id h) \<le> 32 \<and> length (ch_cipher_suites h) < 65536
    \<and> length (ch_compression h) < 256 \<and> length (hello_exts h) < 65536
    \<and> (\<forall>e \<in> set (ch_extensions h). fst e < 65536 \<and> length (snd e) < 65536))"

lemma length_be2 [simp]: "length (be2 n) = 2"
  by (simp add: be2_def)

lemma length_ext_bytes [simp]: "length (ext_bytes e) = length (snd e) + 4"
  by (simp add: ext_bytes_def)

lemma ext_bytes_server_name:
  "ext_bytes (server_name_ext name) =
     be2 0 @ be2 (length name + 5) @ be2 (length name + 3) @ [0] @ be2 (length name) @ name"
proof -
  have l: "length (snd (server_name_ext name)) = length name + 5" by (simp add: server_name_ext_def)
  show ?thesis unfolding ext_bytes_def l by (simp add: server_name_ext_def)
qed

lemma rd_at: "rd (p @ b # r) (length p) = Some b"
  by (simp add: rd_some)

lemma rd16_at: "n < 65536 \<Longrightarrow> rd16 (p @ be2 n @ r) (length p) = Some n"
proof -
  assume n: "n < 65536"
  then have "unat (of_nat (n div 256) :: byte) = n div 256" "unat (of_nat (n mod 256) :: byte) = n mod 256"
    by (simp_all add: unat_of_nat take_bit_nat_eq_self)
  then show ?thesis by (simp add: be2_def nth_append rd16_some)
qed

text \<open>The same, with the position given by a sum.\<close>

lemma rd_pos: "length p = i \<Longrightarrow> data = p @ b # r \<Longrightarrow> rd data i = Some b"
  using rd_at by blast

lemma rd16_pos: "length p = i \<Longrightarrow> data = p @ be2 n @ r \<Longrightarrow> n < 65536 \<Longrightarrow> rd16 data i = Some n"
  using rd16_at by blast

lemma strncpy_id: "0 \<notin> set name \<Longrightarrow> strncpy (name @ r) (length name) = name"
proof -
  assume n: "0 \<notin> set name"
  then have "takeWhile (\<lambda>c. c \<noteq> 0) name = name" by (intro takeWhile_all) auto
  with n show ?thesis by (simp add: strncpy_def cstr_def takeWhile_append zeros_def Let_def)
qed

text \<open>The two ways a round of the loop goes on.\<close>

lemma sni_found:
  assumes "rd16 data pos = Some 0" "rd16 data (pos + 2) = Some l" "rd data (pos + 4 + 2) = Some 0"
    and "rd16 data (pos + 4 + 3) = Some n" "pos + 9 + n \<le> ext_end"
  shows "sni_extensions data ext_end pos = Some (Some (strncpy (drop (pos + 9) data) n @ [0]))"
  using assms by (subst sni_extensions.simps) simp

lemma sni_skip:
  assumes "rd16 data pos = Some t" "t \<noteq> 0" "rd16 data (pos + 2) = Some l" "pos + 4 \<le> ext_end"
  shows "sni_extensions data ext_end pos = sni_extensions data ext_end (pos + 4 + l)"
  using assms by (subst sni_extensions.simps) simp

lemma sni_extensions_finds:
  assumes "data = p @ concat (map ext_bytes pre) @ ext_bytes (server_name_ext name) @ r"
    and "length p + length (concat (map ext_bytes pre)) + 9 + length name \<le> ext_end"
    and "\<forall>e \<in> set pre. fst e \<noteq> 0 \<and> fst e < 65536 \<and> length (snd e) < 65536"
    and "0 \<notin> set name" and "length name + 5 < 65536"
  shows "sni_extensions data ext_end (length p) = Some (Some (name @ [0]))"
  using assms
proof (induction pre arbitrary: p)
  case Nil
  let ?n = "length name"
  let ?tl = "be2 (?n + 3) @ [0] @ be2 ?n @ name @ r"
  have d: "data = p @ be2 0 @ be2 (?n + 5) @ ?tl" using Nil.prems(1) by (simp add: ext_bytes_server_name)
  have 1: "rd16 data (length p) = Some 0" by (rule rd16_pos [OF refl d]) simp
  have 2: "rd16 data (length p + 2) = Some (?n + 5)"
    using d Nil.prems(5) by (intro rd16_pos [of "p @ be2 0"]) simp_all
  have 3: "rd data (length p + 4 + 2) = Some 0"
    using d by (intro rd_pos [of "p @ be2 0 @ be2 (?n + 5) @ be2 (?n + 3)"]) simp_all
  have 4: "rd16 data (length p + 4 + 3) = Some ?n"
    using d Nil.prems(5) by (intro rd16_pos [of "p @ be2 0 @ be2 (?n + 5) @ be2 (?n + 3) @ [0]"]) simp_all
  have 5: "drop (length p + 9) data = name @ r" using d by simp
  show ?case
    using sni_found [OF 1 2 3 4] Nil.prems(2,4) by (simp add: 5 strncpy_id)
next
  case (Cons e pre)
  obtain t b where e: "e = (t, b)" by fastforce
  have tb: "t \<noteq> 0" "t < 65536" "length b < 65536" using Cons.prems e by simp_all
  let ?tl = "concat (map ext_bytes pre) @ ext_bytes (server_name_ext name) @ r"
  have d: "data = p @ be2 t @ be2 (length b) @ b @ ?tl" using Cons.prems(1) by (simp add: e ext_bytes_def [of "(t, b)"])
  have 1: "rd16 data (length p) = Some t" by (rule rd16_pos [OF refl d tb(2)])
  have 2: "rd16 data (length p + 2) = Some (length b)" by (rule rd16_pos [of "p @ be2 t", OF _ _ tb(3)]) (use d in simp_all)
  have "sni_extensions data ext_end (length (p @ ext_bytes e)) = Some (Some (name @ [0]))"
    using Cons.prems by (intro Cons.IH) (simp_all add: ac_simps)
  then have "sni_extensions data ext_end (length p + 4 + length b) = Some (Some (name @ [0]))"
    by (simp add: e ac_simps)
  with sni_skip [OF 1 tb(1) 2] Cons.prems(2) show ?case by simp
qed

text \<open>Where the server name ends, when the extensions \<open>pre\<close> come before it.\<close>

definition sni_end :: "client_hello \<Rightarrow> (nat \<times> bytes) list \<Rightarrow> bytes \<Rightarrow> nat" where
  "sni_end h pre name =
     43 + length (hello_front h) + 2 + length (concat (map ext_bytes pre)) + 9 + length name"

lemma hello_split:
  assumes "length (ch_random h) = 32" and "ch_extensions h = pre @ server_name_ext name # post"
    and "sni_end h pre name \<le> n"
  shows "\<exists>f r. take n (hello_bytes h) = f @ hello_front h @ be2 (length (hello_exts h))
                 @ concat (map ext_bytes pre) @ ext_bytes (server_name_ext name) @ r
             \<and> length f = 43 \<and> f ! 0 = 0x16"
proof -
  define b where "b = 2 + length (ch_random h) + length (hello_front h) + 2 + length (hello_exts h)"
  define f where "f = [0x16, 3, 1] @ be2 (b + 4) @ [1, of_nat (b div 65536)] @ be2 (b mod 65536) @ [3, 3] @ ch_random h"
  define g where "g = f @ hello_front h @ be2 (length (hello_exts h)) @ concat (map ext_bytes pre) @ ext_bytes (server_name_ext name)"
  have f: "length f = 43" "f ! 0 = 0x16" using assms(1) by (simp_all add: f_def)
  have h: "hello_bytes h = g @ concat (map ext_bytes post)"
    using assms(2) by (simp add: hello_bytes_def Let_def b_def f_def g_def hello_exts_def)
  have "length g \<le> n"
    using assms(3) f by (simp add: g_def sni_end_def ext_bytes_server_name)
  then have "take n (hello_bytes h) = g @ take (n - length g) (concat (map ext_bytes post))" by (simp add: h)
  with f show ?thesis by (auto simp: g_def)
qed

lemma parse_sni_reads_hello:
  assumes wf: "hello_wf h" and e: "ch_extensions h = pre @ server_name_ext name # post"
    and pre: "\<forall>e \<in> set pre. fst e \<noteq> 0" and name: "0 \<notin> set name"
    and n: "sni_end h pre name \<le> n"
  shows "parse_sni (take n (hello_bytes h)) = Some (Some (name @ [0]))"
proof -
  let ?s = "ch_session_id h" and ?c = "ch_cipher_suites h" and ?z = "ch_compression h"
  obtain f r where d: "take n (hello_bytes h) = f @ hello_front h @ be2 (length (hello_exts h))
      @ concat (map ext_bytes pre) @ ext_bytes (server_name_ext name) @ r"
    and f: "length f = 43" "f ! 0 = 0x16"
    using hello_split [OF _ e n] wf by (auto simp: hello_wf_def)
  define data where "data = take n (hello_bytes h)"
  define t where "t = be2 (length (hello_exts h)) @ concat (map ext_bytes pre) @ ext_bytes (server_name_ext name) @ r"
  have d': "data = f @ [of_nat (length ?s)] @ ?s @ be2 (length ?c) @ ?c @ [of_nat (length ?z)] @ ?z @ t"
    by (simp add: data_def d t_def hello_front_def)
  have l: "length ?s \<le> 32" "length ?c < 65536" "length ?z < 256" "length (hello_exts h) < 65536"
    and pre': "\<forall>e \<in> set pre. fst e \<noteq> 0 \<and> fst e < 65536 \<and> length (snd e) < 65536"
    and nl: "length name + 5 < 65536"
    using wf pre e by (auto simp: hello_wf_def server_name_ext_def)
  have u: "unat (of_nat (length ?s) :: byte) = length ?s" "unat (of_nat (length ?z) :: byte) = length ?z"
    using l by (simp_all add: unat_of_nat take_bit_nat_eq_self)
  let ?q = "47 + length ?s + length ?c + length ?z"
  have 0: "rd data 0 = Some 0x16" using f by (simp add: d' nth_append rd_some)
  have 1: "rd data 43 = Some (of_nat (length ?s))" by (rule rd_pos [OF f(1)]) (simp add: d')
  have 2: "rd16 data (44 + length ?s) = Some (length ?c)"
    using f l by (intro rd16_pos [of "f @ [of_nat (length ?s)] @ ?s"]) (simp_all add: d')
  have 3: "rd data (46 + length ?s + length ?c) = Some (of_nat (length ?z))"
    using f by (intro rd_pos [of "f @ [of_nat (length ?s)] @ ?s @ be2 (length ?c) @ ?c"]) (simp_all add: d')
  have p: "length (f @ hello_front h) = ?q" using f by (simp add: hello_front_def)
  have 4: "rd16 data ?q = Some (length (hello_exts h))"
    by (rule rd16_pos [OF p _ l(4)]) (simp add: data_def d)
  have len: "length data = ?q + 2 + length (concat (map ext_bytes pre)) + 9 + length name + length r"
    using p by (simp add: data_def d ext_bytes_server_name)
  have ex: "length (concat (map ext_bytes pre)) + 9 + length name \<le> length (hello_exts h)"
    by (simp add: hello_exts_def e ext_bytes_server_name)
  have q: "length (f @ hello_front h @ be2 (length (hello_exts h))) = 49 + length ?s + length ?c + length ?z"
    using p by simp
  have "sni_extensions data (min (49 + length ?s + length ?c + length ?z + length (hello_exts h)) (length data))
          (length (f @ hello_front h @ be2 (length (hello_exts h)))) = Some (Some (name @ [0]))"
    using len ex by (intro sni_extensions_finds [OF _ _ pre' name nl]) (simp_all only: q, simp_all add: data_def d)
  note 5 = this [unfolded q]
  show ?thesis
    using 0 1 2 3 4 5 len unfolding data_def [symmetric] by (simp add: parse_sni_def Let_def u ac_simps)
qed

subsection \<open>Routing\<close>

lemma pf_target_frame [simp]:
  "fds (snd (pf_target H buf w)) = fds w" "rxq (snd (pf_target H buf w)) = rxq w"
  "live (snd (pf_target H buf w)) = live w" "next_ssl (snd (pf_target H buf w)) = next_ssl w"
  "log (snd (pf_target H buf w)) = log w"
  by (auto simp: pf_target_def split: option.split)

lemma pf_target_name: "fst (pf_target H buf w) \<in> {[], cs ''sum'', cs ''product''}"
proof -
  have "foldl (\<lambda>d (off, len). on_url_gw (drop off buf) len d) d l \<in> {[], cs ''sum'', cs ''product''}"
    if "d \<in> {[], cs ''sum'', cs ''product''}" for d l
    using that by (induction l arbitrary: d) (auto simp: on_url_gw_def split: prod.splits)
  then show ?thesis by (auto simp: pf_target_def http_parser_execute_def split: option.split)
qed

lemma pf_send_effect:
  assumes wf: "fd_wf w" and s: "pf_send_to_worker F fd m w = (r, w')"
  shows "set (fds w') = set (fds w) \<and> fd_wf w' \<and> tidy w w' \<and> next_ssl w' = next_ssl w
       \<and> handed fd (log w') = handed fd (log w) + (if r = 0 then 1 else 0) \<and> (r = 0 \<or> r = -1)"
proof (rule forward_effect [where g = "\<lambda>w. snd (sys_read 1 w)" and pl = "pf_msg_bytes F m" and
      path = "if cstr (pf_function_name m) = cs ''sum'' then UDS_PATH_SUM else UDS_PATH_PRODUCT", OF wf])
qed (use s [unfolded pf_send_to_worker_def Let_def split_beta] in \<open>simp_all only: split_beta sys_read_frame\<close>)

lemma recv_peek_data: "recv_peek fd k w = ((n, b), w') \<Longrightarrow> 0 < n \<Longrightarrow> b = take k (rxq w fd) \<and> b \<noteq> [] \<and> n = int (length b)"
  by (auto simp: recv_peek_def Let_def split_beta split: if_splits)

text \<open>The bytes of a name too long for the array, which the child may find in the peeked bytes.\<close>

definition long_name :: "bytes \<Rightarrow> bool" where
  "long_name buf = (\<exists>h. parse_sni buf = Some (Some h) \<and> 128 < length h)"

lemma ub_pf_target: "ub (snd (pf_target H buf w)) = (ub w \<or> (buf ! 0 = 0x16 \<and> long_name buf))"
  using parse_sni_reads_ok [of buf]
  by (auto simp: pf_target_def long_name_def reads_ok_def split: option.splits)

lemma pf_child_effect:
  assumes wf: "fd_wf w" and fds: "l \<in> set (fds w)" "fd \<in> set (fds w)" "l \<noteq> fd"
  shows "set (fds (pf_child F H l fd w)) = set (fds w) - {l, fd} \<and> fd_wf (pf_child F H l fd w)
       \<and> live (pf_child F H l fd w) = live w \<and> bad_closes (log (pf_child F H l fd w)) = bad_closes (log w)
       \<and> handed fd (log (pf_child F H l fd w)) \<le> Suc (handed fd (log w))
       \<and> (ub (pf_child F H l fd w) \<longrightarrow> ub w \<or> long_name (take 1023 (rxq w fd)))"
proof -
  define w1 where "w1 = snd (sys_value (close l w))"
  obtain n b w2 where pk: "recv_peek fd 1023 w1 = ((n, b), w2)" by (metis prod.exhaust)
  obtain f w3 where tg: "pf_target H b w2 = (f, w3)" by fastforce
  obtain r w4 where sd: "pf_send_to_worker F fd ((pf_zero_msg F)\<lparr>pf_function_name := put_cstr 32 f\<rparr>) w3 = (r, w4)"
    by fastforce
  define v where "v = (if 0 < fst (sys_value (close l w)) then if 5 < n then if f \<noteq> [] then w4 else w3 else w2 else w1)"
  have e: "pf_child F H l fd w = close fd v"
    using pk tg sd by (simp add: pf_child_def w1_def v_def split_beta Let_def)
  have w1: "fds w1 = remove1 l (fds w)" "live w1 = live w" "ub w1 = ub w" "rxq w1 = rxq w"
    "log w1 = EvClose l # log w"
    using fds by (simp_all add: w1_def)
  have w2: "fds w2 = fds w1" "live w2 = live w1" "ub w2 = ub w1" "log w2 = log w1"
    using recv_peek_frame [of fd 1023 w1] unfolding pk by simp_all
  have w3: "fds w3 = fds w1" "live w3 = live w1" "log w3 = log w1" "ub w3 \<longrightarrow> ub w \<or> long_name b"
    using pf_target_frame [of H b w2] ub_pf_target [of H b w2] unfolding tg by (simp_all add: w2 w1)
  have lb: "5 < n \<Longrightarrow> b = take 1023 (rxq w fd)" using recv_peek_data [OF pk] by (simp add: w1)
  have wf3: "fd_wf w3" using wf by (simp add: fd_wf_def w3 w1)
  note w4 = pf_send_effect [OF wf3 sd]
  have "set (fds v) = set (fds w) - {l} \<and> fd_wf v \<and> live v = live w \<and> bad_closes (log v) = bad_closes (log w)
      \<and> handed fd (log v) \<le> Suc (handed fd (log w)) \<and> (ub v \<longrightarrow> ub w \<or> long_name (take 1023 (rxq w fd)))"
    using w1 w2 w3 w4 wf wf3 lb by (auto simp: v_def fd_wf_def tidy_def)
  then show ?thesis using fds unfolding e by (auto simp: fd_wf_def)
qed

subsection \<open>Properties\<close>

text \<open>
  C26. Whatever bytes a client sends first, the server-name parser reads only inside them, and the name it
  returns, terminator included, was taken from behind at least 57 bytes of handshake.
\<close>

theorem parse_sni_stays_inside:
  "\<exists>r. parse_sni data = Some r
     \<and> (case r of None \<Rightarrow> True | Some h \<Rightarrow> h \<noteq> [] \<and> last h = 0 \<and> 57 + length h \<le> length data)"
  using parse_sni_reads_ok [of data] by (auto simp: reads_ok_def split: option.splits)

text \<open>
  C17. Routing by server name: for every well-formed ClientHello whose server name lies in the peeked bytes,
  whatever its session id, cipher suites and other extensions, and even when the rest of it is cut off, the
  gateway picks \<^verbatim>\<open>sum\<close> when the name contains it in any case, else \<^verbatim>\<open>product\<close> when it contains \<^verbatim>\<open>prod\<close>; and it
  overruns its array of 128 bytes exactly when the name has 128 bytes or more.
\<close>

theorem sni_routes_connection:
  assumes "hello_wf h" and "ch_extensions h = pre @ server_name_ext name # post"
    and "\<forall>e \<in> set pre. fst e \<noteq> 0" and "0 \<notin> set name" and "sni_end h pre name \<le> n"
  shows "pf_target H (take n (hello_bytes h)) w =
           (if find_at (cs ''sum'') (map tolower name) \<noteq> None then cs ''sum''
            else if find_at (cs ''prod'') (map tolower name) \<noteq> None then cs ''product'' else [],
            flag_ub (128 \<le> length name) w)"
proof -
  have "length (ch_random h) = 32" using assms(1) by (simp add: hello_wf_def)
  then obtain f t where d: "take n (hello_bytes h) = f @ t" "length f = 43" "f ! 0 = 0x16"
    using hello_split [OF _ assms(2,5)] by blast
  have b: "take n (hello_bytes h) ! 0 = 0x16" using d by (simp add: nth_append)
  have c: "cstr (name @ [0]) = name" by (rule cstr_nul [OF assms(4)])
  have l: "map tolower (cs ''sum'') = cs ''sum''" "map tolower (cs ''prod'') = cs ''prod''"
    by (simp_all add: cs_def tolower_def)
  show ?thesis
    unfolding pf_target_def b parse_sni_reads_hello [OF assms]
    by (simp add: strcasestr_def c l less_Suc_eq_le)
qed

definition example_hello :: "bytes \<Rightarrow> client_hello" where
  "example_hello name =
     \<lparr>ch_random = zeros 32, ch_session_id = [1, 2, 3], ch_cipher_suites = [0x13, 1], ch_compression = [0],
      ch_extensions = [(16, [0, 1, 9])] @ server_name_ext name # [(43, [3, 4])]\<rparr>"

theorem sni_routes_connection_witness:
  "pf_target (\<lparr>hp_urls = (\<lambda>_. []), hp_parsed = length\<rparr>) (take 1023 (hello_bytes (example_hello (cs ''Prod.local''))))
     (boot [] :: unit world) = (cs ''product'', flag_ub False (boot []))"
proof -
  let ?h = "example_hello (cs ''Prod.local'')"
  have "hello_wf ?h" "sni_end ?h [(16, [0, 1, 9])] (cs ''Prod.local'') \<le> 1023"
    by (simp_all add: hello_wf_def example_hello_def hello_exts_def server_name_ext_def sni_end_def hello_front_def)
  then show ?thesis
    using sni_routes_connection [of ?h "[(16, [0, 1, 9])]" "cs ''Prod.local''" "[(43, [3, 4])]" 1023]
    by (simp add: example_hello_def cs_def tolower_def)
qed

text \<open>
  The child of the first gateway, whatever the client sends and whichever calls fail, ends with the
  connection and the listener closed in its table and nothing else changed there, closes nothing twice, hands the
  connection over at most once, and has undefined behaviour only through an overlong server name.
\<close>

theorem pf_child_releases:
  assumes "fd_wf w" and "l \<in> set (fds w)" and "fd \<in> set (fds w)" and "l \<noteq> fd"
  shows "set (fds (pf_child F H l fd w)) = set (fds w) - {l, fd}
       \<and> bad_closes (log (pf_child F H l fd w)) = bad_closes (log w)
       \<and> handed fd (log (pf_child F H l fd w)) \<le> Suc (handed fd (log w))
       \<and> (ub (pf_child F H l fd w) \<longrightarrow> ub w
            \<or> (\<exists>h. parse_sni (take 1023 (rxq w fd)) = Some (Some h) \<and> 128 < length h))"
  using pf_child_effect [OF assms, of F H] by (auto simp: long_name_def)

theorem pf_child_releases_witness:
  "set (fds (pf_child whole_mem (\<lparr>hp_urls = (\<lambda>_. []), hp_parsed = length\<rparr>) 3 4
     ((boot [Ok 1, Ok 0])\<lparr>fds := [4, 3]\<rparr> :: unit world))) = {}"
  using pf_child_releases [of "(boot [Ok 1, Ok 0])\<lparr>fds := [4, 3]\<rparr> :: unit world" 3 4 whole_mem
      "\<lparr>hp_urls = (\<lambda>_. []), hp_parsed = length\<rparr>"]
  by (simp add: fd_wf_def)

end
