(* ===== verification/KeepAlive.thy ===== *)
theory KeepAlive
  imports FnIo
begin

text \<open>
  The contract of a keep-alive loop: a server that reads a request, writes its answer and goes on until a
  request has no answer or the connection ends.  The servers of \<^verbatim>\<open>Performance_old\<close> and \<^verbatim>\<open>Eval_perf\<close> have such
  loops, over TLS or on a socket; what a client gets from them is proved once, from the contract.
\<close>

text \<open>Reads, writes and accepts on sockets use up the answers they are given.\<close>

lemma slen_sys_write: "slen (snd (sys_write fd b w)) \<le> slen w"
  using slen_next_answer [of w] by (auto simp: sys_write_def Let_def split_beta split: answer.split)

lemma slen_sys_read: "slen (snd (sys_read n w)) \<le> slen w"
  using slen_next_answer [of w] by (auto simp: sys_read_def Let_def split_beta split: answer.split)

lemma sys_read_progress: "sys_read n w = ((r, b), w') \<Longrightarrow> 0 < r \<Longrightarrow> slen w' < slen w"
  using next_answer_progress [of w]
  by (auto simp: sys_read_def Let_def split_beta slen_def [symmetric] split: answer.splits)

lemma sys_newfd_progress: "0 \<le> fst (sys_newfd w) \<Longrightarrow> slen (snd (sys_newfd w)) < slen w"
  using next_answer_progress [of w]
  by (auto simp: sys_newfd_def Let_def split_beta slen_def split: answer.splits)

text \<open>What was written to a socket.\<close>

fun sock_output :: "int \<Rightarrow> event list \<Rightarrow> bytes" where
  "sock_output fd [] = []"
| "sock_output fd (e # l) =
     sock_output fd l @ (case e of EvWrite x b \<Rightarrow> if x = fd then b else [] | _ \<Rightarrow> [])"

text \<open>The answers of the system while it delivers the requests \<open>rs\<close> and accepts each reply whole.\<close>

definition exchanges :: "(bytes \<Rightarrow> bytes option) \<Rightarrow> bytes list \<Rightarrow> answer list" where
  "exchanges reply rs = concat (map (\<lambda>r. [Data r, Ok (int (length (the (reply r))))]) rs)"

definition answerable :: "nat \<Rightarrow> (bytes \<Rightarrow> bytes option) \<Rightarrow> bytes list \<Rightarrow> bool" where
  "answerable limit reply rs = (\<forall>r \<in> set rs. r \<noteq> [] \<and> length r \<le> limit \<and> reply r \<noteq> None)"

definition replies :: "(bytes \<Rightarrow> bytes option) \<Rightarrow> bytes list \<Rightarrow> bytes" where
  "replies reply rs = concat (map (\<lambda>r. the (reply r)) rs)"

locale keepalive_loop =
  fixes serve :: "'s world \<Rightarrow> 's world"
    and reply :: "bytes \<Rightarrow> bytes option"
    and out :: "event list \<Rightarrow> bytes"
    and limit :: nat
  assumes round: "script w = Data r # Ok (int (length a)) # as \<Longrightarrow> r \<noteq> [] \<Longrightarrow> length r \<le> limit \<Longrightarrow> reply r = Some a \<Longrightarrow>
          \<exists>w'. serve w = serve w' \<and> script w' = as \<and> out (log w') = out (log w) @ a"
    and stop: "script w = Err e # as \<Longrightarrow> script (serve w) = as \<and> out (log (serve w)) = out (log w)"
begin

lemma answers_in_order:
  "answerable limit reply rs \<Longrightarrow> script w = exchanges reply rs @ Err e # as \<Longrightarrow>
     script (serve w) = as \<and> out (log (serve w)) = out (log w) @ replies reply rs"
proof (induction rs arbitrary: w)
  case Nil
  then show ?case using stop [of w e as] by (simp add: exchanges_def replies_def)
next
  case (Cons r rs)
  obtain a where a: "reply r = Some a" "r \<noteq> []" "length r \<le> limit"
    using Cons.prems(1) by (auto simp: answerable_def)
  have "script w = Data r # Ok (int (length a)) # exchanges reply rs @ Err e # as"
    using Cons.prems(2) a by (simp add: exchanges_def)
  from round [OF this a(2,3,1)] obtain w' where
    w': "serve w = serve w'" "script w' = exchanges reply rs @ Err e # as" "out (log w') = out (log w) @ a" by blast
  have "answerable limit reply rs" using Cons.prems(1) by (simp add: answerable_def)
  from Cons.IH [OF this w'(2)] w' a show ?case by (simp add: replies_def)
qed

end

end
