(* ===== verification/PerfWorker.thy ===== *)
theory PerfWorker
  imports SniGateway KeepAlive
begin

text \<open>
  \<^verbatim>\<open>Performance_old/worker_sum.c\<close> and \<^verbatim>\<open>worker_product.c\<close>, two copies of one program (they differ in the port,
  the path and the log text), and \<^verbatim>\<open>classic_proxy.c\<close>.  A message on the Unix socket brings either a connection
  (descriptor and structure) or the bytes of a plain request of the proxy; a connection on the TCP port is
  served directly.  Every connection has a child process, which ends by writing one byte to the sender.

  A null session pointer is an \<open>option\<close>: the library's calls refuse it with an error.
\<close>

subsection \<open>Answering one request\<close>

record 'f http_data =
  hd_a :: 'f
  hd_b :: 'f
  hd_function :: bytes

definition zero_http_data :: "'f cdouble_mem \<Rightarrow> 'f http_data" where
  "zero_http_data F = \<lparr>hd_a = d_get F (zeros 8), hd_b = d_get F (zeros 8), hd_function = []\<rparr>"

text \<open>A parameter of the query, looked for within the URL and read to the end of the number.\<close>

definition query_param :: "'f cdouble_mem \<Rightarrow> bytes \<Rightarrow> nat \<Rightarrow> bytes \<Rightarrow> 'f \<Rightarrow> 'f" where
  "query_param F q rem key old =
     (case find_at key (take rem q) of None \<Rightarrow> old | Some i \<Rightarrow> d_atof F (cstr (drop (i + 2) q)))"

definition on_url :: "'f cdouble_mem \<Rightarrow> bytes \<Rightarrow> nat \<Rightarrow> 'f http_data \<Rightarrow> 'f http_data" where
  "on_url F at len data =
     (if len = 0 then data
      else
        (let data = data\<lparr>hd_function := on_url_gw at len (hd_function data)\<rparr>
         in case memchr at 63 len of
              None \<Rightarrow> data
            | Some i \<Rightarrow>
                (let q = drop i at; rem = len - i
                 in data\<lparr>hd_a := query_param F q rem (cs ''a='') (hd_a data),
                         hd_b := query_param F q rem (cs ''b='') (hd_b data)\<rparr>)))"

definition pw_text :: "'f cdouble_mem \<Rightarrow> 'f http_data \<Rightarrow> bytes" where
  "pw_text F d =
     cs ''{\"result\": '' @ d_fmt2 F (if hd_function d = cs ''sum'' then d_add F (hd_a d) (hd_b d)
                                      else d_mul F (hd_a d) (hd_b d)) @ cs ''}'' @ [LF]"

definition pw_head :: "nat \<Rightarrow> bytes" where
  "pw_head blen =
     cs ''HTTP/1.1 200 OK'' @ crlf @ cs ''Content-Type: application/json'' @ crlf
     @ cs ''Content-Length: '' @ dec_digits blen @ crlf @ cs ''Connection: keep-alive'' @ crlf @ crlf"

text \<open>The answer; \<open>None\<close> ends the connection.  The body is cut to its 128 bytes, its length is not.\<close>

definition pw_answer :: "'f cdouble_mem \<Rightarrow> http_parser \<Rightarrow> bytes \<Rightarrow> bytes option" where
  "pw_answer F H req =
     (let (nparsed, d) = http_parser_execute H (on_url F) req (zero_http_data F)
      in if 0 < nparsed \<and> (hd_function d = cs ''sum'' \<or> hd_function d = cs ''product'')
         then Some (pw_head (length (pw_text F d)) @ take 127 (pw_text F d))
         else None)"

subsection \<open>The requests of a connection\<close>

definition pw_read :: "'s wolfssl \<Rightarrow> nat option \<Rightarrow> bool \<Rightarrow> 's world \<Rightarrow> (int \<times> bytes) \<times> 's world" where
  "pw_read L ssl_p is_tls w =
     (if is_tls then
        (case ssl_p of
           None \<Rightarrow> ((-1, []), w)
         | Some p \<Rightarrow> (let ((n, b, _), w) = wolfSSL_read L p (MAX_REQUEST_SZ - 1) w in ((n, b), w)))
      else sys_read (MAX_REQUEST_SZ - 1) w)"

definition pw_write :: "'s wolfssl \<Rightarrow> nat option \<Rightarrow> int \<Rightarrow> bool \<Rightarrow> bytes \<Rightarrow> 's world \<Rightarrow> 's world" where
  "pw_write L ssl_p fd is_tls resp w =
     (let w = flag_ub (512 < length resp) w
      in if is_tls then (case ssl_p of None \<Rightarrow> w | Some p \<Rightarrow> snd (wolfSSL_write L p resp w))
         else snd (sys_write fd resp w))"

text \<open>A read that delivered something used up an answer.\<close>

lemma pw_read_progress: "pw_read L ssl_p is_tls w = ((n, b), w') \<Longrightarrow> 0 < n \<Longrightarrow> slen w' < slen w"
  by (cases "is_tls"; cases ssl_p)
    (auto simp: pw_read_def split_beta slen_def next_answer_def sys_read_def Let_def wolfSSL_read_def
        ssl_modify_def read_bytes_def flag_ub_def split: answer.splits list.splits if_splits option.splits)

lemma slen_pw_write: "slen (pw_write L ssl_p fd is_tls resp w) \<le> slen w"
  using slen_sys_write [of fd resp "flag_ub (512 < length resp) w"] slen_wolfSSL_write [of L _ resp "flag_ub (512 < length resp) w"]
  by (auto simp: pw_write_def Let_def split: option.split)

text \<open>
  The loop.  \<open>initial\<close> is the text of the first round, when the caller brought one; a later round reads.
\<close>

function pw_requests ::
  "'s wolfssl \<Rightarrow> 'f cdouble_mem \<Rightarrow> http_parser \<Rightarrow> nat option \<Rightarrow> int \<Rightarrow> bool \<Rightarrow> bytes option \<Rightarrow> 's world \<Rightarrow> 's world" where
  "pw_requests L F H ssl_p fd is_tls initial w =
     (case (case initial of Some b \<Rightarrow> ((int (length b), b), w) | None \<Rightarrow> pw_read L ssl_p is_tls w) of
        ((n, req), w1) \<Rightarrow>
          if n \<le> 0 then w1
          else
            (case pw_answer F H req of
               None \<Rightarrow> w1
             | Some resp \<Rightarrow> pw_requests L F H ssl_p fd is_tls None (pw_write L ssl_p fd is_tls resp w1)))"
  by pat_completeness auto

termination
proof (relation "measure (\<lambda>(L, F, H, p, fd, t, i, w). slen w + (if i = None then 0 else 1))", goal_cases)
  case 1
  show ?case by simp
next
  case (2 L F H p fd t i w x w1 n req resp)
  then show ?case
    using slen_pw_write [of L p fd t resp w1] pw_read_progress [of L p t w n req w1]
    by (auto split: option.splits)
qed

declare pw_requests.simps [simp del]

text \<open>
  \<^verbatim>\<open>handle_client\<close>: the bytes the caller brings are copied into the request array, at most 8191 of them; a
  count beyond the array they come from is read out of bounds.
\<close>

definition handle_client ::
  "'s wolfssl \<Rightarrow> 'f cdouble_mem \<Rightarrow> http_parser \<Rightarrow> nat option \<Rightarrow> int \<Rightarrow> bool \<Rightarrow> (bytes \<times> int) option \<Rightarrow> 's world \<Rightarrow> 's world" where
  "handle_client L F H ssl_p fd is_tls initial w =
     (case initial of
        None \<Rightarrow> pw_requests L F H ssl_p fd is_tls None w
      | Some (initial_data, initial_sz) \<Rightarrow>
          if 0 < initial_sz then
            (let n = nat (min initial_sz (int (MAX_REQUEST_SZ - 1)))
             in pw_requests L F H ssl_p fd is_tls (Some (take n (initial_data @ zeros n)))
                  (flag_ub (length initial_data < n) w))
          else pw_requests L F H ssl_p fd is_tls None w)"

subsection \<open>Receiving and serving\<close>

text \<open>The mode, the descriptor (mode 1), the bytes received, which the caller's structure takes.\<close>

definition receive_handoff_v3 :: "'s world \<Rightarrow> (int \<times> int \<times> bytes) \<times> 's world" where
  "receive_handoff_v3 w =
     (let ((n, m), w) = recvmsg SIZEOF_pf_msg w
      in if n \<le> 0 then ((-1, -1, []), w)
         else (case rm_cmsg m of
                 None \<Rightarrow> ((0, -1, rm_data m), w)
               | Some c \<Rightarrow> if cmsg_type c = SCM_RIGHTS then ((1, rm_fd m, rm_data m), w)
                           else ((0, -1, rm_data m), w)))"

definition pw_serve_tls ::
  "'s wolfssl \<Rightarrow> 'f cdouble_mem \<Rightarrow> http_parser \<Rightarrow> int \<Rightarrow> (bytes \<times> int) option \<Rightarrow> 's world \<Rightarrow> 's world" where
  "pw_serve_tls L F H client_fd initial w =
     (let (ssl_p, w) = wolfSSL_new L w;
          w = (case ssl_p of None \<Rightarrow> w | Some p \<Rightarrow> wolfSSL_set_fd L p client_fd w);
          w = handle_client L F H ssl_p client_fd True initial w;
          w = (case ssl_p of None \<Rightarrow> w | Some p \<Rightarrow> wolfSSL_free p w)
      in close client_fd w)"

definition pw_uds_child ::
  "'s wolfssl \<Rightarrow> 'f cdouble_mem \<Rightarrow> http_parser \<Rightarrow> int \<Rightarrow> int \<Rightarrow> int \<Rightarrow> 's world \<Rightarrow> 's world" where
  "pw_uds_child L F H uds_fd listen_fd uds_conn w =
     (let w = close listen_fd (close uds_fd w);
          ((mode, client_fd, data), w) = receive_handoff_v3 w;
          msg = bytes_pf_msg F (overwrite (zeros SIZEOF_pf_msg) data);
          w = (if mode = -1 then w
               else if mode = 1 then pw_serve_tls L F H client_fd (Some (pf_buffered_data msg, pf_buffered_sz msg)) w
               else handle_client L F H None uds_conn False
                      (Some (overwrite (zeros MAX_REQUEST_SZ) (take MAX_REQUEST_SZ data), int MAX_REQUEST_SZ)) w);
          (_, w) = sys_write uds_conn [1] w
      in close uds_conn w)"

definition pw_tcp_child ::
  "'s wolfssl \<Rightarrow> 'f cdouble_mem \<Rightarrow> http_parser \<Rightarrow> int \<Rightarrow> int \<Rightarrow> int \<Rightarrow> 's world \<Rightarrow> 's world" where
  "pw_tcp_child L F H uds_fd listen_fd client_fd w =
     pw_serve_tls L F H client_fd None (close listen_fd (close uds_fd w))"

text \<open>A round of the parent: for each socket that has a connection waiting it accepts and forks.\<close>

definition pw_worker_round ::
  "bool \<Rightarrow> bool \<Rightarrow> 's world \<Rightarrow> ((int \<times> 's world) option \<times> (int \<times> 's world) option) \<times> 's world" where
  "pw_worker_round uds_in tcp_in w =
     (let (c1, w) = (if uds_in then accept_fork w else (None, w));
          (c2, w) = (if tcp_in then accept_fork w else (None, w))
      in ((c1, c2), w))"

text \<open>The product worker has its own copy of every function.\<close>

definition product_on_url :: "'f cdouble_mem \<Rightarrow> bytes \<Rightarrow> nat \<Rightarrow> 'f http_data \<Rightarrow> 'f http_data" where
  "product_on_url = on_url"

definition product_receive_handoff_v3 :: "'s world \<Rightarrow> (int \<times> int \<times> bytes) \<times> 's world" where
  "product_receive_handoff_v3 = receive_handoff_v3"

definition product_handle_client ::
  "'s wolfssl \<Rightarrow> 'f cdouble_mem \<Rightarrow> http_parser \<Rightarrow> nat option \<Rightarrow> int \<Rightarrow> bool \<Rightarrow> (bytes \<times> int) option \<Rightarrow> 's world \<Rightarrow> 's world" where
  "product_handle_client = handle_client"

definition product_uds_child ::
  "'s wolfssl \<Rightarrow> 'f cdouble_mem \<Rightarrow> http_parser \<Rightarrow> int \<Rightarrow> int \<Rightarrow> int \<Rightarrow> 's world \<Rightarrow> 's world" where
  "product_uds_child = pw_uds_child"

definition product_tcp_child ::
  "'s wolfssl \<Rightarrow> 'f cdouble_mem \<Rightarrow> http_parser \<Rightarrow> int \<Rightarrow> int \<Rightarrow> int \<Rightarrow> 's world \<Rightarrow> 's world" where
  "product_tcp_child = pw_tcp_child"

subsection \<open>The baseline proxy\<close>

text \<open>Relaying requests and answers of at most 8191 and 2047 bytes.\<close>

function cp_relay :: "'s wolfssl \<Rightarrow> nat \<Rightarrow> int \<Rightarrow> 's world \<Rightarrow> 's world" where
  "cp_relay L p worker_fd w =
     (case wolfSSL_read L p (MAX_REQUEST_SZ - 1) w of
        ((n, req, _), w1) \<Rightarrow>
          if n \<le> 0 then w1
          else
            (case sys_write worker_fd req w1 of
               (wn, w2) \<Rightarrow>
                 if wn \<le> 0 then w2
                 else
                   (case sys_read 2047 w2 of
                      ((rn, resp), w3) \<Rightarrow>
                        if rn \<le> 0 then w3
                        else
                          (case wolfSSL_write L p resp w3 of
                             ((k, _), w4) \<Rightarrow> if k \<le> 0 then w4 else cp_relay L p worker_fd w4))))"
  by pat_completeness auto

termination
proof (relation "measure (\<lambda>(L, p, fd, w). slen w)", goal_cases)
  case 1
  show ?case by simp
next
  case (2 L p fd w x w1 n y req e wn w2 z w3 rn resp u w4 k e')
  have "slen w1 < slen w" using wolfSSL_read_progress [of L p "MAX_REQUEST_SZ - 1" w n req e w1] 2 by simp
  moreover have "slen w2 \<le> slen w1" "slen w3 \<le> slen w2"
    using slen_sys_write [of fd req w1] slen_sys_read [of 2047 w2] 2 by (simp_all add: prod_eq_iff)
  moreover have "slen w4 \<le> slen w3" using slen_wolfSSL_write [of L p resp w3] 2 by (simp add: prod_eq_iff)
  ultimately show ?case by simp
qed

declare cp_relay.simps [simp del]

definition cp_child :: "'s wolfssl \<Rightarrow> int \<Rightarrow> int \<Rightarrow> 's world \<Rightarrow> 's world" where
  "cp_child L sockfd client_fd w =
     (let w = close sockfd w;
          (ssl_p, w) = wolfSSL_new L w
      in case ssl_p of
           None \<Rightarrow> close client_fd w
         | Some p \<Rightarrow>
             (let ((ok, _, _), w) = wolfSSL_accept L p (wolfSSL_set_fd L p client_fd w);
                  w = (if \<not> ok then w
                       else
                         (let (worker_fd, w) = sys_newfd w;
                              (c, w) = sys_status w;
                              w = (if 0 \<le> worker_fd \<and> c = 0
                                   then cp_relay L p worker_fd (emit (EvConnect worker_fd (sun_path UDS_PATH_SUM)) w)
                                   else w)
                          in close worker_fd w))
              in close client_fd (wolfSSL_free p w)))"

text \<open>The loop of the proxy's parent, which ends when \<^verbatim>\<open>accept\<close> fails other than by a signal.\<close>

definition cp_round :: "'s world \<Rightarrow> bool \<times> (int \<times> 's world) option \<times> 's world" where
  "cp_round w =
     (let (fd, v) = sys_newfd w
      in if fd < 0 then (errno v = EINTR, None, v) else (True, accept_fork w))"

subsection \<open>What serving a connection changes\<close>

lemma pw_answer_length:
  assumes "short_numbers F" "pw_answer F H req = Some r"
  shows "length r \<le> 512"
proof -
  have "length (pw_text F d) \<le> 340" for d :: "'a http_data"
  proof -
    have "length (d_fmt2 F (if hd_function d = cs ''sum'' then d_add F (hd_a d) (hd_b d) else d_mul F (hd_a d) (hd_b d))) \<le> 320"
      using assms(1) by (simp add: short_numbers_def)
    then show ?thesis by (simp add: pw_text_def)
  qed
  then have t: "length (pw_text F d) < 10 ^ Suc 2" for d :: "'a http_data" by (rule le_less_trans) simp
  obtain d :: "'a http_data" where r: "r = pw_head (length (pw_text F d)) @ take 127 (pw_text F d)"
    using assms(2) by (auto simp: pw_answer_def Let_def split_beta split: if_splits)
  have "length (dec_digits (length (pw_text F d))) \<le> 3" using length_dec_digits [OF t [of d]] by simp
  moreover have "length (take 127 (pw_text F d)) \<le> 127" by simp
  ultimately show ?thesis by (simp add: r pw_head_def del: length_take)
qed

lemma pw_read_frame:
  "fds (snd (pw_read L ssl_p t w)) = fds w \<and> rxq (snd (pw_read L ssl_p t w)) = rxq w
 \<and> live (snd (pw_read L ssl_p t w)) = live w \<and> next_ssl (snd (pw_read L ssl_p t w)) = next_ssl w
 \<and> log (snd (pw_read L ssl_p t w)) = log w
 \<and> (set_option ssl_p \<subseteq> live w \<longrightarrow> ub (snd (pw_read L ssl_p t w)) = ub w)"
  by (cases ssl_p) (auto simp: pw_read_def split_beta)

lemma sys_write_quiet: "bad_closes (log (snd (sys_write fd b w))) = bad_closes (log w)"
  by (simp add: sys_write_def Let_def split_beta split: answer.split)

lemma pw_write_frame:
  "fds (pw_write L ssl_p fd t r w) = fds w \<and> rxq (pw_write L ssl_p fd t r w) = rxq w
 \<and> live (pw_write L ssl_p fd t r w) = live w \<and> next_ssl (pw_write L ssl_p fd t r w) = next_ssl w
 \<and> bad_closes (log (pw_write L ssl_p fd t r w)) = bad_closes (log w)
 \<and> (set_option ssl_p \<subseteq> live w \<longrightarrow> length r \<le> 512 \<longrightarrow> ub (pw_write L ssl_p fd t r w) = ub w)"
  by (cases ssl_p) (auto simp: pw_write_def Let_def write_keeps sys_write_quiet)

lemma ex_pair: "\<exists>a b c. x = ((a, b), c)"
  by (cases x) auto

lemma pw_requests_step:
  assumes "(case i of Some b \<Rightarrow> ((int (length b), b), w) | None \<Rightarrow> pw_read L ssl_p t w) = ((n, req), w1)"
  shows "pw_requests L F H ssl_p fd t i w =
           (if n \<le> 0 then w1
            else case pw_answer F H req of
                   None \<Rightarrow> w1
                 | Some r \<Rightarrow> pw_requests L F H ssl_p fd t None (pw_write L ssl_p fd t r w1))"
  by (subst pw_requests.simps) (simp only: assms prod.case)

lemma pw_requests_frame:
  "fds (pw_requests L F H ssl_p fd t i w) = fds w \<and> rxq (pw_requests L F H ssl_p fd t i w) = rxq w
 \<and> live (pw_requests L F H ssl_p fd t i w) = live w \<and> next_ssl (pw_requests L F H ssl_p fd t i w) = next_ssl w
 \<and> bad_closes (log (pw_requests L F H ssl_p fd t i w)) = bad_closes (log w)
 \<and> (set_option ssl_p \<subseteq> live w \<longrightarrow> short_numbers F \<longrightarrow> ub (pw_requests L F H ssl_p fd t i w) = ub w)"
proof (induction L F H ssl_p fd t i w rule: pw_requests.induct)
  case (1 L F H ssl_p fd t i w)
  obtain n req w1 where rd: "(case i of Some b \<Rightarrow> ((int (length b), b), w) | None \<Rightarrow> pw_read L ssl_p t w) = ((n, req), w1)"
    using ex_pair [of "case i of Some b \<Rightarrow> ((int (length b), b), w) | None \<Rightarrow> pw_read L ssl_p t w"] by blast
  have w1: "fds w1 = fds w" "rxq w1 = rxq w" "live w1 = live w" "next_ssl w1 = next_ssl w" "log w1 = log w"
    "set_option ssl_p \<subseteq> live w \<longrightarrow> ub w1 = ub w"
    using rd pw_read_frame [of L ssl_p t w] by (auto split: option.splits)
  show ?case
  proof (cases "n \<le> 0 \<or> pw_answer F H req = None")
    case True
    then have "pw_requests L F H ssl_p fd t i w = w1" using pw_requests_step [OF rd, of F H fd] by (elim disjE) simp_all
    with w1 show ?thesis by simp
  next
    case False
    then obtain r where r: "\<not> n \<le> 0" "pw_answer F H req = Some r" by auto
    have e: "pw_requests L F H ssl_p fd t i w = pw_requests L F H ssl_p fd t None (pw_write L ssl_p fd t r w1)"
      using pw_requests_step [OF rd, of F H fd] r by simp
    show ?thesis
      using "1.IH" [OF rd [symmetric] refl r] pw_write_frame [of L ssl_p fd t r w1] pw_answer_length [OF _ r(2)] w1
      unfolding e by auto
  qed
qed

text \<open>The bytes the caller brings are in its array.\<close>

definition initial_ok :: "(bytes \<times> int) option \<Rightarrow> bool" where
  "initial_ok i = (case i of None \<Rightarrow> True | Some (d, k) \<Rightarrow> min k 8191 \<le> int (length d))"

lemma handle_client_frame:
  "fds (handle_client L F H ssl_p fd t i w) = fds w \<and> rxq (handle_client L F H ssl_p fd t i w) = rxq w
 \<and> live (handle_client L F H ssl_p fd t i w) = live w \<and> next_ssl (handle_client L F H ssl_p fd t i w) = next_ssl w
 \<and> bad_closes (log (handle_client L F H ssl_p fd t i w)) = bad_closes (log w)
 \<and> (set_option ssl_p \<subseteq> live w \<longrightarrow> short_numbers F \<longrightarrow> initial_ok i \<longrightarrow> ub (handle_client L F H ssl_p fd t i w) = ub w)"
  by (auto simp: handle_client_def pw_requests_frame initial_ok_def MAX_REQUEST_SZ_def Let_def split: option.split)

lemma pw_serve_tls_effect:
  assumes "fd_wf w" "ssl_wf w" "fd \<in> set (fds w)"
  shows "fds (pw_serve_tls L F H fd i w) = remove1 fd (fds w)
       \<and> live (pw_serve_tls L F H fd i w) = live w
       \<and> bad_closes (log (pw_serve_tls L F H fd i w)) = bad_closes (log w)
       \<and> (short_numbers F \<longrightarrow> initial_ok i \<longrightarrow> ub (pw_serve_tls L F H fd i w) = ub w)"
proof (cases "fst (wolfSSL_new L w)")
  case None
  define w1 where "w1 = snd (wolfSSL_new L w)"
  define w2 where "w2 = handle_client L F H None fd True i w1"
  have w1: "fds w1 = fds w" "live w1 = live w" "log w1 = log w" "ub w1 = ub w" using None by (simp_all add: w1_def)
  have "pw_serve_tls L F H fd i w = close fd w2"
    using None by (simp add: pw_serve_tls_def Let_def split_beta w1_def w2_def)
  with handle_client_frame [of L F H None fd True i w1, folded w2_def] w1 assms(3) show ?thesis by simp
next
  case (Some p)
  define w1 where "w1 = wolfSSL_set_fd L p fd (snd (wolfSSL_new L w))"
  define w2 where "w2 = handle_client L F H (Some p) fd True i w1"
  have p: "p \<notin> live w" using wolfSSL_new_ptr [OF Some] ssl_wf_fresh [OF assms(2)] by simp
  have w1: "fds w1 = fds w" "live w1 = insert p (live w)" "log w1 = log w" "ub w1 = ub w"
    by (simp_all add: w1_def Some)
  have e: "pw_serve_tls L F H fd i w = close fd (wolfSSL_free p w2)"
    using Some by (simp add: pw_serve_tls_def Let_def split_beta w1_def w2_def)
  show ?thesis
    using handle_client_frame [of L F H "Some p" fd True i w1, folded w2_def] w1 p assms(3) unfolding e by simp
qed

subsection \<open>A connection from the gateway\<close>

lemma overwrite_not_shorter: "length d \<le> length (overwrite d s)"
  by (simp add: overwrite_def)

text \<open>
  Whatever part of the gateway's message arrives, the count of buffered bytes in it is 0: the message is
  zero behind the name up to the operands.
\<close>

lemma gateway_message_unbuffered:
  assumes "length f < 32"
  shows "pf_buffered_sz (bytes_pf_msg F (overwrite (zeros SIZEOF_pf_msg)
           (take k (pf_msg_bytes F ((pf_zero_msg F)\<lparr>pf_function_name := put_cstr 32 f\<rparr>))))) = 0"
proof -
  define z where "z = zeros 9224"
  define t where "t = d_put F (d_get F (zeros 8)) @ d_put F (d_get F (zeros 8))"
  have i0: "int_bytes 0 = zeros 4" by code_simp
  have "pf_msg_bytes F ((pf_zero_msg F)\<lparr>pf_function_name := put_cstr 32 f\<rparr>) = put_cstr 32 f @ z @ t"
    by (simp add: pf_msg_bytes_def pf_zero_msg_def i0 z_def t_def zeros_def replicate_add [symmetric])
  moreover define b where "b = overwrite (zeros SIZEOF_pf_msg) (take k (put_cstr 32 f @ z @ t))"
  moreover have n: "length (put_cstr 32 f) = 32" using assms by (simp add: length_put_cstr)
  have "slice 9252 4 b = zeros 4"
  proof (rule nth_equalityI)
    have lz: "length z = 9224" by (simp add: z_def)
    have "length (zeros SIZEOF_pf_msg) \<le> length b" unfolding b_def by (rule overwrite_not_shorter)
    then have "length b \<ge> 9256" by (simp add: SIZEOF_pf_msg_def)
    then show l: "length (slice 9252 4 b) = length (zeros 4)" by (simp add: slice_def)
    fix j assume "j < length (slice 9252 4 b)"
    then have j: "j < 4" using l by simp
    have "b ! (9252 + j) = 0"
      using j n lz by (simp add: b_def overwrite_def nth_append z_def zeros_def SIZEOF_pf_msg_def)
    then show "slice 9252 4 b ! j = zeros 4 ! j" using j \<open>length b \<ge> 9256\<close> by (simp add: slice_def zeros_def)
  qed
  moreover have "bytes_int (zeros 4) = 0" by code_simp
  ultimately show ?thesis by (simp add: bytes_pf_msg_def)
qed

lemma receive_gateway_message:
  assumes "script w = Msg d (Some fd_cmsg) c # as" "d \<noteq> []"
  shows "\<exists>f w'. receive_handoff_v3 w = ((1, f, take SIZEOF_pf_msg d), w') \<and> fds w' = f # fds w \<and> f \<notin> set (fds w)
           \<and> live w' = live w \<and> next_ssl w' = next_ssl w \<and> ub w' = ub w \<and> log w' = log w"
  using assms lowest_free_fresh [of "fds w"]
  by (auto simp: receive_handoff_v3_def recvmsg_def next_answer_def rights_count_def fd_cmsg_def CMSG_LEN_int_def
      SIZEOF_pf_msg_def Let_def live_def)

lemma pw_uds_child_handed:
  assumes wf: "fd_wf w" "ssl_wf w" and F: "short_numbers F"
    and fds: "{u, l, conn} \<subseteq> set (fds w)" "distinct [u, l, conn]"
    and m: "d = take k (pf_msg_bytes F ((pf_zero_msg F)\<lparr>pf_function_name := put_cstr 32 f\<rparr>))" "d \<noteq> []" "length f < 32"
    and s: "script w = Msg d (Some fd_cmsg) c # as"
  shows "set (fds (pw_uds_child L F H u l conn w)) = set (fds w) - {u, l, conn}
       \<and> live (pw_uds_child L F H u l conn w) = live w \<and> ub (pw_uds_child L F H u l conn w) = ub w
       \<and> bad_closes (log (pw_uds_child L F H u l conn w)) = bad_closes (log w)"
proof -
  define w1 where "w1 = close l (close u w)"
  have s1: "script w1 = Msg d (Some fd_cmsg) c # as" using s by (simp add: w1_def close_def emit_def)
  obtain g w2 where r: "receive_handoff_v3 w1 = ((1, g, take SIZEOF_pf_msg d), w2)" "fds w2 = g # fds w1"
    "g \<notin> set (fds w1)" "live w2 = live w1" "next_ssl w2 = next_ssl w1" "ub w2 = ub w1" "log w2 = log w1"
    using receive_gateway_message [OF s1 m(2)] by blast
  define msg where "msg = bytes_pf_msg F (overwrite (zeros SIZEOF_pf_msg) (take SIZEOF_pf_msg d))"
  have "pf_buffered_sz msg = 0"
    using gateway_message_unbuffered [OF m(3), of F "min SIZEOF_pf_msg k"] by (simp add: msg_def m(1))
  then have ok: "initial_ok (Some (pf_buffered_data msg, pf_buffered_sz msg))" by (simp add: initial_ok_def)
  define w3 where "w3 = pw_serve_tls L F H g (Some (pf_buffered_data msg, pf_buffered_sz msg)) w2"
  have e: "pw_uds_child L F H u l conn w = close conn (snd (sys_write conn [1] w3))"
    by (simp add: pw_uds_child_def Let_def split_beta r [unfolded w1_def] msg_def w3_def)
  have w1: "set (fds w1) = set (fds w) - {u, l}" "distinct (fds w1)" "live w1 = live w" "ub w1 = ub w"
    "next_ssl w1 = next_ssl w" "bad_closes (log w1) = bad_closes (log w)"
    using fds wf(1) by (auto simp: w1_def fd_wf_def)
  have "fd_wf w2" "ssl_wf w2" "g \<in> set (fds w2)" using wf w1 r by (auto simp: fd_wf_def ssl_wf_def)
  note w3 = pw_serve_tls_effect [OF this, of L F H "Some (pf_buffered_data msg, pf_buffered_sz msg)", folded w3_def]
  then have "fds w3 = fds w1" "live w3 = live w" "ub w3 = ub w" "bad_closes (log w3) = bad_closes (log w)"
    using r w1 F ok by simp_all
  then show ?thesis using w1 fds unfolding e by (auto simp: sys_write_quiet)
qed

subsection \<open>The answers of a connection\<close>

lemma pw_answer_nonempty: "pw_answer F H req = Some r \<Longrightarrow> r \<noteq> []"
  by (auto simp: pw_answer_def pw_head_def cs_def Let_def split: prod.splits if_splits)

lemma pw_read_data:
  assumes "script w = Data r # as" "r \<noteq> []" "length r < MAX_REQUEST_SZ"
  shows "\<exists>w'. pw_read L (Some p) True w = ((int (length r), r), w') \<and> script w' = as \<and> log w' = log w"
proof -
  have "take (MAX_REQUEST_SZ - 1) r = r" using assms(3) by simp
  then show ?thesis
    using assms(1,2)
    by (auto simp: pw_read_def wolfSSL_read_def next_answer_def read_bytes_def ssl_modify_def flag_ub_def Let_def split: option.split)
qed

lemma pw_write_whole:
  assumes "script w = Ok (int (length r)) # as" "r \<noteq> []"
  shows "script (pw_write L (Some p) fd True r w) = as
       \<and> log (pw_write L (Some p) fd True r w) = EvSslWrite p r # log w"
  using assms
  by (auto simp: pw_write_def wolfSSL_write_def next_answer_def write_count_def ssl_modify_def flag_ub_def emit_def Let_def
      split: option.split)

lemma pw_requests_round:
  assumes "script w = Data r # Ok (int (length a)) # as" "r \<noteq> []" "length r \<le> 8191" "pw_answer F H r = Some a"
  shows "\<exists>w'. pw_requests L F H (Some p) fd True None w = pw_requests L F H (Some p) fd True None w'
            \<and> script w' = as \<and> tls_output p (log w') = tls_output p (log w) @ a"
proof -
  have "length r < MAX_REQUEST_SZ" using assms(3) by (simp add: MAX_REQUEST_SZ_def)
  from pw_read_data [OF assms(1,2) this] obtain w1 where
    rd: "pw_read L (Some p) True w = ((int (length r), r), w1)" "script w1 = Ok (int (length a)) # as" "log w1 = log w"
    by blast
  define w2 where "w2 = pw_write L (Some p) fd True a w1"
  have w2: "script w2 = as" "log w2 = EvSslWrite p a # log w"
    using pw_write_whole [OF rd(2) pw_answer_nonempty [OF assms(4)], of L p fd] rd(3) by (simp_all add: w2_def)
  have "pw_requests L F H (Some p) fd True None w = pw_requests L F H (Some p) fd True None w2"
    using pw_requests_step [where i = None, simplified, OF rd(1), of F H fd] assms(2,4) by (simp add: w2_def)
  with w2 show ?thesis by (intro exI [of _ w2]) simp
qed

lemma pw_requests_stop:
  assumes "script w = Err e # as"
  shows "script (pw_requests L F H (Some p) fd True None w) = as
       \<and> tls_output p (log (pw_requests L F H (Some p) fd True None w)) = tls_output p (log w)"
proof -
  obtain w1 where rd: "pw_read L (Some p) True w = ((-1, []), w1)" "script w1 = as" "log w1 = log w"
    using assms
    by (auto simp: pw_read_def wolfSSL_read_def next_answer_def read_bytes_def ssl_modify_def flag_ub_def Let_def
        split: option.split)
  show ?thesis using pw_requests_step [where i = None, simplified, OF rd(1), of F H fd] rd by simp
qed

interpretation pw_loop:
  keepalive_loop "pw_requests L F H (Some p) fd True None" "pw_answer F H" "tls_output p" 8191
  by unfold_locales (use pw_requests_round pw_requests_stop in blast)+

text \<open>A parser that reports the part between the method and the next blank as the URL.\<close>

definition line_parser :: http_parser where
  "line_parser = \<lparr>hp_urls = (\<lambda>b. [(4, length (takeWhile (\<lambda>c. c \<noteq> SP) (drop 4 b)))]), hp_parsed = length\<rparr>"

text \<open>A plain request the worker cannot answer.\<close>

definition refused :: "'f cdouble_mem \<Rightarrow> http_parser \<Rightarrow> bytes \<Rightarrow> bool" where
  "refused F H d = (pw_answer F H (take 8191 (overwrite (zeros MAX_REQUEST_SZ) (take MAX_REQUEST_SZ d))) = None)"

lemma receive_plain:
  assumes "script w = Msg d None c # as" "d \<noteq> []"
  shows "receive_handoff_v3 w = ((0, -1, take SIZEOF_pf_msg d), w\<lparr>script := as\<rparr>)"
  using assms
  by (simp add: receive_handoff_v3_def recvmsg_def next_answer_def rights_count_def SIZEOF_pf_msg_def)

lemma handle_client_refused:
  assumes "refused F H d"
  shows "handle_client L F H None conn False
           (Some (overwrite (zeros MAX_REQUEST_SZ) (take MAX_REQUEST_SZ d), int MAX_REQUEST_SZ)) w = flag_ub False w"
proof -
  define b where "b = overwrite (zeros MAX_REQUEST_SZ) (take MAX_REQUEST_SZ d)"
  have l: "length b = MAX_REQUEST_SZ" by (simp add: b_def)
  have t: "take 8191 (b @ zeros 8191) = take 8191 b" using l by (simp add: MAX_REQUEST_SZ_def)
  show ?thesis
    using assms l unfolding b_def [symmetric] refused_def
    by (simp add: handle_client_def t pw_requests_step MAX_REQUEST_SZ_def)
qed

subsection \<open>Properties\<close>

text \<open>
  C28. Keep-alive: on a connection that delivers any number of requests the worker can answer and then ends or
  fails, the first worker sends exactly the answers of those requests, in their order, and nothing else.
\<close>

theorem perf_worker_answers_in_order:
  assumes "answerable 8191 (pw_answer F H) rs" and "script w = exchanges (pw_answer F H) rs @ Err e # as"
  shows "tls_output p (log (handle_client L F H (Some p) fd True None w)) =
           tls_output p (log w) @ replies (pw_answer F H) rs"
  using pw_loop.answers_in_order [OF assms] by (simp add: handle_client_def)

theorem perf_worker_answers_in_order_witness:
  "let r1 = cs ''GET /sum?a=1&b=2 HTTP/1.1''; r2 = cs ''GET /product HTTP/1.1'';
       reply = pw_answer whole_mem line_parser
   in tls_output 0 (log (handle_client echo_ssl whole_mem line_parser (Some 0) 5 True None
        (boot (exchanges reply [r1, r2] @ [Err EOTHER])))) = the (reply r1) @ the (reply r2)"
proof -
  let ?rs = "[cs ''GET /sum?a=1&b=2 HTTP/1.1'', cs ''GET /product HTTP/1.1'']"
  have "pw_answer whole_mem line_parser (cs ''GET /sum?a=1&b=2 HTTP/1.1'') \<noteq> None"
    "pw_answer whole_mem line_parser (cs ''GET /product HTTP/1.1'') \<noteq> None"
    by code_simp+
  then have "answerable 8191 (pw_answer whole_mem line_parser) ?rs" by (simp add: answerable_def cs_def)
  from perf_worker_answers_in_order [OF this, of _ EOTHER "[]" 0 echo_ssl 5] show ?thesis
    by (simp add: Let_def replies_def)
qed

text \<open>
  C27. From the first gateway to its worker: a worker child that receives the connection with any non-empty
  part of the gateway's message frees its session, closes the connection and its sockets once and nothing else,
  and has no undefined behaviour, whatever the client sends.
\<close>

theorem perf_worker_serves_handover:
  assumes "fd_wf w" and "ssl_wf w" and "short_numbers F"
    and "{u, l, conn} \<subseteq> set (fds w)" and "distinct [u, l, conn]"
    and "d = take k (pf_msg_bytes F ((pf_zero_msg F)\<lparr>pf_function_name := put_cstr 32 (fst (pf_target H buf v))\<rparr>))"
    and "d \<noteq> []" and "script w = Msg d (Some fd_cmsg) c # as"
  shows "set (fds (pw_uds_child L F H u l conn w)) = set (fds w) - {u, l, conn}
       \<and> live (pw_uds_child L F H u l conn w) = live w \<and> ub (pw_uds_child L F H u l conn w) = ub w
       \<and> bad_closes (log (pw_uds_child L F H u l conn w)) = bad_closes (log w)"
proof -
  have "length (fst (pf_target H buf v)) < 32" using pf_target_name [of H buf v] by (auto simp: cs_def)
  from pw_uds_child_handed [OF assms(1-7) this assms(8)] show ?thesis .
qed

theorem perf_worker_serves_handover_witness:
  "\<not> ub (pw_uds_child echo_ssl whole_mem line_parser 3 4 5
      ((boot [Msg (take 9000 (pf_msg_bytes whole_mem ((pf_zero_msg whole_mem)\<lparr>pf_function_name :=
          put_cstr 32 (fst (pf_target line_parser [0] (boot [] :: unit world)))\<rparr>))) (Some fd_cmsg) False])\<lparr>fds := [3, 4, 5]\<rparr>))"
proof -
  let ?m = "pf_msg_bytes whole_mem ((pf_zero_msg whole_mem)\<lparr>pf_function_name :=
      put_cstr 32 (fst (pf_target line_parser [0] (boot [] :: unit world)))\<rparr>)"
  let ?w = "(boot [Msg (take 9000 ?m) (Some fd_cmsg) False])\<lparr>fds := [3, 4, 5]\<rparr> :: bytes world"
  have F: "short_numbers whole_mem" by (simp add: short_numbers_def whole_mem_def cdouble.defs cdouble_mem.defs)
  have "take 9000 ?m \<noteq> []" by (simp add: pf_msg_bytes_def put_cstr_def pf_zero_msg_def zeros_def)
  from perf_worker_serves_handover [where w = ?w and u = 3 and l = 4 and conn = 5 and c = False and as = "[]" and L = echo_ssl,
      OF _ _ F _ _ refl this] show ?thesis
    by (simp add: fd_wf_def ssl_wf_def live_def)
qed

text \<open>
  A plain request of the proxy that the worker cannot answer is not met with silence: the acknowledgement
  meant for the gateway, the single byte 1, is written to the proxy, which takes it for the response.
\<close>

theorem refused_plain_request_gets_stray_byte:
  assumes "refused F H d" and "d \<noteq> []" and "script w = Msg d None c # Ok 1 # as"
    and "{u, l, conn} \<subseteq> set (fds w)" and "distinct [u, l, conn]" and "length d \<le> SIZEOF_pf_msg"
  shows "log (pw_uds_child L F H u l conn w) =
           [EvClose conn, EvWrite conn [1], EvClose l, EvClose u] @ log w"
proof -
  define w1 where "w1 = close l (close u w)"
  have s1: "script w1 = Msg d None c # Ok 1 # as" using assms(3) by (simp add: w1_def close_def emit_def)
  have r: "receive_handoff_v3 w1 = ((0, -1, d), w1\<lparr>script := Ok 1 # as\<rparr>)"
    using receive_plain [OF s1 assms(2)] assms(6) by simp
  have w1: "log w1 = [EvClose l, EvClose u] @ log w" "conn \<in> set (fds w1)" using assms(4,5) by (auto simp: w1_def)
  show ?thesis
    using w1 handle_client_refused [OF assms(1), where L = L and conn = conn and w = "w1\<lparr>script := Ok 1 # as\<rparr>"]
    by (simp add: pw_uds_child_def Let_def split_beta w1_def [symmetric] r sys_write_def next_answer_def)
qed

theorem refused_plain_request_gets_stray_byte_witness:
  "hd (tl (log (pw_uds_child echo_ssl whole_mem \<lparr>hp_urls = (\<lambda>_. []), hp_parsed = length\<rparr> 3 4 5
     ((boot [Msg (cs ''EHLO'') None False, Ok 1])\<lparr>fds := [3, 4, 5]\<rparr> :: bytes world)))) = EvWrite 5 [1]"
proof -
  let ?w = "(boot [Msg (cs ''EHLO'') None False, Ok 1])\<lparr>fds := [3, 4, 5]\<rparr> :: bytes world"
  have "refused whole_mem \<lparr>hp_urls = (\<lambda>_. []), hp_parsed = length\<rparr> (cs ''EHLO'')"
    by (simp add: refused_def pw_answer_def http_parser_execute_def zero_http_data_def cs_def)
  from refused_plain_request_gets_stray_byte [where w = ?w and u = 3 and l = 4 and conn = 5 and L = echo_ssl and c = False
      and as = "[]", OF this] show ?thesis
    by (simp add: cs_def SIZEOF_pf_msg_def)
qed

end
