(* ===== verification/EvalServers.thy ===== *)
theory EvalServers
  imports KeepAlive Worker
begin

text \<open>
  \<^verbatim>\<open>Eval_perf\<close>: the servers the evaluation compares with.  \<^verbatim>\<open>direct_server.c\<close> answers one TLS request per
  connection with a constant; \<^verbatim>\<open>proxy_worker.c\<close> and \<^verbatim>\<open>plain_worker.c\<close> serve plain connections behind a proxy;
  \<^verbatim>\<open>direct_tls_server.c\<close> is an event loop over non-blocking TLS connections that calls the worker's handler, and
  says of itself that it is harmonised with the worker.  Its table \<open>ssl_map\<close> is a function from descriptors.
\<close>

subsection \<open>Plain workers\<close>

definition ev_head :: "nat \<Rightarrow> bytes" where
  "ev_head body_len =
     cs ''HTTP/1.1 200 OK'' @ crlf @ cs ''Content-Type: application/json'' @ crlf
     @ cs ''Content-Length: '' @ dec_digits body_len @ crlf @ cs ''Connection: keep-alive'' @ crlf @ crlf"

text \<open>The text of the body up to the result, and the result.\<close>

definition ev_result :: "'f cdouble \<Rightarrow> bytes \<Rightarrow> 'f" where
  "ev_result F buffer =
     (let a = url_param F buffer (cs ''a=''); b = url_param F buffer (cs ''b='')
      in if strstr_found buffer (cs ''/sum'') then d_add F a b else d_mul F a b)"

definition ev_response :: "bytes \<Rightarrow> bytes" where
  "ev_response text = ev_head (length text) @ take 255 text"

definition proxy_response :: "'f cdouble \<Rightarrow> int \<Rightarrow> bytes \<Rightarrow> bytes" where
  "proxy_response F wid buffer =
     ev_response (cs ''{\"mode\":\"proxy\",\"worker\":'' @ dec_int wid @ cs '',\"result\":''
                  @ d_fmt2 F (ev_result F buffer) @ cs ''}'' @ [LF])"






text \<open>The event loop of the proxy worker: the listener accepts until \<^verbatim>\<open>accept\<close> fails, a client is answered once.\<close>

function proxy_accept_all :: "'s world \<Rightarrow> 's world" where
  "proxy_accept_all w =
     (if fst (sys_newfd w) < 0 then snd (sys_newfd w)
      else proxy_accept_all (epoll_add (fst (sys_newfd w)) (wk_set_nonblocking (fst (sys_newfd w)) (snd (sys_newfd w)))))"
  by pat_completeness auto

lemma slen_epoll_add: "slen (epoll_add fd w) \<le> slen w"
  using slen_sys_status [of w] by (simp add: epoll_add_def split_beta)

lemma slen_set_nonblocking: "slen (wk_set_nonblocking fd w) \<le> slen w"
  using slen_sys_status [of "snd (sys_value w)"] slen_next_answer [of w]
  by (auto simp: wk_set_nonblocking_def sys_value_def Let_def split_beta split: answer.splits)

termination proxy_accept_all
proof (relation "measure slen", goal_cases)
  case 1
  show ?case by simp
next
  case (2 w)
  then show ?case
    using sys_newfd_progress [of w] slen_set_nonblocking [of "fst (sys_newfd w)" "snd (sys_newfd w)"]
      slen_epoll_add [of "fst (sys_newfd w)" "wk_set_nonblocking (fst (sys_newfd w)) (snd (sys_newfd w))"]
    by simp
qed

declare proxy_accept_all.simps [simp del]

definition proxy_event :: "'f cdouble \<Rightarrow> int \<Rightarrow> int \<Rightarrow> int \<Rightarrow> 's world \<Rightarrow> 's world" where
  "proxy_event F wid listen_fd fd w =
     (if fd = listen_fd then proxy_accept_all w
      else
        (let ((n, buffer), w) = sys_read 8191 w
         in if 0 < n then snd (sys_write fd (proxy_response F wid buffer) w)
            else if n < 0 \<and> errno w = EAGAIN then w
            else close fd (epoll_del fd w)))"

subsection \<open>\<^verbatim>\<open>direct_server.c\<close>\<close>

definition direct_response :: bytes where
  "direct_response =
     cs ''HTTP/1.1 200 OK'' @ crlf @ cs ''Content-Type: text/plain'' @ crlf @ cs ''Content-Length: 22'' @ crlf
     @ cs ''Connection: close'' @ crlf @ crlf @ cs ''Hello from Direct Mode''"

text \<open>The child; a null session makes every call of the library fail.\<close>

definition direct_child :: "'s wolfssl \<Rightarrow> int \<Rightarrow> int \<Rightarrow> 's world \<Rightarrow> 's world" where
  "direct_child L sockfd client_fd w =
     (let w = close sockfd w;
          (ssl_p, w) = wolfSSL_new L w
      in case ssl_p of
           None \<Rightarrow> close client_fd w
         | Some p \<Rightarrow>
             (let ((ok, _, _), w) = wolfSSL_accept L p (wolfSSL_set_fd L p client_fd w);
                  w = (if \<not> ok then w
                       else
                         (let ((n, _, _), w) = wolfSSL_read L p 1023 w
                          in if 0 < n then snd (wolfSSL_write L p direct_response w) else w))
              in close client_fd (wolfSSL_free p (wolfSSL_shutdown p w))))"

text \<open>The loops of the two parents: a failed \<^verbatim>\<open>accept\<close> is tried again.\<close>

definition direct_round :: "'s world \<Rightarrow> (int \<times> 's world) option \<times> 's world" where
  "direct_round = accept_fork"

definition plain_round :: "'s world \<Rightarrow> (int \<times> 's world) option \<times> 's world" where
  "plain_round = accept_fork"

subsection \<open>\<^verbatim>\<open>direct_tls_server.c\<close>\<close>

record 's wolfssl_server = "'s wolfssl" +
  ws_init_finished :: "'s \<Rightarrow> bool"

abbreviation ssl_lib :: "'s wolfssl_server \<Rightarrow> 's wolfssl" where
  "ssl_lib K \<equiv> wolfssl.truncate K"

type_synonym ssl_map = "int \<Rightarrow> nat option"

definition ds_close :: "int \<Rightarrow> nat \<Rightarrow> ssl_map \<Rightarrow> 's world \<Rightarrow> ssl_map \<times> 's world" where
  "ds_close fd p ssl_map w =
     (let w = epoll_del fd w; w = wolfSSL_free p w in (ssl_map(fd := None), close fd w))"

text \<open>A new connection, after \<^verbatim>\<open>accept\<close>; the status taken first is that of \<^verbatim>\<open>TCP_NODELAY\<close>.\<close>

definition ds_admit :: "'s wolfssl_server \<Rightarrow> int \<Rightarrow> ssl_map \<Rightarrow> 's world \<Rightarrow> ssl_map \<times> 's world" where
  "ds_admit K client_fd ssl_map w =
     (let w = wk_set_nonblocking client_fd w;
          (_, w) = sys_status w;
          (ssl_p, w) = wolfSSL_new (ssl_lib K) w
      in case ssl_p of
           None \<Rightarrow> (ssl_map, close client_fd w)
         | Some p \<Rightarrow>
             (let w = wolfSSL_set_fd (ssl_lib K) p client_fd w;
                  w = client_index client_fd w
              in (ssl_map(client_fd := Some p), epoll_add client_fd w)))"

lemma slen_wolfSSL_new: "slen (snd (wolfSSL_new L w)) \<le> slen w"
  using slen_sys_alloc [of w] by (simp add: wolfSSL_new_def slen_def Let_def split_beta)

lemma slen_ds_admit: "slen (snd (ds_admit K fd m w)) \<le> slen w"
proof -
  define w1 where "w1 = snd (sys_status (wk_set_nonblocking fd w))"
  define w2 where "w2 = snd (wolfSSL_new (ssl_lib K) w1)"
  have "slen w1 \<le> slen w" "slen w2 \<le> slen w1"
    using slen_sys_status [of "wk_set_nonblocking fd w"] slen_set_nonblocking [of fd w] slen_wolfSSL_new [of "ssl_lib K" w1]
    by (simp_all add: w1_def w2_def)
  moreover have "slen (epoll_add fd (client_index fd (wolfSSL_set_fd (ssl_lib K) p fd w2))) \<le> slen w2" for p
    using slen_epoll_add [of fd "client_index fd (wolfSSL_set_fd (ssl_lib K) p fd w2)"] by (simp add: client_index_def)
  ultimately show ?thesis
    by (auto simp: ds_admit_def Let_def split_beta w1_def w2_def intro: order_trans split: option.split)
qed

function ds_accept_all :: "'s wolfssl_server \<Rightarrow> ssl_map \<Rightarrow> 's world \<Rightarrow> ssl_map \<times> 's world" where
  "ds_accept_all K ssl_map w =
     (if fst (sys_newfd w) < 0 then (ssl_map, snd (sys_newfd w))
      else ds_accept_all K (fst (ds_admit K (fst (sys_newfd w)) ssl_map (snd (sys_newfd w))))
             (snd (ds_admit K (fst (sys_newfd w)) ssl_map (snd (sys_newfd w)))))"
  by pat_completeness auto

termination
proof (relation "measure (\<lambda>(K, m, w). slen w)", goal_cases)
  case 1
  show ?case by simp
next
  case (2 K m w)
  then show ?case
    using sys_newfd_progress [of w] slen_ds_admit [of K "fst (sys_newfd w)" m "snd (sys_newfd w)"] by (simp add: split_beta)
qed

declare ds_accept_all.simps [simp del]

text \<open>The part of a client event behind the handshake.\<close>

definition ds_request ::
  "'s wolfssl_server \<Rightarrow> 'f cdouble \<Rightarrow> int \<Rightarrow> int \<Rightarrow> nat \<Rightarrow> ssl_map \<Rightarrow> 's world \<Rightarrow> ssl_map \<times> 's world" where
  "ds_request K F i fd p ssl_map w =
     (let ((req_len, request, err), w) = wolfSSL_read (ssl_lib K) p 8191 w
      in if 0 < req_len then
           (let (response, w) = handle_http_request F request i w
            in case response of
                 None \<Rightarrow> ds_close fd p ssl_map w
               | Some r \<Rightarrow>
                   (let (bad, w) = wk_write_loop (ssl_lib K) p (cstr r) w
                    in if bad then ds_close fd p ssl_map w else (ssl_map, w)))
         else if req_len < 0 then
           (if err = WANT_READ \<or> err = WANT_WRITE then (ssl_map, w) else ds_close fd p ssl_map w)
         else ds_close fd p ssl_map w)"

definition ds_client_event ::
  "'s wolfssl_server \<Rightarrow> 'f cdouble \<Rightarrow> int \<Rightarrow> int \<Rightarrow> ssl_map \<Rightarrow> 's world \<Rightarrow> ssl_map \<times> 's world" where
  "ds_client_event K F i fd ssl_map w =
     (let w = client_index fd w
      in case ssl_map fd of
           None \<Rightarrow> (ssl_map, w)
         | Some p \<Rightarrow>
             (let (fin, w) = ssl_query (ws_init_finished K) False p w
              in if fin then ds_request K F i fd p ssl_map w
                 else
                   (let ((ok, err, _), w) = wolfSSL_accept (ssl_lib K) p w
                    in if ok then ds_request K F i fd p ssl_map w
                       else if err = WANT_READ \<or> err = WANT_WRITE then (ssl_map, w)
                       else ds_close fd p ssl_map w)))"

inductive ds_step ::
  "'s wolfssl_server \<Rightarrow> 'f cdouble \<Rightarrow> int \<Rightarrow> ssl_map \<times> 's world \<Rightarrow> ssl_map \<times> 's world \<Rightarrow> bool"
  for K :: "'s wolfssl_server" and F :: "'f cdouble" and i :: int where
  ds_listener: "ds_step K F i (m, w) (ds_accept_all K m w)"
| ds_client: "ds_step K F i (m, w) (ds_client_event K F i fd m w)"
| ds_kernel: "ds_step K F i (m, w) (m, w\<lparr>script := as, rxq := q\<rparr>)"

inductive ds_reach ::
  "'s wolfssl_server \<Rightarrow> 'f cdouble \<Rightarrow> int \<Rightarrow> ssl_map \<times> 's world \<Rightarrow> ssl_map \<times> 's world \<Rightarrow> bool"
  for K :: "'s wolfssl_server" and F :: "'f cdouble" and i :: int and s0 :: "ssl_map \<times> 's world" where
  ds_start: "ds_reach K F i s0 s0"
| ds_next: "ds_reach K F i s0 s \<Longrightarrow> ds_step K F i s s' \<Longrightarrow> ds_reach K F i s0 s'"

inductive_cases ds_stepE: "ds_step K F i s s'"

subsection \<open>The table of the event loop as the worker's table\<close>

text \<open>
  A connection of the direct server is a migrated connection of the worker: the invariant of the worker's
  table and its lemmas apply.
\<close>

definition table_of :: "ssl_map \<Rightarrow> clients" where
  "table_of m fd =
     (case m fd of None \<Rightarrow> zero_conn | Some p \<Rightarrow> \<lparr>active = True, is_migration = True, conn_ssl = Some p\<rparr>)"

definition ds_inv :: "ssl_map \<Rightarrow> 's world \<Rightarrow> bool" where
  "ds_inv m w = wk_inv (table_of m) w"

lemma table_of_simps [simp]:
  "conn_ssl (table_of m fd) = m fd" "active (table_of m fd) = (m fd \<noteq> None)"
  "is_migration (table_of m fd) = (m fd \<noteq> None)"
  by (auto simp: table_of_def zero_conn_def split: option.split)

lemma table_of_remove: "table_of (m(fd := None)) = (table_of m)(fd := zero_conn)"
  by (auto simp: table_of_def fun_eq_iff)

lemma table_of_add:
  "table_of (m(fd := Some p)) = (table_of m)(fd := \<lparr>active = True, is_migration = True, conn_ssl = Some p\<rparr>)"
  by (auto simp: table_of_def fun_eq_iff)

text \<open>Closing agrees with the worker's \<^verbatim>\<open>close_client\<close> in everything but the \<^verbatim>\<open>close_notify\<close> and the index check.\<close>

lemma ds_close_worker:
  assumes "m fd = Some p"
  shows "table_of (fst (ds_close fd p m w)) = fst (close_client fd (table_of m) w)
       \<and> fds (snd (ds_close fd p m w)) = fds (snd (close_client fd (table_of m) w))
       \<and> live (snd (ds_close fd p m w)) = live (snd (close_client fd (table_of m) w))
       \<and> next_ssl (snd (ds_close fd p m w)) = next_ssl (snd (close_client fd (table_of m) w))"
  using assms by (simp add: ds_close_def close_client_def Let_def table_of_remove)

lemma ds_close_inv:
  assumes "ds_inv m w" "m fd = Some p"
  shows "ds_inv (fst (ds_close fd p m w)) (snd (ds_close fd p m w)) \<and> ub (snd (ds_close fd p m w)) = ub w"
proof -
  have "p \<in> live w" using assms wk_inv_live [of "table_of m" w fd p] by (simp add: ds_inv_def)
  then have "ub (snd (ds_close fd p m w)) = ub w" by (simp add: ds_close_def Let_def)
  with close_client_inv [of "table_of m" w fd] ds_close_worker [where m = m and fd = fd and p = p and w = w] assms show ?thesis
    by (auto simp: ds_inv_def intro: wk_inv_frame)
qed

lemma ds_inv_frame:
  "ds_inv m w \<Longrightarrow> fds w' = fds w \<Longrightarrow> live w' = live w \<Longrightarrow> next_ssl w' = next_ssl w \<Longrightarrow> ds_inv m w'"
  by (simp add: ds_inv_def wk_inv_frame)

lemma ds_request_inv:
  assumes "ds_inv m w" "m fd = Some p"
  shows "ds_inv (fst (ds_request K F i fd p m w)) (snd (ds_request K F i fd p m w))
       \<and> ub (snd (ds_request K F i fd p m w)) = ub w"
proof -
  have p: "p \<in> live w" using assms wk_inv_live [of "table_of m" w fd p] by (simp add: ds_inv_def)
  obtain n req e w1 where rd: "wolfSSL_read (ssl_lib K) p 8191 w = ((n, req, e), w1)" by (metis prod.exhaust)
  have w1: "fds w1 = fds w" "live w1 = live w" "next_ssl w1 = next_ssl w" "ub w1 = ub w"
    using wolfSSL_read_frame [of "ssl_lib K" p 8191 w] p unfolding rd by simp_all
  obtain resp w2 where h: "handle_http_request F req i w1 = (resp, w2)" by fastforce
  have w2: "fds w2 = fds w" "live w2 = live w" "next_ssl w2 = next_ssl w" "ub w2 = ub w"
    using handle_http_request_frame [of F req i w1] w1 unfolding h by simp_all
  have w3: "fds v = fds w" "live v = live w" "next_ssl v = next_ssl w" "ub v = ub w"
    if "wk_write_loop (ssl_lib K) p (cstr r) w2 = (bad, v)" for r bad v
    using wk_write_loop_frame [of "ssl_lib K" p "cstr r" w2] w2 p unfolding that by simp_all
  have ok: "ds_inv m v \<and> ub v = ub w \<and> ds_inv (fst (ds_close fd p m v)) (snd (ds_close fd p m v))
      \<and> ub (snd (ds_close fd p m v)) = ub w"
    if "fds v = fds w" "live v = live w" "next_ssl v = next_ssl w" "ub v = ub w" for v
    using ds_inv_frame [OF assms(1) that(1-3)] ds_close_inv [where m = m and fd = fd and p = p and w = v, OF _ assms(2)] that(4) by simp
  note o1 = ok [OF w1] and o2 = ok [OF w2] and o3 = ok [OF w3]
  show ?thesis
  proof (cases "0 < n")
    case False
    then show ?thesis using o1 by (simp add: ds_request_def rd)
  next
    case True
    show ?thesis
    proof (cases resp)
      case None
      with True o2 show ?thesis by (simp add: ds_request_def rd h)
    next
      case (Some r)
      obtain bad v where wl: "wk_write_loop (ssl_lib K) p (cstr r) w2 = (bad, v)" by fastforce
      with True Some o3 [OF wl] show ?thesis by (simp add: ds_request_def rd h)
    qed
  qed
qed

lemma ds_client_event_inv:
  assumes "ds_inv m w"
  shows "ds_inv (fst (ds_client_event K F i fd m w)) (snd (ds_client_event K F i fd m w))
       \<and> (0 \<le> fd \<longrightarrow> fd < MAX_FDS \<longrightarrow> ub (snd (ds_client_event K F i fd m w)) = ub w)"
proof (cases "m fd")
  case None
  then show ?thesis using assms by (auto simp: ds_client_event_def Let_def intro: ds_inv_frame)
next
  case (Some p)
  have p: "p \<in> live w" using assms Some wk_inv_live [of "table_of m" w fd p] by (simp add: ds_inv_def)
  define w1 where "w1 = snd (ssl_query (ws_init_finished K) False p (client_index fd w))"
  define w2 where "w2 = snd (wolfSSL_accept (ssl_lib K) p w1)"
  have w1: "fds w1 = fds w" "live w1 = live w" "next_ssl w1 = next_ssl w" "ub w1 = (ub w \<or> fd < 0 \<or> MAX_FDS \<le> fd)"
    using p by (simp_all add: w1_def)
  have w2: "fds w2 = fds w" "live w2 = live w" "next_ssl w2 = next_ssl w" "ub w2 = ub w1"
    using p w1 by (simp_all add: w2_def)
  have iv: "ds_inv m w1" "ds_inv m w2" using assms w1 w2 by (auto intro: ds_inv_frame)
  have "ds_client_event K F i fd m w \<in>
      {ds_request K F i fd p m w1, ds_request K F i fd p m w2, (m, w2), ds_close fd p m w2}"
    using Some by (simp add: ds_client_event_def split_beta Let_def w1_def w2_def)
  moreover have "ds_inv (fst r) (snd r) \<and> ub (snd r) = ub w1" if "r \<in>
      {ds_request K F i fd p m w1, ds_request K F i fd p m w2, (m, w2), ds_close fd p m w2}" for r
    using that iv w2(4) ds_request_inv [where m = m and fd = fd and p = p, OF iv(1) Some]
      ds_request_inv [where m = m and fd = fd and p = p, OF iv(2) Some]
      ds_close_inv [where m = m and fd = fd and p = p, OF iv(2) Some]
    by (elim insertE emptyE) simp_all
  ultimately show ?thesis using w1(4) by (metis not_le)
qed

lemma ds_admit_inv:
  assumes inv: "ds_inv m w" and fd: "fd \<in> set (fds w)" "0 \<le> fd" "m fd = None"
  shows "ds_inv (fst (ds_admit K fd m w)) (snd (ds_admit K fd m w))"
proof -
  define w1 where "w1 = snd (sys_status (wk_set_nonblocking fd w))"
  define w2 where "w2 = snd (wolfSSL_new (ssl_lib K) w1)"
  have w1: "fds w1 = fds w" "live w1 = live w" "next_ssl w1 = next_ssl w" by (simp_all add: w1_def)
  have i1: "ds_inv m w1" using inv w1 by (rule ds_inv_frame)
  show ?thesis
  proof (cases "fst (wolfSSL_new (ssl_lib K) w1)")
    case None
    have "ds_inv m w2" using i1 by (rule ds_inv_frame) (simp_all add: w2_def None)
    then have "ds_inv m (close fd w2)"
      using fd(3) by (auto simp: ds_inv_def wk_inv_def fd_wf_def ssl_wf_def)
    then show ?thesis using None by (simp add: ds_admit_def Let_def split_beta w1_def w2_def)
  next
    case (Some p)
    define w3 where "w3 = client_index fd (wolfSSL_set_fd (ssl_lib K) p fd w2)"
    have p: "p = next_ssl w" "p \<notin> live w" "ssl_wf w"
      using wolfSSL_new_ptr [OF Some] ssl_wf_fresh [of w] inv w1 by (auto simp: ds_inv_def wk_inv_def)
    have w3: "fds w3 = fds w" "live w3 = insert p (live w)" "next_ssl w3 = Suc (next_ssl w)"
      using w1 by (simp_all add: w3_def w2_def Some)
    have "wk_inv ((table_of m)(fd := \<lparr>active = True, is_migration = True, conn_ssl = Some p\<rparr>)) w3"
      using inv fd p w3 by (intro wk_inv_add) (auto simp: ds_inv_def ssl_wf_def less_Suc_eq)
    then have "ds_inv (m(fd := Some p)) (epoll_add fd w3)"
      unfolding ds_inv_def table_of_add by (rule wk_inv_frame) simp_all
    then show ?thesis using Some by (simp add: ds_admit_def Let_def split_beta w1_def w2_def w3_def)
  qed
qed

lemma ds_accept_all_inv: "ds_inv m w \<Longrightarrow> ds_inv (fst (ds_accept_all K m w)) (snd (ds_accept_all K m w))"
proof (induction K m w rule: ds_accept_all.induct)
  case (1 K m w)
  define fd where "fd = fst (sys_newfd w)"
  define w1 where "w1 = snd (sys_newfd w)"
  show ?case
  proof (cases "fd < 0")
    case True
    then show ?thesis
      using "1.prems" by (subst (1 2) ds_accept_all.simps) (auto simp: fd_def intro: ds_inv_frame)
  next
    case False
    have f: "fd \<notin> set (fds w)" "fds w1 = fd # fds w" "0 \<le> fd"
      using False sys_newfd_fresh [of w] by (auto simp: fd_def w1_def)
    have "ds_inv m w1"
      using "1.prems" f unfolding ds_inv_def by (intro wk_inv_more_fds [where w = w and w' = w1]) (auto simp: w1_def wk_inv_def fd_wf_def)
    moreover have "m fd = None" using "1.prems" f(1) by (auto simp: ds_inv_def wk_inv_def)
    ultimately have "ds_inv (fst (ds_admit K fd m w1)) (snd (ds_admit K fd m w1))"
      using f by (intro ds_admit_inv) simp_all
    with "1.IH" False show ?thesis by (subst (1 2) ds_accept_all.simps) (simp add: fd_def w1_def)
  qed
qed

lemma ds_reach_inv: "ds_reach K F i s0 s \<Longrightarrow> ds_inv (fst s0) (snd s0) \<Longrightarrow> ds_inv (fst s) (snd s)"
proof (induction rule: ds_reach.induct)
  case ds_start
  then show ?case .
next
  case (ds_next s s')
  then have iv: "ds_inv (fst s) (snd s)" by simp
  from ds_next.hyps(2) show ?case
  proof (elim ds_stepE)
    fix m w assume "s = (m, w)" "s' = ds_accept_all K m w"
    with iv ds_accept_all_inv show ?case by simp
  next
    fix m w fd assume "s = (m, w)" "s' = ds_client_event K F i fd m w"
    with iv ds_client_event_inv show ?case by fastforce
  next
    fix m w as q assume "s = (m, w)" "s' = (m, w\<lparr>script := as, rxq := q\<rparr>)"
    with iv show ?case by (auto simp: live_def intro: ds_inv_frame)
  qed
qed

subsection \<open>Agreement with the worker\<close>

text \<open>Two worlds that differ at most in events that put no bytes on a connection.\<close>

definition same_effect :: "'s world \<Rightarrow> 's world \<Rightarrow> bool" where
  "same_effect v w =
     (script v = script w \<and> fds v = fds w \<and> ssls v = ssls w \<and> next_ssl v = next_ssl w \<and> rxq v = rxq w \<and> ub v = ub w
    \<and> (\<forall>q. tls_output q (log v) = tls_output q (log w)))"

lemma same_effect_refl: "same_effect w w"
  by (simp add: same_effect_def)

lemma client_index_inside: "0 \<le> fd \<Longrightarrow> fd < MAX_FDS \<Longrightarrow> client_index fd w = w"
  by (simp add: client_index_def flag_ub_False)

lemma ds_close_same:
  assumes "m fd = Some p" "p \<in> live w" "0 \<le> fd" "fd < MAX_FDS"
  shows "table_of (fst (ds_close fd p m w)) = fst (close_client fd (table_of m) w)
       \<and> same_effect (snd (ds_close fd p m w)) (snd (close_client fd (table_of m) w))"
proof -
  define v where "v = epoll_del fd w"
  have "p \<in> live v" using assms(2) by (simp add: v_def)
  then obtain s where s: "ssls v p = Some s" by (auto simp: live_iff)
  have e: "close_client fd (table_of m) w = ((table_of m)(fd := zero_conn), close fd (wolfSSL_free p (wolfSSL_shutdown p v)))"
    using assms(1) by (simp add: close_client_def client_index_inside assms(3,4) v_def Let_def)
  have "same_effect (close fd (wolfSSL_free p v)) (close fd (wolfSSL_free p (wolfSSL_shutdown p v)))"
    by (simp add: same_effect_def wolfSSL_free_def wolfSSL_shutdown_def ssl_live_def s close_def emit_def flag_ub_def)
  then show ?thesis by (simp add: e ds_close_def Let_def v_def table_of_remove)
qed

lemma ds_request_same:
  assumes m: "m fd = Some p" and p: "p \<in> live w" and fd: "0 \<le> fd" "fd < MAX_FDS"
  shows "table_of (fst (ds_request K F i fd p m w)) = fst (wk_client_event (ssl_lib K) F i fd (table_of m) w)
       \<and> same_effect (snd (ds_request K F i fd p m w)) (snd (wk_client_event (ssl_lib K) F i fd (table_of m) w))"
proof -
  obtain n req e w1 where rd: "wolfSSL_read (ssl_lib K) p 8191 w = ((n, req, e), w1)" by (metis prod.exhaust)
  obtain resp w2 where h: "handle_http_request F req i w1 = (resp, w2)" by fastforce
  have l: "p \<in> live w1" "p \<in> live w2"
    using wolfSSL_read_frame(5) [of "ssl_lib K" p 8191 w] handle_http_request_frame(2) [of F req i w1] p
    unfolding rd h by simp_all
  note c1 = ds_close_same [where m = m and fd = fd and p = p, OF m l(1) fd]
    and c2 = ds_close_same [where m = m and fd = fd and p = p, OF m l(2) fd]
  have c3: "table_of (fst (ds_close fd p m v)) = fst (close_client fd (table_of m) v)
      \<and> same_effect (snd (ds_close fd p m v)) (snd (close_client fd (table_of m) v))"
    if "wk_write_loop (ssl_lib K) p (cstr r) w2 = (bad, v)" for r bad v
  proof -
    have "p \<in> live v" using wk_write_loop_frame [of "ssl_lib K" p "cstr r" w2] l(2) unfolding that by simp
    from ds_close_same [where m = m and fd = fd and p = p, OF m this fd] show ?thesis .
  qed
  have r: "wk_read (ssl_lib K) (table_of m fd) w = ((n, req, e), w1)" using m by (simp add: wk_read_def rd)
  have s: "wk_respond (ssl_lib K) F i fd (table_of m fd) req w1 =
      (case resp of None \<Rightarrow> (True, w2) | Some r \<Rightarrow> wk_write_loop (ssl_lib K) p (cstr r) w2)"
    using m by (cases resp) (simp_all add: wk_respond_def h)
  have ev: "wk_client_event (ssl_lib K) F i fd (table_of m) w =
      (if 0 < n then (let (bad, w) = (case resp of None \<Rightarrow> (True, w2) | Some r \<Rightarrow> wk_write_loop (ssl_lib K) p (cstr r) w2)
                      in if bad then close_client fd (table_of m) w else (table_of m, w))
       else if n < 0 then (if e = WANT_READ \<or> e = WANT_WRITE then (table_of m, w1) else close_client fd (table_of m) w1)
       else close_client fd (table_of m) w1)"
    using m by (simp add: wk_client_event_def client_index_inside [OF fd] r s)
  show ?thesis
  proof (cases "0 < n \<and> resp \<noteq> None")
    case True
    then obtain a bad v where a: "0 < n" "resp = Some a" "wk_write_loop (ssl_lib K) p (cstr a) w2 = (bad, v)" by fastforce
    then show ?thesis using c3 [OF a(3)] by (simp add: ev ds_request_def rd h same_effect_refl)
  next
    case False
    then show ?thesis using c1 c2 by (auto simp: ev ds_request_def rd h same_effect_refl)
  qed
qed

subsection \<open>The plain workers keep the contract of a keep-alive loop\<close>




subsection \<open>Properties\<close>

definition echo_server :: "bytes wolfssl_server" where
  "echo_server = wolfssl.extend echo_ssl \<lparr>ws_init_finished = (\<lambda>s. s \<noteq> [])\<rparr>"

text \<open>
  C16. The direct TLS server is harmonised with the worker, as its header says: for a connection whose handshake is
  done, an event has the same effect in both, on the table, on the sessions and descriptors, and on the bytes
  the client gets; they differ in the alert the worker sends before it closes.
\<close>

theorem direct_server_harmonised_with_worker:
  assumes "ssls w p = Some s" and "ws_init_finished K s" and "m fd = Some p" and "0 \<le> fd" and "fd < MAX_FDS"
  shows "table_of (fst (ds_client_event K F i fd m w)) = fst (wk_client_event (ssl_lib K) F i fd (table_of m) w)
       \<and> same_effect (snd (ds_client_event K F i fd m w)) (snd (wk_client_event (ssl_lib K) F i fd (table_of m) w))"
proof -
  have p: "p \<in> live w" using assms(1) by (simp add: live_iff)
  have "ds_client_event K F i fd m w = ds_request K F i fd p m w"
    using assms by (simp add: ds_client_event_def client_index_inside ssl_query_def)
  with ds_request_same [where m = m and fd = fd and p = p, OF assms(3) p assms(4,5)] show ?thesis by simp
qed

theorem direct_server_harmonised_with_worker_witness:
  "same_effect
     (snd (ds_client_event echo_server whole_numbers 0 7 [7 \<mapsto> 2]
        ((boot [Data (cs ''GET /hello''), Ok 0, Ok 400])\<lparr>ssls := [2 \<mapsto> [1]], fds := [7]\<rparr>)))
     (snd (wk_client_event (ssl_lib echo_server) whole_numbers 0 7 (table_of [7 \<mapsto> 2])
        ((boot [Data (cs ''GET /hello''), Ok 0, Ok 400])\<lparr>ssls := [2 \<mapsto> [1]], fds := [7]\<rparr>)))"
proof -
  let ?w = "(boot [Data (cs ''GET /hello''), Ok 0, Ok 400])\<lparr>ssls := [2 \<mapsto> [1]], fds := [7]\<rparr> :: bytes world"
  have "ws_init_finished echo_server [1]" by (simp add: echo_server_def wolfssl.defs wolfssl_server.defs)
  from direct_server_harmonised_with_worker [of ?w 2 "[1]" echo_server "[7 \<mapsto> 2]" 7 whole_numbers 0, OF _ this]
  show ?thesis by (simp add: MAX_FDS_def)
qed



end
