(* ===== verification/OldStart.thy ===== *)
theory OldStart
  imports Startup HotPotato PerfWorker EvalServers
begin

text \<open>
  The start of the earlier servers: the \<^verbatim>\<open>main\<close> functions of \<^verbatim>\<open>faad_optimization-Romero_New\<close>, \<^verbatim>\<open>Performance_old\<close> and
  \<^verbatim>\<open>Eval_perf\<close> up to their loops.  Many of them look at few of the results: a result that the code drops is dropped
  here.  A start that fails returns its exit code (\<open>Inl\<close>); descriptors it leaves open end with the process.
\<close>

subsection \<open>Calls the starts share\<close>

text \<open>A call on a descriptor fails when the descriptor is that of a failed call.\<close>

definition sys_on :: "int \<Rightarrow> 's world \<Rightarrow> int \<times> 's world" where
  "sys_on fd w = (if fd < 0 then (-1, set_errno EOTHER w) else sys_status w)"

text \<open>Context, certificate and key, without a check.\<close>

definition ctx_loaded :: "'s world \<Rightarrow> 's world" where
  "ctx_loaded w = snd (sys_status (snd (sys_status (snd (sys_alloc w)))))"

text \<open>A TCP socket with \<^verbatim>\<open>SO_REUSEADDR\<close>, bound: the descriptor and the result of \<^verbatim>\<open>bind\<close>.\<close>

definition tcp_bound :: "'s world \<Rightarrow> (int \<times> int) \<times> 's world" where
  "tcp_bound w =
     (let (fd, w) = sys_newfd w;
          (_, w) = sys_on fd w;
          (b, w) = sys_on fd w
      in ((fd, b), w))"

text \<open>A Unix socket: created, its path unlinked, bound.\<close>

definition uds_bound :: "bytes \<Rightarrow> 's world \<Rightarrow> (int \<times> int) \<times> 's world" where
  "uds_bound path w =
     (let (fd, w) = sys_newfd w;
          (_, w) = sys_status w;
          (b, w) = sys_on fd (emit (EvUnlink path) w)
      in ((fd, b), w))"

text \<open>Listening, without a check; on a Unix socket the path is recorded.\<close>

definition tcp_listening :: "int \<Rightarrow> 's world \<Rightarrow> 's world" where
  "tcp_listening fd w = snd (sys_on fd w)"

definition uds_listening :: "int \<Rightarrow> bytes \<Rightarrow> 's world \<Rightarrow> 's world" where
  "uds_listening fd path w =
     (let (r, w) = sys_on fd w in if r < 0 then w else emit (EvListen fd (sun_path path)) w)"

subsection \<open>\<^verbatim>\<open>faad_optimization-Romero_New\<close>\<close>

text \<open>The gateway listens for clients and for connections that come back; nothing is checked.\<close>

definition hp_gateway_start :: "'s world \<Rightarrow> (int \<times> int) \<times> 's world" where
  "hp_gateway_start w =
     (let w = ctx_loaded w;
          ((tcp_fd, _), w) = tcp_bound w;
          w = tcp_listening tcp_fd w;
          ((back_fd, _), w) = uds_bound UDS_PATH_BACK w;
          w = uds_listening back_fd UDS_PATH_BACK w
      in ((tcp_fd, back_fd), w))"

definition hp_worker_start :: "bytes \<Rightarrow> 's world \<Rightarrow> int \<times> 's world" where
  "hp_worker_start path w =
     (let w = ctx_loaded w;
          ((uds_fd, _), w) = uds_bound path w
      in (uds_fd, uds_listening uds_fd path w))"

definition hp_sum_start :: "'s world \<Rightarrow> int \<times> 's world" where
  "hp_sum_start = hp_worker_start UDS_PATH_SUM"

definition hp_product_start :: "'s world \<Rightarrow> int \<times> 's world" where
  "hp_product_start = hp_worker_start UDS_PATH_PRODUCT"

text \<open>The baseline proxies of the two directories start alike.\<close>

definition hp_proxy_start :: "'s world \<Rightarrow> (int + int) \<times> 's world" where
  "hp_proxy_start w =
     (let w = ctx_loaded w;
          ((sockfd, b), w) = tcp_bound w
      in if b < 0 then (Inl 1, w) else (Inr sockfd, tcp_listening sockfd w))"

subsection \<open>\<^verbatim>\<open>Performance_old\<close>\<close>

definition cp_start :: "'s world \<Rightarrow> (int + int) \<times> 's world" where
  "cp_start = hp_proxy_start"

definition pf_start :: "'s world \<Rightarrow> (int + int) \<times> 's world" where
  "pf_start w =
     (let ((tcp_fd, b), w) = tcp_bound w
      in if b < 0 then (Inl 1, w) else (Inr tcp_fd, tcp_listening tcp_fd w))"

text \<open>A worker listens for the gateway and the proxy, and for clients of its own.\<close>

definition pw_start :: "bytes \<Rightarrow> 's world \<Rightarrow> (int + int \<times> int) \<times> 's world" where
  "pw_start path w =
     (let w = ctx_loaded w;
          ((uds_fd, b), w) = uds_bound path w
      in if b < 0 then (Inl 1, w)
         else
           (let w = uds_listening uds_fd path w;
                ((tcp_fd, b), w) = tcp_bound w
            in if b < 0 then (Inl 1, w) else (Inr (uds_fd, tcp_fd), tcp_listening tcp_fd w)))"

definition sum_start :: "'s world \<Rightarrow> (int + int \<times> int) \<times> 's world" where
  "sum_start = pw_start UDS_PATH_SUM"

definition product_start :: "'s world \<Rightarrow> (int + int \<times> int) \<times> 's world" where
  "product_start = pw_start UDS_PATH_PRODUCT"

subsection \<open>\<^verbatim>\<open>Eval_perf\<close>\<close>

text \<open>An optional argument of the command line that is a number.\<close>

definition arg_or :: "bytes list \<Rightarrow> nat \<Rightarrow> int \<Rightarrow> int" where
  "arg_or argv i preset = (if i < length argv then atoi (argv ! i) else preset)"

text \<open>Context, certificate and key, each of which must be there.\<close>

definition ctx_checked :: "'s world \<Rightarrow> bool \<times> 's world" where
  "ctx_checked w =
     (let (ctx, w) = sys_alloc w
      in if \<not> ctx then (False, w)
         else
           (let (cert, w) = sys_status w
            in if cert \<noteq> 0 then (False, w) else (let (key, w) = sys_status w in (key = 0, w))))"

text \<open>\<^verbatim>\<open>direct_server.c\<close>: port and listener.\<close>

definition direct_start :: "bytes list \<Rightarrow> 's world \<Rightarrow> (int + int \<times> int) \<times> 's world" where
  "direct_start argv w =
     (let port = arg_or argv 1 8443; (ok, w) = ctx_checked w
      in if \<not> ok then (Inl 1, w)
         else
           (let ((sockfd, b), w) = tcp_bound w
            in if b < 0 then (Inl 1, w) else (Inr (port, sockfd), tcp_listening sockfd w)))"

text \<open>\<^verbatim>\<open>direct_tls_server.c\<close>: the number of listening processes, and one of them before its loop.\<close>

definition ds_main_start :: "bytes list \<Rightarrow> 's world \<Rightarrow> (int + int \<times> int) \<times> 's world" where
  "ds_main_start argv w =
     (let port = arg_or argv 1 8445; num_listeners = arg_or argv 2 100; (ok, w) = ctx_checked w
      in if \<not> ok then (Inl 1, w) else (Inr (port, num_listeners), w))"

definition ds_child_start :: "'s world \<Rightarrow> (int + int \<times> ssl_map) \<times> 's world" where
  "ds_child_start w =
     (let (sockfd, w) = sys_newfd w;
          (_, w) = sys_on sockfd w;
          (_, w) = sys_on sockfd w;
          (b, w) = sys_on sockfd w
      in if b < 0 then (Inl 1, w)
         else
           (let w = wk_set_nonblocking sockfd (tcp_listening sockfd w);
                (epfd, w) = sys_newfd w
            in (Inr (sockfd, \<lambda>_. None), epoll_add sockfd w)))"

fun ds_pool :: "nat \<Rightarrow> 's world \<Rightarrow> ((int + int \<times> ssl_map) \<times> 's world) list \<times> 's world" where
  "ds_pool 0 w = ([], w)"
| "ds_pool (Suc k) w =
     (let (pid, v) = sys_status w; (children, u) = ds_pool k v
      in (if pid = 0 then ds_child_start v # children else children, u))"

definition ds_main :: "bytes list \<Rightarrow> 's world \<Rightarrow> int \<times> ((int + int \<times> ssl_map) \<times> 's world) list \<times> 's world" where
  "ds_main argv w =
     (case ds_main_start argv w of
        (Inl code, w) \<Rightarrow> (code, [], w)
      | (Inr (port, num_listeners), w) \<Rightarrow> (let (children, w) = ds_pool (nat num_listeners) w in (0, children, w)))"

text \<open>\<^verbatim>\<open>proxy_worker.c\<close>: number and listener.\<close>

definition proxy_sock_path :: "int \<Rightarrow> bytes" where
  "proxy_sock_path wid = take 107 (cs ''worker_'' @ dec_int wid @ cs ''_proxy.sock'')"

definition proxy_start :: "bytes list \<Rightarrow> 's world \<Rightarrow> (int + int \<times> int) \<times> 's world" where
  "proxy_start argv w =
     (let wid = arg_or argv 1 0; path = proxy_sock_path wid;
          (_, w) = sys_status w;
          (listen_fd, w) = sys_newfd (emit (EvUnlink path) w)
      in if listen_fd < 0 then (Inl 1, w)
         else
           (let (_, w) = sys_on listen_fd w;
                (_, w) = sys_on listen_fd w;
                (b, w) = sys_on listen_fd w
            in if b < 0 then (Inl 1, w)
               else
                 (let (c, w) = sys_status w;
                      w = (if c < 0 then w else emit (EvChmod path) w);
                      w = wk_set_nonblocking listen_fd (uds_listening listen_fd path w);
                      (epfd, w) = sys_newfd w
                  in (Inr (wid, listen_fd), epoll_add listen_fd w))))"

text \<open>
  \<^verbatim>\<open>plain_worker.c\<close>: the listener, and the four processes that are forked ahead.  A child closes the listener and
  leaves the loop of forks; parent and children then all go to the same loop, where \<^verbatim>\<open>accept\<close> needs the listener.
\<close>

definition NGINX_PATH :: bytes where "NGINX_PATH = cs ''nginx_worker.sock''"

definition plain_start :: "'s world \<Rightarrow> (int + int) \<times> 's world" where
  "plain_start w =
     (let (_, w) = sys_status w;
          (sockfd, w) = sys_newfd (emit (EvUnlink NGINX_PATH) w);
          (b, w) = sys_on sockfd w
      in if b < 0 then (Inl 1, w) else (Inr sockfd, uds_listening sockfd NGINX_PATH w))"

fun plain_prefork :: "nat \<Rightarrow> int \<Rightarrow> 's world \<Rightarrow> 's world list \<times> 's world" where
  "plain_prefork 0 sockfd w = ([], w)"
| "plain_prefork (Suc k) sockfd w =
     (let (pid, v) = sys_status w; (children, u) = plain_prefork k sockfd v
      in (if pid = 0 then close sockfd v # children else children, u))"

definition plain_accept :: "int \<Rightarrow> 's world \<Rightarrow> (int \<times> 's world) option \<times> 's world" where
  "plain_accept sockfd w = (if sockfd \<in> set (fds w) then plain_round w else (None, set_errno EOTHER w))"

subsection \<open>What starting opens\<close>

lemma sys_on_frame [simp]:
  "fds (snd (sys_on fd w)) = fds w" "live (snd (sys_on fd w)) = live w" "ub (snd (sys_on fd w)) = ub w"
  "next_ssl (snd (sys_on fd w)) = next_ssl w" "log (snd (sys_on fd w)) = log w"
  by (simp_all add: sys_on_def)

lemma sys_on_ok: "\<not> fst (sys_on fd w) < 0 \<Longrightarrow> 0 \<le> fd"
  by (simp add: sys_on_def split: if_splits)

lemma listening_frame [simp]:
  "fds (tcp_listening fd w) = fds w" "live (tcp_listening fd w) = live w" "ub (tcp_listening fd w) = ub w"
  "next_ssl (tcp_listening fd w) = next_ssl w" "log (tcp_listening fd w) = log w"
  "fds (uds_listening fd p w) = fds w" "live (uds_listening fd p w) = live w" "ub (uds_listening fd p w) = ub w"
  "next_ssl (uds_listening fd p w) = next_ssl w"
  by (simp_all add: tcp_listening_def uds_listening_def split_beta)

text \<open>The predecessor's gateway starts whatever fails, here with no listener at all.\<close>

lemma no_answers:
  assumes "script w = []"
  shows "fst (sys_newfd w) = -1 \<and> script (snd (sys_newfd w)) = [] \<and> script (snd (sys_status w)) = []
       \<and> script (snd (sys_alloc w)) = [] \<and> script (snd (sys_on fd w)) = [] \<and> script (emit e w) = []"
  using assms by (simp add: sys_newfd_def next_answer_def sys_status_def sys_alloc_def sys_on_def set_errno_def emit_def)

lemma hp_gateway_starts_blind: "script w = [] \<Longrightarrow> fst (hp_gateway_start w) = (-1, -1)"
  by (simp add: hp_gateway_start_def tcp_bound_def uds_bound_def ctx_loaded_def tcp_listening_def Let_def split_beta no_answers)

lemma ds_child_start_effect:
  assumes "ds_child_start w = (Inr (l, m), w')" and "fd_wf w"
  shows "0 \<le> l \<and> l \<notin> set (fds w) \<and> l \<in> set (fds w') \<and> m = (\<lambda>_. None) \<and> fd_wf w' \<and> live w' = live w
       \<and> next_ssl w' = next_ssl w \<and> ub w' = ub w"
proof -
  define v where "v = snd (sys_on (fst (sys_newfd w)) (snd (sys_on (fst (sys_newfd w)) (snd (sys_on (fst (sys_newfd w)) (snd (sys_newfd w)))))))"
  define b where "b = fst (sys_on (fst (sys_newfd w)) (snd (sys_on (fst (sys_newfd w)) (snd (sys_on (fst (sys_newfd w)) (snd (sys_newfd w)))))))"
  define u where "u = wk_set_nonblocking (fst (sys_newfd w)) (tcp_listening (fst (sys_newfd w)) v)"
  have r: "\<not> b < 0" "l = fst (sys_newfd w)" "m = (\<lambda>_. None)" "w' = epoll_add l (snd (sys_newfd u))"
    using assms(1) by (auto simp: ds_child_start_def Let_def split_beta b_def v_def u_def split: if_splits)
  have l: "0 \<le> l" using r(1) sys_on_ok unfolding b_def r(2) by blast
  then have v: "fds v = l # fds w" "l \<notin> set (fds w)" "live v = live w" "next_ssl v = next_ssl w" "ub v = ub w"
    using sys_newfd_fresh [of w] by (simp_all add: v_def r(2))
  have u: "fds u = l # fds w" "live u = live w" "next_ssl u = next_ssl w" "ub u = ub w"
    using v by (simp_all add: u_def)
  show ?thesis using l v u r(3) assms(2) sys_newfd_fresh [of u] unfolding r(4) by (auto simp: fd_wf_def)
qed

subsection \<open>The listener of the direct TLS server\<close>

text \<open>A descriptor the map does not know stays open.\<close>

definition unlisted :: "int \<Rightarrow> ssl_map \<Rightarrow> 's world \<Rightarrow> bool" where
  "unlisted x m w = (x \<in> set (fds w) \<and> m x = None)"

lemma unlisted_close: "unlisted x m w \<Longrightarrow> m fd = Some p \<Longrightarrow> unlisted x (fst (ds_close fd p m w)) (snd (ds_close fd p m w))"
  by (cases "x = fd") (auto simp: unlisted_def ds_close_def Let_def)

lemma ds_request_cases: "\<exists>v. fds v = fds w \<and> ds_request K F i fd p m w \<in> {(m, v), ds_close fd p m v}"
proof -
  obtain n req e w1 where rd: "wolfSSL_read (ssl_lib K) p 8191 w = ((n, req, e), w1)" by (metis prod.exhaust)
  have w1: "fds w1 = fds w" using wolfSSL_read_frame [of "ssl_lib K" p 8191 w] unfolding rd by simp
  obtain resp w2 where h: "handle_http_request F req i w1 = (resp, w2)" by fastforce
  have w2: "fds w2 = fds w" using handle_http_request_frame [of F req i w1] w1 unfolding h by simp
  show ?thesis
  proof (cases "0 < n \<and> resp \<noteq> None")
    case False
    then show ?thesis using w1 w2 by (auto simp: ds_request_def rd h)
  next
    case True
    then obtain r where r: "resp = Some r" "0 < n" by auto
    obtain bad v where wl: "wk_write_loop (ssl_lib K) p (cstr r) w2 = (bad, v)" by fastforce
    have "fds v = fds w" using wk_write_loop_frame [of "ssl_lib K" p "cstr r" w2] w2 unfolding wl by simp
    then show ?thesis by (auto simp: ds_request_def rd h r wl)
  qed
qed

lemma unlisted_request:
  assumes "unlisted x m w" "m fd = Some p"
  shows "unlisted x (fst (ds_request K F i fd p m w)) (snd (ds_request K F i fd p m w))"
proof -
  obtain v where v: "fds v = fds w" "ds_request K F i fd p m w \<in> {(m, v), ds_close fd p m v}" using ds_request_cases by blast
  then have "unlisted x m v" using assms(1) by (simp add: unlisted_def)
  with v(2) unlisted_close [OF this assms(2)] show ?thesis by (elim insertE emptyE) simp_all
qed

lemma unlisted_client_event:
  assumes "unlisted x m w"
  shows "unlisted x (fst (ds_client_event K F i fd m w)) (snd (ds_client_event K F i fd m w))"
proof (cases "m fd")
  case None
  then show ?thesis using assms by (simp add: ds_client_event_def Let_def unlisted_def)
next
  case (Some p)
  define w1 where "w1 = snd (ssl_query (ws_init_finished K) False p (client_index fd w))"
  define w2 where "w2 = snd (wolfSSL_accept (ssl_lib K) p w1)"
  have u: "unlisted x m w1" "unlisted x m w2" using assms by (simp_all add: w1_def w2_def unlisted_def)
  have "ds_client_event K F i fd m w \<in>
      {ds_request K F i fd p m w1, ds_request K F i fd p m w2, (m, w2), ds_close fd p m w2}"
    using Some by (simp add: ds_client_event_def split_beta Let_def w1_def w2_def)
  then show ?thesis
    using u unlisted_request [where m = m and fd = fd and p = p, OF u(1) Some]
      unlisted_request [where m = m and fd = fd and p = p, OF u(2) Some]
      unlisted_close [where m = m and fd = fd and p = p, OF u(2) Some]
    by (elim insertE emptyE) simp_all
qed

lemma unlisted_admit:
  assumes "unlisted x m w" "x \<noteq> fd"
  shows "unlisted x (fst (ds_admit K fd m w)) (snd (ds_admit K fd m w))"
  using assms by (simp add: ds_admit_def Let_def split_beta unlisted_def split: option.split)

lemma unlisted_accept_all:
  "unlisted x m w \<Longrightarrow> unlisted x (fst (ds_accept_all K m w)) (snd (ds_accept_all K m w))"
proof (induction K m w rule: ds_accept_all.induct)
  case (1 K m w)
  show ?case
  proof (cases "fst (sys_newfd w) < 0")
    case True
    then show ?thesis using "1.prems" by (subst (1 2) ds_accept_all.simps) (simp add: unlisted_def)
  next
    case False
    then have "x \<noteq> fst (sys_newfd w)" "unlisted x m (snd (sys_newfd w))"
      using "1.prems" sys_newfd_fresh [of w] by (auto simp: unlisted_def)
    from "1.IH" [OF False unlisted_admit [OF this(2,1)]] False show ?thesis by (subst (1 2) ds_accept_all.simps) simp
  qed
qed

lemma unlisted_reach:
  "ds_reach K F i s0 s \<Longrightarrow> unlisted x (fst s0) (snd s0) \<Longrightarrow> unlisted x (fst s) (snd s)"
proof (induction rule: ds_reach.induct)
  case (ds_next s s')
  from ds_next.hyps(2) ds_next.IH [OF ds_next.prems] show ?case
    by (cases rule: ds_step.cases) (auto simp: unlisted_accept_all unlisted_client_event, simp add: unlisted_def)
qed simp

subsection \<open>Processes forked ahead\<close>

lemma plain_prefork_effect:
  "plain_prefork k sockfd w = (children, w2) \<Longrightarrow> fd_wf w \<Longrightarrow>
     fds w2 = fds w \<and> length children \<le> k \<and> (\<forall>c \<in> set children. sockfd \<notin> set (fds c))"
proof (induction k arbitrary: w children w2)
  case 0
  then show ?case by simp
next
  case (Suc k)
  define v where "v = snd (sys_status w)"
  obtain cs u where q: "plain_prefork k sockfd v = (cs, u)" by fastforce
  have v: "fds v = fds w" "fd_wf v" using Suc.prems(2) by (simp_all add: v_def fd_wf_def)
  have e: "w2 = u" "children = (if fst (sys_status w) = 0 then close sockfd v # cs else cs)"
    using Suc.prems(1) q by (auto simp: split_beta Let_def v_def)
  have "sockfd \<notin> set (fds (close sockfd v))" using v by (simp add: fd_wf_def)
  with Suc.IH [OF q v(2)] v e show ?case by auto
qed

text \<open>A process without the listener gets no connection and never changes.\<close>

lemma plain_accept_closed:
  assumes "sockfd \<notin> set (fds w)"
  shows "fst (plain_accept sockfd (((\<lambda>v. snd (plain_accept sockfd v)) ^^ k) w)) = None
       \<and> fds (((\<lambda>v. snd (plain_accept sockfd v)) ^^ k) w) = fds w \<and> log (((\<lambda>v. snd (plain_accept sockfd v)) ^^ k) w) = log w"
proof (induction k)
  case 0
  with assms show ?case by (simp add: plain_accept_def)
next
  case (Suc k)
  with assms show ?case by (simp add: plain_accept_def)
qed

subsection \<open>Properties\<close>

text \<open>
  C18. A process of the direct TLS server from its start on: when it starts and enters the loop, then in every state it reaches its
  listener is open and belongs to no client, the live sessions are exactly those its map holds, no two
  descriptors share one, and every descriptor in the map is open, whatever the clients do and whichever calls fail.
\<close>

theorem direct_tls_service_safe:
  assumes "ds_child_start w = (Inr (l, m0), w1)" and "ds_reach K F i (m0, w1) (m, w2)" and "fd_wf w" and "live w = {}"
  shows "l \<in> set (fds w2) \<and> m l = None \<and> live w2 = {p. \<exists>fd. m fd = Some p}
       \<and> (\<forall>fd fd' p. m fd = Some p \<longrightarrow> m fd' = Some p \<longrightarrow> fd = fd')
       \<and> (\<forall>fd. m fd \<noteq> None \<longrightarrow> fd \<in> set (fds w2))"
proof -
  note s = ds_child_start_effect [OF assms(1,3)]
  have "table_of m0 = (\<lambda>_. zero_conn)" using s by (simp add: table_of_def fun_eq_iff)
  then have "ds_inv m0 w1" using wk_inv_start [of w1] s assms(4) by (simp add: ds_inv_def)
  then have iv: "ds_inv m w2" using ds_reach_inv [OF assms(2)] by simp
  have "unlisted l m w2" using unlisted_reach [OF assms(2), of l] s by (simp add: unlisted_def)
  moreover have "live w2 = {p. \<exists>fd. m fd = Some p}"
    and "\<forall>fd fd' p. m fd = Some p \<longrightarrow> m fd' = Some p \<longrightarrow> fd = fd'"
    and "\<forall>fd. m fd \<noteq> None \<longrightarrow> fd \<in> set (fds w2)"
    using iv unfolding ds_inv_def wk_inv_def table_of_simps by blast+
  ultimately show ?thesis by (simp add: unlisted_def)
qed

definition ds_world :: "bytes world" where
  "ds_world = boot [Ok 0, Ok 0, Ok 0, Ok 0, Ok 0, Ok 2, Ok 0, Ok 0, Ok 0, Ok 0, Ok 0, Ok 0, Ok 0, Ok 0, Ok 0]"

theorem direct_tls_service_safe_witness:
  "0 \<in> set (fds (snd (ds_accept_all echo_server (\<lambda>_. None) (snd (ds_child_start ds_world)))))
 \<and> fst (ds_accept_all echo_server (\<lambda>_. None) (snd (ds_child_start ds_world))) 0 = None"
proof -
  have n: "sys_newfd ds_world = (0, ds_world\<lparr>script := tl (script ds_world), fds := [0]\<rparr>)"
    by (simp add: sys_newfd_def next_answer_def lowest_free_def ds_world_def boot_def)
  have "fst (ds_child_start ds_world) = Inr (0, \<lambda>_. None)"
    by (simp add: ds_child_start_def n Let_def split_beta sys_on_def sys_status_def next_answer_def) (simp add: ds_world_def)
  then have s: "ds_child_start ds_world = (Inr (0, \<lambda>_. None), snd (ds_child_start ds_world))" by (simp add: prod_eq_iff)
  let ?s = "ds_accept_all echo_server (\<lambda>_. None) (snd (ds_child_start ds_world))"
  have "ds_step echo_server whole_numbers 0 (\<lambda>_. None, snd (ds_child_start ds_world)) ?s" by (rule ds_step.ds_listener)
  then have "ds_reach echo_server whole_numbers 0 (\<lambda>_. None, snd (ds_child_start ds_world)) (fst ?s, snd ?s)"
    using ds_reach.ds_next [OF ds_reach.ds_start] by simp
  from direct_tls_service_safe [OF s this] show ?thesis by (simp add: fd_wf_def ds_world_def)
qed

text \<open>
  C33. The processes that the plain worker forks ahead do nothing: the parent keeps its listener, but each child has closed it
  before it enters the loop, so that however often it calls \<^verbatim>\<open>accept\<close> it never gets a connection, and
  spins with nothing changed.
\<close>

theorem plain_prefork_children_idle:
  assumes "plain_start w = (Inr sockfd, w1)" and "plain_prefork 4 sockfd w1 = (children, w2)" and "fd_wf w" and "c \<in> set children"
  shows "sockfd \<in> set (fds w2) \<and> fst (plain_accept sockfd (((\<lambda>v. snd (plain_accept sockfd v)) ^^ k) c)) = None
       \<and> log (((\<lambda>v. snd (plain_accept sockfd v)) ^^ k) c) = log c"
proof -
  define u where "u = emit (EvUnlink NGINX_PATH) (snd (sys_status w))"
  have s: "sockfd = fst (sys_newfd u)" "\<not> fst (sys_on (fst (sys_newfd u)) (snd (sys_newfd u))) < 0"
    "fds w1 = fds (snd (sys_newfd u))"
    using assms(1) by (auto simp: plain_start_def Let_def split_beta u_def split: if_splits)
  have "0 \<le> sockfd" using sys_on_ok [OF s(2)] s(1) by simp
  then have w1: "fds w1 = sockfd # fds w" "sockfd \<notin> set (fds w)" using s sys_newfd_fresh [of u] by (simp_all add: u_def)
  then have "fd_wf w1" using assms(3) by (simp add: fd_wf_def)
  from plain_prefork_effect [OF assms(2) this] assms(4) w1(1) plain_accept_closed [of sockfd c k] show ?thesis by simp
qed

theorem plain_prefork_children_idle_witness:
  "\<exists>c children w2. plain_prefork 4 0 (snd (plain_start (boot (replicate 8 (Ok 0)) :: unit world))) = (c # children, w2)
       \<and> fst (plain_accept 0 (((\<lambda>v. snd (plain_accept 0 v)) ^^ 1000) c)) = None"
proof -
  let ?w = "boot (replicate 8 (Ok 0)) :: unit world"
  have r: "replicate 8 (Ok 0) = [Ok 0, Ok 0, Ok 0, Ok 0, Ok 0, Ok 0, Ok 0, Ok 0]" by (simp add: numeral_eq_Suc)
  define w1 where "w1 = snd (plain_start ?w)"
  have s: "plain_start ?w = (Inr 0, w1)" "script w1 = [Ok 0, Ok 0, Ok 0, Ok 0]"
    by (simp_all add: w1_def plain_start_def r sys_status_def next_answer_def sys_newfd_def lowest_free_def sys_on_def
        uds_listening_def emit_def Let_def boot_def)
  have "fst (sys_status w1) = 0" by (simp add: sys_status_def next_answer_def s(2))
  then obtain c cs w2 where p: "plain_prefork 4 0 w1 = (c # cs, w2)"
    by (auto simp: eval_nat_numeral split_beta Let_def)
  from plain_prefork_children_idle [OF s(1) p, of c 1000] p show ?thesis unfolding w1_def by (auto simp: fd_wf_def)
qed

end
