(* ===== verification/Watchdog.thy ===== *)
theory Watchdog
  imports KeepAlive
begin

text \<open>
  The two functions of the end-to-end tests, which add the two numbers they are sent.
  \<^verbatim>\<open>test2-faasd-end-to-end-classic-watchdog/main.c\<close> is started once for each request and reads a line from its
  standard input; \<^verbatim>\<open>test2-faasd-end-to-end-moderne-watchdog/main.c\<close> is an HTTP server of its own, which looks for
  the numbers in the first chunk of the body.
\<close>

subsection \<open>Reading numbers\<close>

text \<open>The conversion \<open>%d\<close> of \<^verbatim>\<open>sscanf\<close>: the number and the rest, or a failure to match.\<close>

definition scan_int :: "bytes \<Rightarrow> (int \<times> bytes) option" where
  "scan_int s = (let (v, n, _) = strtoll s in if n = 0 then None else Some (c_int v, drop n s))"

text \<open>\<open>sscanf(s, "%d %d", &num1, &num2)\<close> when both numbers are read; a blank in the format skips white space.\<close>

definition scan_two :: "bytes \<Rightarrow> (int \<times> int) option" where
  "scan_two s =
     (case scan_int (cstr s) of
        None \<Rightarrow> None
      | Some (num1, r) \<Rightarrow> (case scan_int (dropWhile isspace r) of None \<Rightarrow> None | Some (num2, _) \<Rightarrow> Some (num1, num2)))"

definition success_text :: "int \<Rightarrow> bytes" where
  "success_text result =
     cs ''{'' @ [LF] @ cs ''  \"status\": \"success\",'' @ [LF] @ cs ''  \"result\": '' @ dec_int result @ [LF] @ cs ''}'' @ [LF]"

text \<open>Adding two numbers whose sum does not fit is undefined.\<close>

definition add_overflows :: "(int \<times> int) option \<Rightarrow> bool" where
  "add_overflows nums = (case nums of None \<Rightarrow> False | Some (a, b) \<Rightarrow> \<not> int32 (a + b))"

subsection \<open>The classic function\<close>

text \<open>\<^verbatim>\<open>fgets\<close>: a line with its line feed, at most 255 bytes; \<open>None\<close> at the end of the input.\<close>

definition fgets :: "nat \<Rightarrow> bytes \<Rightarrow> bytes option" where
  "fgets n input =
     (if input = [] then None
      else Some (take (n - 1) (takeWhile (\<lambda>c. c \<noteq> LF) input @ take 1 (dropWhile (\<lambda>c. c \<noteq> LF) input))))"

definition classic_error :: bytes where
  "classic_error =
     cs ''{'' @ [LF] @ cs ''  \"status\": \"error\",'' @ [LF] @ cs ''  \"message\": \"Invalid input format.\"'' @ [LF] @ cs ''}'' @ [LF]"

text \<open>What the program prints, and whether its addition overflows.\<close>

definition classic_main :: "bytes \<Rightarrow> bytes \<times> bool" where
  "classic_main input =
     (let nums = (case fgets 256 input of None \<Rightarrow> None | Some input_buffer \<Rightarrow> scan_two input_buffer)
      in (case nums of None \<Rightarrow> classic_error | Some (num1, num2) \<Rightarrow> success_text (c_int (num1 + num2)),
          add_overflows nums))"

subsection \<open>The modern function\<close>

definition BUFFER_SIZE :: nat where "BUFFER_SIZE = 16384"

definition last_chunk :: bytes where "last_chunk = cs ''0'' @ crlf @ crlf"

text \<open>Whether the loop that reads the request stops after a read of \<open>n\<close> bytes.\<close>

definition request_complete :: "bytes \<Rightarrow> int \<Rightarrow> bool" where
  "request_complete buffer n =
     (strstr_found buffer last_chunk \<or> strstr_found buffer (crlf @ crlf) \<and> n < 10)"

function read_request :: "bytes \<Rightarrow> 's world \<Rightarrow> bytes \<times> 's world" where
  "read_request buffer w =
     (case sys_read (BUFFER_SIZE - length buffer - 1) w of
        ((n, bs), w2) \<Rightarrow>
          if n \<le> 0 then (buffer, w2)
          else if request_complete (buffer @ bs) n then (buffer @ bs, w2)
          else read_request (buffer @ bs) w2)"
  by pat_completeness auto

termination read_request
  by (relation "measure (\<lambda>(b, w). slen w)") (auto dest: sys_read_progress [OF sym])

declare read_request.simps [simp del]

text \<open>The text the numbers are looked for in; \<open>None\<close> without the end of a header.\<close>

definition real_data :: "bytes \<Rightarrow> bytes option" where
  "real_data buffer =
     (case strstr buffer (crlf @ crlf) of
        None \<Rightarrow> None
      | Some i \<Rightarrow>
          (let body_start = drop (i + 4) (cstr buffer)
           in Some (if body_start \<noteq> [] \<and> isdigit (hd body_start)
                    then (case strstr body_start crlf of None \<Rightarrow> body_start | Some j \<Rightarrow> drop (j + 2) body_start)
                    else body_start)))"

definition modern_error :: "bytes \<Rightarrow> bytes" where
  "modern_error segment =
     cs ''{'' @ [LF] @ cs ''  \"status\": \"error\",'' @ [LF] @ cs ''  \"message\": \"Parsing failed.\",'' @ [LF]
     @ cs ''  \"debug_raw_segment\": \"'' @ segment @ cs ''\"'' @ [LF] @ cs ''}'' @ [LF]"

definition modern_text :: "bytes \<Rightarrow> bytes" where
  "modern_text segment =
     (case scan_two segment of None \<Rightarrow> modern_error segment | Some (num1, num2) \<Rightarrow> success_text (c_int (num1 + num2)))"

definition modern_response :: "bytes \<Rightarrow> bytes" where
  "modern_response text =
     cs ''HTTP/1.1 200 OK'' @ crlf @ cs ''Content-Type: application/json'' @ crlf
     @ cs ''Content-Length: '' @ dec_digits (length text) @ crlf @ cs ''Connection: close'' @ crlf @ crlf @ text"

text \<open>Both texts are written into arrays, of 512 and 2048 bytes, whatever their length.\<close>

definition modern_answer :: "int \<Rightarrow> bytes \<Rightarrow> 's world \<Rightarrow> 's world" where
  "modern_answer client_socket buffer w =
     (case real_data buffer of
        None \<Rightarrow> w
      | Some segment \<Rightarrow>
          (let text = modern_text segment;
               w = flag_ub (add_overflows (scan_two segment)) w;
               w = flag_ub (512 < length text + 1) w;
               w = flag_ub (2048 < length (modern_response text) + 1) w
           in snd (sys_write client_socket (modern_response text) w)))"

definition modern_round :: "'s world \<Rightarrow> 's world" where
  "modern_round w =
     (let (client_socket, w) = sys_newfd w
      in if client_socket < 0 then w
         else
           (let (buffer, w) = read_request [] w
            in close client_socket (modern_answer client_socket buffer w)))"

text \<open>The listener; no result is looked at.\<close>

definition modern_start :: "'s world \<Rightarrow> int \<times> 's world" where
  "modern_start w =
     (let (server_fd, w) = sys_newfd w;
          (_, w) = sys_status w;
          (_, w) = sys_status w;
          (_, w) = sys_status w
      in (server_fd, w))"


subsection \<open>Numbers printed and read back\<close>

lemma scan_int_dec_int:
  assumes "int32 a" "r = [] \<or> \<not> isdigit (hd r)"
  shows "scan_int (dec_int a @ r) = Some (a, r)"
proof -
  have "strtoll (dec_int a @ r) = (a, length (dec_int a), False)"
    using assms by (intro strtoll_dec_int) (simp_all add: int32_def LLONG_MIN_def LLONG_MAX_def)
  moreover have "dec_int a \<noteq> []" by (simp add: dec_int_def)
  ultimately show ?thesis using assms(1) by (simp add: scan_int_def c_int_id)
qed

lemma cstr_append: "0 \<notin> set s \<Longrightarrow> cstr (s @ r) = s @ cstr r"
  by (simp add: cstr_def) (induction s, auto)

lemma hd_cstr: "r = [] \<or> \<not> isdigit (hd r) \<Longrightarrow> cstr r = [] \<or> \<not> isdigit (hd (cstr r))"
  by (cases r) (simp_all add: cstr_def)

lemma dropWhile_space_dec: "dropWhile isspace (dec_int a @ r) = dec_int a @ r"
proof -
  obtain c l where c: "dec_int a = c # l" by (cases "dec_int a") (auto simp: dec_int_def split: if_splits)
  then have "isdigit c \<or> c = 45" using dec_int_chars [of c a] by simp
  then have "\<not> isspace c" using isdigit_not_isspace isdigit_code by auto
  with c show ?thesis by simp
qed

lemma scan_two_numbers:
  assumes "int32 a" "int32 b" "r = [] \<or> \<not> isdigit (hd r)" "s \<noteq> []" "\<forall>c \<in> set s. isspace c"
  shows "scan_two (dec_int a @ s @ dec_int b @ r) = Some (a, b)"
proof -
  have s: "0 \<notin> set s" "\<not> isdigit (hd s)" using assms(4,5) isdigit_not_isspace hd_in_set by (fastforce simp: isspace_def)+
  have e: "cstr (dec_int a @ s @ dec_int b @ r) = dec_int a @ s @ dec_int b @ cstr r"
    using dec_int_no s(1) by (simp add: cstr_append)
  have "dropWhile isspace (s @ dec_int b @ cstr r) = dec_int b @ cstr r"
    using assms(5) by (simp add: dropWhile_append2 dropWhile_space_dec)
  then show ?thesis
    unfolding scan_two_def e
    using scan_int_dec_int [OF assms(1), of "s @ dec_int b @ cstr r"] scan_int_dec_int [OF assms(2) hd_cstr [OF assms(3)]] s assms(4)
    by simp
qed

lemma scan_int_nothing: "scan_int [] = None"
  by (simp add: scan_int_def strtoll_def)

lemma scan_two_one_number: "int32 a \<Longrightarrow> \<forall>c \<in> set s. isspace c \<Longrightarrow> scan_two (dec_int a @ s) = None"
proof -
  assume a: "int32 a" and s: "\<forall>c \<in> set s. isspace c"
  have "0 \<notin> set s" using s by (auto simp: isspace_def)
  then have "cstr (dec_int a @ s) = dec_int a @ s" using dec_int_no by (simp add: cstr_id)
  moreover have "s = [] \<or> \<not> isdigit (hd s)" using s isdigit_not_isspace hd_in_set by blast
  moreover have "scan_int (dropWhile isspace s) = None" using s by (simp add: dropWhile_eq_Nil_conv [THEN iffD2] scan_int_nothing)
  ultimately show ?thesis using scan_int_dec_int [OF a, of s] by (simp add: scan_two_def)
qed


subsection \<open>Receiving a request\<close>

lemma find_at_end:
  assumes "find_at n (p @ butlast n) = None" "n \<noteq> []"
  shows "find_at n (p @ n @ r) = Some (length p)"
proof -
  have "take (length n) (drop (length p) (p @ n @ r)) = n" "length p \<le> length (p @ n @ r)" by simp_all
  then have "find_at n (p @ n @ r) \<noteq> None" unfolding find_at_None by blast
  then obtain i where i: "find_at n (p @ n @ r) = Some i" by blast
  have "take (length n) (drop (length p) (p @ n @ r)) = n" by simp
  then have le: "i \<le> length p" using find_at_first [OF i, of "length p"] by (meson linorder_not_less)
  have "\<not> i < length p"
  proof
    assume lt: "i < length p"
    have "length n = Suc (length (butlast n))" using assms(2) by (cases n rule: rev_cases) simp_all
    then have "take (length n) (drop i (p @ butlast n)) = take (length n) (drop i (p @ n @ r))"
      using lt by (simp add: take_append butlast_conv_take min_def)
    also have "\<dots> = n" using find_at_Some [OF i] by simp
    finally have "take (length n) (drop i (p @ butlast n)) = n" .
    moreover have "i \<le> length (p @ butlast n)" using lt by simp
    ultimately show False using assms(1) unfolding find_at_None by blast
  qed
  with i le show ?thesis by simp
qed

text \<open>Segments that arrive one after the other, the last one completing the request.\<close>

fun arrives :: "bytes \<Rightarrow> bytes list \<Rightarrow> bool" where
  "arrives buffer [] = False"
| "arrives buffer (d # ds) =
     (d \<noteq> [] \<and> length (buffer @ d) < BUFFER_SIZE
    \<and> (if request_complete (buffer @ d) (int (length d)) then ds = [] else arrives (buffer @ d) ds))"

lemma read_request_segments:
  "arrives buffer ds \<Longrightarrow> script w = map Data ds @ as \<Longrightarrow>
     read_request buffer w = (buffer @ concat ds, w\<lparr>script := as\<rparr>)"
proof (induction ds arbitrary: buffer w)
  case Nil
  then show ?case by simp
next
  case (Cons d ds)
  have l: "d \<noteq> []" "length d \<le> BUFFER_SIZE - length buffer - 1" using Cons.prems(1) by auto
  have r: "sys_read (BUFFER_SIZE - length buffer - 1) w = ((int (length d), d), w\<lparr>script := map Data ds @ as\<rparr>)"
    using Cons.prems(2) l by (simp add: sys_read_def next_answer_def)
  have e: "read_request buffer w =
      (if request_complete (buffer @ d) (int (length d)) then (buffer @ d, w\<lparr>script := map Data ds @ as\<rparr>)
       else read_request (buffer @ d) (w\<lparr>script := map Data ds @ as\<rparr>))"
    using l by (subst read_request.simps) (simp add: r [simplified])
  show ?case
  proof (cases "request_complete (buffer @ d) (int (length d))")
    case True
    with Cons.prems(1) show ?thesis by (simp add: e)
  next
    case False
    then have "arrives (buffer @ d) ds" using Cons.prems(1) by simp
    from Cons.IH [OF this, of "w\<lparr>script := map Data ds @ as\<rparr>"] False show ?thesis by (simp add: e)
  qed
qed

text \<open>The loop stays inside its buffer and changes nothing but the script and the error number.\<close>

lemma read_request_frame:
  "length buffer < BUFFER_SIZE \<Longrightarrow>
     length (fst (read_request buffer w)) < BUFFER_SIZE \<and> fds (snd (read_request buffer w)) = fds w
   \<and> live (snd (read_request buffer w)) = live w \<and> ub (snd (read_request buffer w)) = ub w
   \<and> log (snd (read_request buffer w)) = log w"
proof (induction buffer w rule: read_request.induct)
  case (1 buffer w)
  obtain n bs w2 where r: "sys_read (BUFFER_SIZE - length buffer - 1) w = ((n, bs), w2)" by (metis prod.exhaust)
  have w2: "fds w2 = fds w" "live w2 = live w" "ub w2 = ub w" "log w2 = log w"
    using sys_read_frame [of "BUFFER_SIZE - length buffer - 1" w] unfolding r by simp_all
  have l: "length bs \<le> BUFFER_SIZE - length buffer - 1"
    using r by (auto simp: sys_read_def Let_def split_beta split: answer.splits)
  with "1.prems" have lt: "length (buffer @ bs) < BUFFER_SIZE" by simp
  have e: "read_request buffer w =
      (if n \<le> 0 then (buffer, w2) else if request_complete (buffer @ bs) n then (buffer @ bs, w2)
       else read_request (buffer @ bs) w2)"
    by (subst read_request.simps) (simp add: r [simplified])
  show ?case
  proof (cases "n \<le> 0 \<or> request_complete (buffer @ bs) n")
    case True
    with "1.prems" lt w2 show ?thesis by (auto simp: e)
  next
    case False
    then show ?thesis using "1.IH" [OF r [symmetric] refl _ _ lt] w2 by (simp add: e)
  qed
qed

text \<open>A request with its numbers in the first chunk.\<close>

definition chunked_request :: "bytes \<Rightarrow> bytes \<Rightarrow> bytes \<Rightarrow> bytes" where
  "chunked_request head size_line body = head @ crlf @ crlf @ size_line @ crlf @ body @ crlf @ last_chunk"

definition plain_header :: "bytes \<Rightarrow> bool" where
  "plain_header head = (0 \<notin> set head \<and> \<not> strstr_found (head @ crlf @ [CR]) (crlf @ crlf))"

definition chunk_size_line :: "bytes \<Rightarrow> bool" where
  "chunk_size_line s = (s \<noteq> [] \<and> isdigit (hd s) \<and> 0 \<notin> set s \<and> CR \<notin> set s)"

lemma no_crlf: "CR \<notin> set s \<Longrightarrow> find_at crlf (s @ [CR]) = None"
proof (induction s)
  case (Cons c s)
  then show ?case by (cases s) simp_all
qed simp

lemma header_end_found:
  assumes "plain_header head" "0 \<notin> set r"
  shows "strstr (head @ crlf @ crlf @ r) (crlf @ crlf) = Some (length head)"
proof -
  have "0 \<notin> set (head @ crlf @ crlf @ r)" using assms by (simp add: plain_header_def)
  moreover have "0 \<notin> set (head @ crlf @ [CR])" using assms(1) by (simp add: plain_header_def)
  then have "find_at (crlf @ crlf) (head @ butlast (crlf @ crlf)) = None"
    using assms(1) by (simp add: plain_header_def strstr_found_def strstr_def cstr_id)
  ultimately show ?thesis
    using find_at_end [of "crlf @ crlf" head r] by (simp add: strstr_def cstr_id)
qed

lemma real_data_first_chunk:
  assumes "plain_header head" "chunk_size_line s" "0 \<notin> set body"
  shows "real_data (head @ crlf @ crlf @ s @ crlf @ body) = Some body"
proof -
  let ?b = "head @ crlf @ crlf @ s @ crlf @ body"
  have c: "cstr ?b = ?b" using assms by (intro cstr_id) (simp add: plain_header_def chunk_size_line_def)
  have t: "0 \<notin> set (s @ crlf @ body)" using assms by (simp add: chunk_size_line_def)
  have i: "strstr ?b (crlf @ crlf) = Some (length head)" using header_end_found [OF assms(1) t] by simp
  have d: "drop (length head + 4) ?b = s @ crlf @ body" by simp
  have "find_at crlf (s @ butlast crlf) = None" using assms(2) by (simp add: chunk_size_line_def no_crlf)
  then have j: "strstr (s @ crlf @ body) crlf = Some (length s)"
    using find_at_end [of crlf s body] unfolding strstr_def cstr_id [OF t] by simp
  show ?thesis
    unfolding real_data_def i option.case Let_def c d j using assms(2) by (simp add: chunk_size_line_def)
qed

lemma real_data_chunked:
  assumes "plain_header head" "chunk_size_line s" "0 \<notin> set body"
  shows "real_data (chunked_request head s body) = Some (body @ crlf @ last_chunk)"
proof -
  have "0 \<notin> set (body @ crlf @ last_chunk)" using assms(3) by (simp add: last_chunk_def cs_def)
  from real_data_first_chunk [OF assms(1,2) this] show ?thesis by (simp add: chunked_request_def)
qed


lemma modern_round_served:
  assumes "script w = Ok 0 # map Data ds @ Ok k # as" and "arrives [] ds" and "real_data (concat ds) = Some segment"
  shows "log (modern_round w) =
           [EvClose (lowest_free (fds w)), EvWrite (lowest_free (fds w)) (take (nat k) (modern_response (modern_text segment)))]
           @ log w
       \<and> fds (modern_round w) = fds w"
proof -
  let ?fd = "lowest_free (fds w)"
  define v where "v = w\<lparr>script := Ok k # as, fds := ?fd # fds w\<rparr>"
  have n: "sys_newfd w = (?fd, w\<lparr>script := map Data ds @ Ok k # as, fds := ?fd # fds w\<rparr>)"
    using assms(1) by (simp add: sys_newfd_def next_answer_def Let_def)
  have r: "read_request [] (w\<lparr>script := map Data ds @ Ok k # as, fds := ?fd # fds w\<rparr>) = (concat ds, v)"
    using read_request_segments [OF assms(2), of "w\<lparr>script := map Data ds @ Ok k # as, fds := ?fd # fds w\<rparr>"] by (simp add: v_def)
  have e: "modern_round w = close ?fd (modern_answer ?fd (concat ds) v)"
    using lowest_free_nonneg [of "fds w"] by (simp add: modern_round_def n r not_less)
  show ?thesis
    unfolding e by (simp add: modern_answer_def assms(3) Let_def sys_write_def next_answer_def flag_ub_def v_def emit_def)
qed

subsection \<open>Properties\<close>

text \<open>
  C21. The two functions agree on two numbers whose sum fits: given them on a line, the classic function prints the sum;
  given them as the body of a chunked request, the modern function sends the same text as the body of its response, and
  closes the connection.  The request may arrive in any segments of which the loop reads all (\<open>arrives\<close>): before the
  last segment, the buffer never holds the mark of the last chunk, nor the end of the header right after a segment
  of fewer than ten bytes.  What happens otherwise is \<open>modern_stops_at_short_segment\<close>.
\<close>

theorem watchdog_functions_agree:
  assumes "int32 a" and "int32 b" and "int32 (a + b)"
    and "plain_header head" and "chunk_size_line s"
    and "concat ds = chunked_request head s (dec_int a @ [SP] @ dec_int b)"
    and "arrives [] ds" and "script w = Ok 0 # map Data ds @ Ok k # as"
  shows "classic_main (dec_int a @ [SP] @ dec_int b @ [LF]) = (success_text (a + b), False)
       \<and> log (modern_round w) =
           [EvClose (lowest_free (fds w)), EvWrite (lowest_free (fds w)) (take (nat k) (modern_response (success_text (a + b))))]
           @ log w"
proof -
  have sp: "[SP] \<noteq> []" "\<forall>c \<in> set [SP]. isspace c" by (simp_all add: isspace_def)
  have body: "0 \<notin> set (dec_int a @ [SP] @ dec_int b)" using dec_int_no by simp
  have m: "scan_two (dec_int a @ [SP] @ dec_int b @ crlf @ last_chunk) = Some (a, b)"
    using scan_two_numbers [OF assms(1,2) _ sp, of "crlf @ last_chunk"] isdigit_code by simp
  have c: "scan_two (dec_int a @ [SP] @ dec_int b @ [LF]) = Some (a, b)"
    using scan_two_numbers [OF assms(1,2) _ sp, of "[LF]"] isdigit_code by simp
  have seg: "real_data (concat ds) = Some (dec_int a @ [SP] @ dec_int b @ crlf @ last_chunk)"
    using real_data_chunked [OF assms(4,5) body] assms(6) by simp
  have line: "fgets 256 (dec_int a @ SP # dec_int b @ [LF]) = Some (dec_int a @ SP # dec_int b @ [LF])"
    using dec_int_no length_dec_int32 [OF assms(1)] length_dec_int32 [OF assms(2)]
    by (simp add: fgets_def takeWhile_append dropWhile_append)
  show ?thesis
    using modern_round_served [OF assms(8,7) seg] m c assms(3)
    by (simp add: classic_main_def line modern_text_def c_int_id add_overflows_def)
qed


text \<open>A request for two numbers in two segments.\<close>

definition sum_header :: bytes where
  "sum_header = cs ''POST / HTTP/1.1'' @ crlf @ cs ''Transfer-Encoding: chunked''"

definition sum_request :: "bytes list" where
  "sum_request = [sum_header @ crlf @ crlf, cs ''4'' @ crlf @ cs ''30 4'' @ crlf @ last_chunk]"

lemma sum_request_arrives: "arrives [] sum_request" "arrives [] [chunked_request sum_header (cs ''2'') (cs ''30'')]"
proof -
  have r: "\<not> request_complete (sum_header @ crlf @ crlf) 47"
    "request_complete (sum_header @ crlf @ crlf @ cs ''4'' @ crlf @ cs ''30 4'' @ crlf @ last_chunk) 14"
    "request_complete (chunked_request sum_header (cs ''2'') (cs ''30'')) 59"
    by code_simp+
  have l: "length sum_header = 43" "length last_chunk = 5" by code_simp+
  show "arrives [] sum_request"
    using r(1,2) l by (simp add: sum_request_def BUFFER_SIZE_def cs_def)
  show "arrives [] [chunked_request sum_header (cs ''2'') (cs ''30'')]"
    using r(3) l by (simp add: BUFFER_SIZE_def chunked_request_def cs_def)
qed

theorem watchdog_functions_agree_witness:
  "fst (classic_main (cs ''30 4'' @ [LF])) = success_text 34
 \<and> log (modern_round (boot (Ok 0 # map Data sum_request @ [Ok 2000]) :: bytes world)) =
     [EvClose 0, EvWrite 0 (modern_response (success_text 34))]"
proof -
  have n: "dec_int 30 = cs ''30''" "dec_int 4 = cs ''4''" "dec_int 34 = cs ''34''" by code_simp+
  have h: "plain_header sum_header" "chunk_size_line (cs ''4'')" by code_simp+
  have e: "cs ''30 4'' = dec_int 30 @ [SP] @ dec_int 4" unfolding n by (simp add: cs_def)
  have c: "concat sum_request = chunked_request sum_header (cs ''4'') (dec_int 30 @ [SP] @ dec_int 4)"
    by (simp add: sum_request_def chunked_request_def e)
  have l: "length (modern_response (success_text 34)) \<le> 2000" by code_simp
  have w: "script (boot (Ok 0 # map Data sum_request @ [Ok 2000]) :: bytes world) = Ok 0 # map Data sum_request @ Ok 2000 # []"
    by simp
  have "int32 30" "int32 4" "int32 (30 + 4)" by (simp_all add: int32_def)
  from watchdog_functions_agree [OF this h c sum_request_arrives(1) w] show ?thesis using take_all [OF l] by (simp add: e lowest_free_def)
qed

text \<open>
  C39. The modern function depends on how a request is cut into segments.  When the header comes first and
  then the line with the size of the chunk alone, the loop takes the short segment for the end of the request
  (the rule for fewer than ten bytes), reads nothing of the chunk, and answers with the error, where the classic
  function adds the numbers.
\<close>

theorem modern_stops_at_short_segment:
  assumes "int32 a" and "int32 b" and "int32 (a + b)"
    and "plain_header head" and "6 \<le> length head" and "length head \<le> 16000"
    and "\<not> strstr_found (head @ crlf @ crlf) last_chunk"
    and "chunk_size_line s" and "length s < 8"
    and "script w = Ok 0 # Data (head @ crlf @ crlf) # Data (s @ crlf) # Ok k # as"
  shows "classic_main (dec_int a @ [SP] @ dec_int b @ [LF]) = (success_text (a + b), False)
       \<and> log (modern_round w) =
           [EvClose (lowest_free (fds w)), EvWrite (lowest_free (fds w)) (take (nat k) (modern_response (modern_error [])))]
           @ log w"
proof -
  let ?ds = "[head @ crlf @ crlf, s @ crlf]"
  have n0: "0 \<notin> set (s @ crlf)" using assms(8) by (simp add: chunk_size_line_def)
  have "\<not> request_complete (head @ crlf @ crlf) (int (length (head @ crlf @ crlf)))"
    using assms(5,7) by (simp add: request_complete_def)
  moreover have "request_complete ((head @ crlf @ crlf) @ s @ crlf) (int (length (s @ crlf)))"
    using header_end_found [OF assms(4) n0] assms(9) by (simp add: request_complete_def strstr_found_def)
  ultimately have ar: "arrives [] ?ds" using assms(6,9) by (simp add: BUFFER_SIZE_def)
  have seg: "real_data (concat ?ds) = Some []" using real_data_first_chunk [OF assms(4,8), of "[]"] by simp
  have sp: "[SP] \<noteq> []" "\<forall>c \<in> set [SP]. isspace c" by (simp_all add: isspace_def)
  have c: "scan_two (dec_int a @ [SP] @ dec_int b @ [LF]) = Some (a, b)"
    using scan_two_numbers [OF assms(1,2) _ sp, of "[LF]"] isdigit_code by simp
  have line: "fgets 256 (dec_int a @ SP # dec_int b @ [LF]) = Some (dec_int a @ SP # dec_int b @ [LF])"
    using dec_int_no length_dec_int32 [OF assms(1)] length_dec_int32 [OF assms(2)]
    by (simp add: fgets_def takeWhile_append dropWhile_append)
  have "scan_two [] = None" by (simp add: scan_two_def scan_int_nothing cstr_def)
  then have "modern_text [] = modern_error []" by (simp add: modern_text_def)
  then show ?thesis
    using modern_round_served [of w ?ds k as, OF _ ar seg] assms(10) c assms(3)
    by (simp add: classic_main_def line c_int_id add_overflows_def)
qed

theorem modern_stops_at_short_segment_witness:
  "log (modern_round (boot [Ok 0, Data (sum_header @ crlf @ crlf), Data (cs ''4'' @ crlf), Ok 2000] :: bytes world)) =
     [EvClose 0, EvWrite 0 (modern_response (modern_error []))]"
proof -
  have h: "plain_header sum_header" "\<not> strstr_found (sum_header @ crlf @ crlf) last_chunk" "chunk_size_line (cs ''4'')"
    "length sum_header = 43" "length (cs ''4'') = 1"
    by code_simp+
  have l: "length (modern_response (modern_error [])) \<le> 2000" by code_simp
  have i: "int32 30" "int32 4" "int32 (30 + 4)" by (simp_all add: int32_def)
  show ?thesis
    using modern_stops_at_short_segment [OF i h(1) _ _ h(2,3),
        of "boot [Ok 0, Data (sum_header @ crlf @ crlf), Data (cs ''4'' @ crlf), Ok 2000] :: bytes world" 2000 "[]"] h(4,5) take_all [OF l]
    by (simp add: lowest_free_def)
qed

text \<open>
  One number.  The classic function refuses a line with one number.  The modern function looks for the
  second one behind the end of the chunk and finds the zero of the last chunk: it answers with success and with the
  number itself as the sum.
\<close>

theorem modern_adds_last_chunk:
  assumes "int32 a" and "plain_header head" and "chunk_size_line s"
    and "concat ds = chunked_request head s (dec_int a)"
    and "arrives [] ds" and "script w = Ok 0 # map Data ds @ Ok k # as"
  shows "classic_main (dec_int a @ [LF]) = (classic_error, False)
       \<and> log (modern_round w) =
           [EvClose (lowest_free (fds w)), EvWrite (lowest_free (fds w)) (take (nat k) (modern_response (success_text a)))] @ log w"
proof -
  have z: "last_chunk = dec_int 0 @ crlf @ crlf" by code_simp
  have m: "scan_two (dec_int a @ crlf @ last_chunk) = Some (a, 0)"
    using scan_two_numbers [OF assms(1), of 0 "crlf @ crlf" crlf] isdigit_code
    by (simp add: z int32_def isspace_def)
  have c: "scan_two (dec_int a @ [LF]) = None" using scan_two_one_number [OF assms(1), of "[LF]"] by (simp add: isspace_def)
  have seg: "real_data (concat ds) = Some (dec_int a @ crlf @ last_chunk)"
    using real_data_chunked [OF assms(2,3), of "dec_int a"] dec_int_no assms(4) by simp
  have line: "fgets 256 (dec_int a @ [LF]) = Some (dec_int a @ [LF])"
    using dec_int_no length_dec_int32 [OF assms(1)] by (simp add: fgets_def takeWhile_append dropWhile_append)
  show ?thesis
    using modern_round_served [OF assms(6,5) seg] m c assms(1)
    by (simp add: classic_main_def line modern_text_def c_int_id add_overflows_def)
qed

theorem modern_adds_last_chunk_witness:
  "log (modern_round (boot (Ok 0 # map Data [chunked_request sum_header (cs ''2'') (cs ''30'')] @ [Ok 0]) :: bytes world)) =
     [EvClose 0, EvWrite 0 []]"
proof -
  have n: "dec_int 30 = cs ''30''" by code_simp
  have h: "plain_header sum_header" "chunk_size_line (cs ''2'')" by code_simp+
  have i: "int32 30" by (simp add: int32_def)
  show ?thesis
    using modern_adds_last_chunk [OF i h _ sum_request_arrives(2), of "boot (Ok 0 # map Data [chunked_request sum_header (cs ''2'') (cs ''30'')] @ [Ok 0]) :: bytes world" 0 "[]"]
    by (simp add: n lowest_free_def)
qed

lemma length_success_text: "length (success_text (c_int v)) < 512"
  using length_dec_int32 [OF int32_c_int, of v] by (simp add: success_text_def)

lemma length_modern_error: "length (modern_error s) = 83 + length s"
  by (simp add: modern_error_def)

lemma length_modern_response: "length text < 512 \<Longrightarrow> length (modern_response text) < 2048"
  using length_dec_digits [of "length text" 2] by (simp add: modern_response_def)

text \<open>What overruns the arrays of the modern function, or overflows its addition.\<close>

definition overrunning :: "bytes \<Rightarrow> bool" where
  "overrunning segment = (case scan_two segment of None \<Rightarrow> 428 < length segment | Some (a, b) \<Rightarrow> \<not> int32 (a + b))"

lemma ub_modern_answer:
  "ub (modern_answer fd buffer w) \<longleftrightarrow>
     ub w \<or> (case real_data buffer of None \<Rightarrow> False | Some segment \<Rightarrow> overrunning segment)"
proof (cases "real_data buffer")
  case None
  then show ?thesis by (simp add: modern_answer_def)
next
  case (Some segment)
  let ?t = "modern_text segment"
  have "ub (modern_answer fd buffer w) \<longleftrightarrow>
      ub w \<or> add_overflows (scan_two segment) \<or> 512 \<le> length ?t \<or> 2048 \<le> length (modern_response ?t)"
    by (auto simp: modern_answer_def Some Let_def)
  also have "\<dots> \<longleftrightarrow> ub w \<or> add_overflows (scan_two segment) \<or> 512 \<le> length ?t"
    using length_modern_response [of ?t] by (meson linorder_not_le)
  also have "\<dots> \<longleftrightarrow> ub w \<or> overrunning segment"
    using length_success_text
    by (auto simp: overrunning_def add_overflows_def modern_text_def length_modern_error not_le [symmetric] split: option.split)
  finally show ?thesis by (simp add: Some)
qed

text \<open>
  C24. The memory safety of the modern function, exactly: whatever arrives, a round leaves the descriptors as they
  were and closes nothing twice, and it is undefined just when the answered segment has no two numbers and more than
  428 bytes (the error text quotes it into an array of 512 bytes on the stack) or has two numbers whose sum does not fit.
\<close>

theorem modern_round_overruns_exactly:
  "(ub (modern_round w) \<longleftrightarrow>
      ub w \<or> 0 \<le> fst (sys_newfd w) \<and>
        (case real_data (fst (read_request [] (snd (sys_newfd w)))) of None \<Rightarrow> False | Some segment \<Rightarrow> overrunning segment))
 \<and> fds (modern_round w) = fds w \<and> live (modern_round w) = live w
 \<and> bad_closes (log (modern_round w)) = bad_closes (log w)"
proof (cases "fst (sys_newfd w) < 0")
  case True
  then show ?thesis by (simp add: modern_round_def split_beta Let_def)
next
  case False
  define fd where "fd = fst (sys_newfd w)"
  define v where "v = snd (read_request [] (snd (sys_newfd w)))"
  define b where "b = fst (read_request [] (snd (sys_newfd w)))"
  have e: "modern_round w = close fd (modern_answer fd b v)"
    using False by (simp add: modern_round_def split_beta Let_def fd_def v_def b_def)
  have v: "fds v = fd # fds w" "live v = live w" "ub v = ub w" "log v = log w"
    using read_request_frame [of "[]" "snd (sys_newfd w)"] False by (simp_all add: v_def fd_def BUFFER_SIZE_def)
  have a: "fds (modern_answer fd b v) = fds v" "live (modern_answer fd b v) = live v"
    "bad_closes (log (modern_answer fd b v)) = bad_closes (log v)"
    by (simp_all add: modern_answer_def Let_def sys_write_def split_beta split: option.split answer.split)
  show ?thesis using False v a unfolding e fd_def [symmetric] b_def [symmetric] by (simp add: ub_modern_answer)
qed

end
