(* ===== verification/EventSession.thy ===== *)
theory EventSession
  imports FnStart
begin

text \<open>
  \<^verbatim>\<open>benchmarks/micro/micro-bench-max-throughput/proto_worker/bench2_proto_worker.c\<close>: the keep-alive worker as one
  event loop.  It serves any number of migrated connections at a time, each a state machine
  (\<^verbatim>\<open>worker_session_t\<close>) that goes on when epoll reports its descriptor, and receives hand-overs in pieces
  (\<^verbatim>\<open>handoff_conn_t\<close>).  Its header scanners are in \<open>HttpScan\<close>.

  The arrays \<^verbatim>\<open>s_sessions\<close> and \<^verbatim>\<open>s_handoffs\<close> are maps from descriptors to the structures themselves: each structure
  is pointed to by one entry only.  A session exists only with a wolfSSL session (\<^verbatim>\<open>session_new\<close>), so its pointer
  is no \<open>option\<close>.  The registrations of the epoll instance are read off the event log (\<open>watched\<close>).
\<close>

unbundle bit_operations_syntax

subsection \<open>The operands of a request\<close>

text \<open>The arithmetic of the evaluation servers, with \<^verbatim>\<open>strtod\<close> (value and length of what it read) and literals.\<close>

record 'f cdouble_num = "'f cdouble" +
  d_strtod :: "bytes \<Rightarrow> 'f \<times> nat"
  d_nat :: "nat \<Rightarrow> 'f"

text \<open>The return code, and the value stored when it is 1.  The number is copied into an array of 64 bytes.\<close>

function parse_query_double_param :: "'f cdouble_num \<Rightarrow> bytes \<Rightarrow> bytes \<Rightarrow> int \<times> 'f option" where
  "parse_query_double_param F cursor key =
     (if cursor = [] then (0, None)
      else
        (let segment_end = (case memchr cursor 38 (length cursor) of None \<Rightarrow> length cursor | Some i \<Rightarrow> i)
         in if length key + 1 < segment_end \<and> take (length key) cursor = key \<and> cursor ! length key = 61
            then
              (let number = take (segment_end - length key - 1) (drop (length key + 1) cursor)
               in if number = [] \<or> 64 \<le> length number then (-1, None)
                  else
                    (let number_buf = cstr number; (v, used) = d_strtod F number_buf
                     in if used = length number_buf then (1, Some v) else (-1, None)))
            else parse_query_double_param F (drop (Suc segment_end) cursor) key))"
  by pat_completeness auto

termination
  by (relation "measure (\<lambda>(F, cursor, key). length cursor)") auto

declare parse_query_double_param.simps [simp del]

definition parse_request_operands :: "'f cdouble_num \<Rightarrow> bytes \<Rightarrow> nat \<Rightarrow> 'f \<times> 'f" where
  "parse_request_operands F buf len =
     (let operand_a = d_nat F 10; operand_b = d_nat F 20;
          line_end = (case memchr buf LF len of None \<Rightarrow> len | Some i \<Rightarrow> i)
      in case memchr buf SP line_end of
           None \<Rightarrow> (operand_a, operand_b)
         | Some space1 \<Rightarrow>
             (let path = drop (space1 + 1) buf
              in case memchr path SP (line_end - (space1 + 1)) of
                   None \<Rightarrow> (operand_a, operand_b)
                 | Some space2 \<Rightarrow>
                     (case memchr path 63 space2 of
                        None \<Rightarrow> (operand_a, operand_b)
                      | Some query \<Rightarrow>
                          if space2 \<le> query + 1 then (operand_a, operand_b)
                          else
                            (let q = take (space2 - (query + 1)) (drop (query + 1) path);
                                 (_, a) = parse_query_double_param F q (cs ''a'');
                                 (_, b) = parse_query_double_param F q (cs ''b'')
                             in (case a of None \<Rightarrow> operand_a | Some v \<Rightarrow> v,
                                 case b of None \<Rightarrow> operand_b | Some v \<Rightarrow> v)))))"

definition worker_operation_name :: "bytes \<Rightarrow> bytes" where
  "worker_operation_name function_name =
     (if strstr_found function_name (cs ''fn-b'') \<or> strstr_found function_name (cs ''product'')
      then cs ''product'' else cs ''sum'')"

subsection \<open>The state of the worker\<close>

definition BENCH2_KA_MAGIC :: u32 where "BENCH2_KA_MAGIC = 0x42324B41"
definition BENCH2_KA_VERSION :: u32 where "BENCH2_KA_VERSION = 1"
definition BENCH2_KA_TARGET_LEN :: nat where "BENCH2_KA_TARGET_LEN = 128"
definition WORKER_MAX_FDS :: int where "WORKER_MAX_FDS = 65536"
definition WORKER_INITIAL_BUF :: u64 where "WORKER_INITIAL_BUF = 65536"
definition WORKER_MAX_REQ_BYTES :: nat where "WORKER_MAX_REQ_BYTES = 1024 * 1024"

datatype worker_state = WS_PEEK_OWNER | WS_READ_HEADERS | WS_READ_BODY | WS_WRITE_RESPONSE

text \<open>The fields \<^verbatim>\<open>buf\<close>, \<^verbatim>\<open>cap\<close> and \<^verbatim>\<open>len\<close> are one \<open>recv_buffer\<close>; \<open>es_resp\<close> is the first \<^verbatim>\<open>resp_len\<close> bytes of \<^verbatim>\<open>resp\<close>.\<close>

record 'f worker_session =
  es_fd :: int
  es_ssl :: nat
  es_payload :: ka_payload
  es_state :: worker_state
  es_req_no :: u64
  es_direct_read :: bool
  es_buf :: recv_buffer
  es_hdr_sz :: nat
  es_body_in :: nat
  es_body_target :: nat
  es_should_close :: bool
  es_single_owner_hint :: bool
  es_operand_a :: 'f
  es_operand_b :: 'f
  es_resp :: bytes
  es_resp_off :: nat

text \<open>The bytes of the payload received so far.\<close>

record handoff_conn =
  hc_fd :: int
  hc_client_fd :: int
  hc_data :: bytes

record 'f ew_tables =
  s_sessions :: "int \<Rightarrow> 'f worker_session option"
  s_handoffs :: "int \<Rightarrow> handoff_conn option"

record ew_config =
  s_function_name :: bytes
  s_relay_socket :: bytes
  s_response_pad_bytes :: nat

definition no_tables :: "'f ew_tables" where
  "no_tables = \<lparr>s_sessions = (\<lambda>_. None), s_handoffs = (\<lambda>_. None)\<rparr>"

subsection \<open>Epoll\<close>

definition epoll_call :: "event \<Rightarrow> 's world \<Rightarrow> int \<times> 's world" where
  "epoll_call e w = (let (r, w) = sys_status w in if r < 0 then (-1, w) else (0, emit e w))"

definition epoll_add_fd :: "int \<Rightarrow> 's world \<Rightarrow> int \<times> 's world" where
  "epoll_add_fd fd = epoll_call (EvEpollAdd fd)"

text \<open>Waiting for output or for input.\<close>

definition epoll_mod_fd :: "int \<Rightarrow> bool \<Rightarrow> 's world \<Rightarrow> int \<times> 's world" where
  "epoll_mod_fd fd out = epoll_call (EvEpollMod fd out)"

text \<open>
  The registrations: a descriptor is watched from its addition until it is deleted or closed.  (The kernel drops a
  registration with the last descriptor of a file; the code deletes the one of a connection before it passes it on.)
\<close>

fun watched :: "event list \<Rightarrow> int set" where
  "watched [] = {}"
| "watched (EvEpollAdd fd # l) = insert fd (watched l)"
| "watched (EvEpollDel fd # l) = watched l - {fd}"
| "watched (EvClose fd # l) = watched l - {fd}"
| "watched (_ # l) = watched l"

definition wolfssl_want :: "'f worker_session \<Rightarrow> err \<Rightarrow> 's world \<Rightarrow> int \<times> 's world" where
  "wolfssl_want s e w =
     (if e = WANT_READ then epoll_mod_fd (es_fd s) False w
      else if e = WANT_WRITE then epoll_mod_fd (es_fd s) True w
      else (-1, w))"

subsection \<open>Receiving a hand-over in pieces\<close>

lemma recvmsg_eintr:
  "recvmsg n w = ((rcvd, m), w1) \<Longrightarrow> rcvd < 0 \<Longrightarrow> errno w1 = EINTR \<Longrightarrow> slen w1 < slen w"
  by (auto simp: recvmsg_def next_answer_def slen_def set_errno_def split_beta Let_def
      split: answer.splits list.splits)

function recvmsg_retry :: "nat \<Rightarrow> 's world \<Rightarrow> (int \<times> rmsg) \<times> 's world" where
  "recvmsg_retry n w =
     (case recvmsg n w of
        ((rcvd, m), w1) \<Rightarrow>
          if rcvd < 0 \<and> errno w1 = EINTR then recvmsg_retry n w1 else ((rcvd, m), w1))"
  by pat_completeness auto

termination
  by (relation "measure (\<lambda>(n, w). slen w)") (auto dest: recvmsg_eintr [OF sym])

declare recvmsg_retry.simps [simp del]

text \<open>1: complete; 0: more to come; -1: to be dropped.  A second descriptor is closed.\<close>

definition handoff_recv_nb :: "handoff_conn \<Rightarrow> 's world \<Rightarrow> (int \<times> handoff_conn) \<times> 's world" where
  "handoff_recv_nb h w =
     (if hc_fd h < 0 then ((-1, h), w)
      else if SIZEOF_payload \<le> length (hc_data h) then ((if 0 \<le> hc_client_fd h then 1 else -1, h), w)
      else
        (let ((rcvd, m), w) = recvmsg_retry (SIZEOF_payload - length (hc_data h)) w
         in if rcvd < 0 then ((if errno w = EAGAIN then 0 else -1, h), w)
            else if rcvd = 0 \<or> rm_ctrunc m then ((-1, h), w)
            else if (case rm_cmsg m of
                       None \<Rightarrow> False
                     | Some c \<Rightarrow> cmsg_level c \<noteq> SOL_SOCKET \<or> cmsg_type c \<noteq> SCM_RIGHTS \<or> cmsg_len c \<noteq> CMSG_LEN_int)
            then ((-1, h), w)
            else
              (let (h, w) =
                     (if rm_cmsg m = None then (h, w)
                      else if 0 \<le> hc_client_fd h then (h, close (rm_fd m) w)
                      else (h\<lparr>hc_client_fd := rm_fd m\<rparr>, w));
                   h = h\<lparr>hc_data := hc_data h @ rm_data m\<rparr>
               in if length (hc_data h) < SIZEOF_payload then ((0, h), w)
                  else ((if 0 \<le> hc_client_fd h then 1 else -1, h), w))))"

subsection \<open>The owner of the next request\<close>

lemma recv_peek_eintr:
  "recv_peek fd n w = ((r, bs), w1) \<Longrightarrow> r < 0 \<Longrightarrow> errno w1 = EINTR \<Longrightarrow> slen w1 < slen w"
  by (auto simp: recv_peek_def sys_status_def next_answer_def slen_def set_errno_def split_beta Let_def
      split: answer.splits list.splits if_splits)

text \<open>Whether the first record has arrived as a whole: 1, 0 (not yet), -1 (end, error, too long).\<close>

function tls_record_ready :: "int \<Rightarrow> 's world \<Rightarrow> int \<times> 's world" where
  "tls_record_ready fd w =
     (case recv_peek fd TLSPEEK_HEADER_SIZE w of
        ((n, hdr), w1) \<Rightarrow>
          if n < 0 \<and> errno w1 = EINTR then tls_record_ready fd w1
          else if n = 0 then (-1, w1)
          else if n < 0 then (if errno w1 = EAGAIN then 0 else -1, w1)
          else if n < int TLSPEEK_HEADER_SIZE then (0, w1)
          else
            (let record_len = unat (be16 (hdr ! 3) (hdr ! 4))
             in if TLSPEEK_MAX_RECORD + TLSPEEK_TAG_SIZE < record_len then (-1, w1)
                else
                  (let ((r, avail), w) = ioctl_fionread fd w1
                   in if r \<noteq> 0 then (0, w)
                      else (if TLSPEEK_HEADER_SIZE + record_len \<le> avail then 1 else 0, w))))"
  by pat_completeness auto

termination
  by (relation "measure (\<lambda>(fd, w). slen w)") (auto dest: recv_peek_eintr [OF sym])

declare tls_record_ready.simps [simp del]

text \<open>
  The window grows from 1024 to 8192 bytes until the request line is in it.  The buffer has 8193 bytes.
\<close>

function peek_owner_window ::
  "crypto \<Rightarrow> int \<Rightarrow> tlspeek_serial \<Rightarrow> nat \<Rightarrow> nat \<Rightarrow> 's world \<Rightarrow> (int \<times> bytes) \<times> 's world" where
  "peek_owner_window C client_fd serial owner_out_sz want w =
     (if want = 0 then ((-1, []), w)
      else
        (case tlspeek_restore_peek_ctx client_fd (Some serial) of
           (r, None) \<Rightarrow> ((-1, []), w)
         | (r, Some peek_ctx) \<Rightarrow>
             if r \<noteq> 0 then ((-1, []), w)
             else
               (let ((peeked, peek_buf), w) = tls_read_peek C peek_ctx want w
                in if peeked \<le> 0 then ((-1, []), w)
                   else
                     (let w = flag_ub (8193 \<le> peeked) w
                      in case b2_parse_request_owner peek_buf owner_out_sz of
                           Some owner \<Rightarrow> ((0, owner), w)
                         | None \<Rightarrow>
                             if 8192 \<le> want then ((-1, []), w)
                             else peek_owner_window C client_fd serial owner_out_sz (min (want * 2) 8192) w))))"
  by pat_completeness auto

termination
  by (relation "measure (\<lambda>(C, client_fd, serial, owner_out_sz, want, w). 8192 - want)") auto

declare peek_owner_window.simps [simp del]

definition b2_peek_owner_from_kernel ::
  "crypto \<Rightarrow> int \<Rightarrow> tlspeek_serial \<Rightarrow> nat \<Rightarrow> 's world \<Rightarrow> (int \<times> bytes) \<times> 's world" where
  "b2_peek_owner_from_kernel C client_fd serial owner_out_sz w =
     peek_owner_window C client_fd serial owner_out_sz 1024 w"

subsection \<open>Refreshing the serialised session\<close>

definition set_serial_cipher_from_name :: "bytes option \<Rightarrow> tlspeek_serial \<Rightarrow> tlspeek_serial" where
  "set_serial_cipher_from_name name serial =
     (case name of
        None \<Rightarrow> serial\<lparr>ser_cipher_suite := TLSPEEK_AES_256_GCM\<rparr>
      | Some n \<Rightarrow>
          if strstr_found n (cs ''CHACHA20'') then serial\<lparr>ser_cipher_suite := TLSPEEK_CHACHA20_POLY\<rparr>
          else if strstr_found n (cs ''AES-128'') then serial\<lparr>ser_cipher_suite := TLSPEEK_AES_128_GCM\<rparr>
          else serial\<lparr>ser_cipher_suite := TLSPEEK_AES_256_GCM\<rparr>)"

text \<open>An export that fails leaves the blob empty and is no error: the session can still be peeked.\<close>

definition b2_export_live_serial ::
  "'s wolfssl \<Rightarrow> nat \<Rightarrow> tlspeek_serial \<Rightarrow> 's world \<Rightarrow> (int \<times> tlspeek_serial) \<times> 's world" where
  "b2_export_live_serial L p serial w =
     (let serial = serial\<lparr>ser_magic := TLSPEEK_MAGIC\<rparr>;
          (name, w) = ssl_query (ws_cipher_name L) None p w;
          serial = set_serial_cipher_from_name name serial;
          ((rc, blob), w) = wolfSSL_tls_export L p w;
          serial = (if 0 < rc then put_blob blob serial else serial\<lparr>ser_blob_sz := 0\<rparr>);
          (key, w) = ssl_query (ws_client_key L) None p w;
          (iv, w) = ssl_query (ws_client_iv L) None p w;
          (key_sz, w) = ssl_query (ws_key_size L) 0 p w;
          (iv_sz, w) = ssl_query (ws_iv_size L) 0 p w
      in case (key, iv) of
           (Some key, Some iv) \<Rightarrow>
             if key_sz \<le> 0 \<or> iv_sz \<le> 0 then ((-1, serial), w)
             else
               (let ks = (if key_sz < 32 then nat key_sz else 32);
                    is = (if iv_sz < 12 then nat iv_sz else 12);
                    serial = serial\<lparr>ser_client_write_key := overwrite (ser_client_write_key serial) (take ks key),
                                    ser_client_write_iv := overwrite (ser_client_write_iv serial) (take is iv)\<rparr>;
                    ((rc, peer_seq), w) = ssl_query (ws_peer_seq L) (-1, 0) p w
                in if rc < 0 then ((-1, serial), w)
                   else ((0, serial\<lparr>ser_read_seq_num := peer_seq\<rparr>), w))
         | _ \<Rightarrow> ((-1, serial), w))"

text \<open>\<^verbatim>\<open>relay_to_gateway\<close> has the text of the other keep-alive worker.\<close>

definition b2_relay_to_gateway :: "int \<Rightarrow> ka_payload \<Rightarrow> bytes \<Rightarrow> 's world \<Rightarrow> int \<times> 's world" where
  "b2_relay_to_gateway client_fd payload relay_socket w = ka_relay_to_gateway relay_socket payload client_fd w"

subsection \<open>A session\<close>

definition session_reset_request ::
  "'f cdouble_num \<Rightarrow> 'f worker_session \<Rightarrow> worker_state \<Rightarrow> 'f worker_session" where
  "session_reset_request F s next_state =
     s\<lparr>es_state := next_state, es_buf := (es_buf s)\<lparr>rb_data := []\<rparr>, es_hdr_sz := 0, es_body_in := 0,
       es_body_target := 0, es_should_close := False, es_single_owner_hint := False,
       es_operand_a := d_nat F 10, es_operand_b := d_nat F 20, es_resp := [], es_resp_off := 0\<rparr>"

definition session_close :: "'f worker_session \<Rightarrow> 'f ew_tables \<Rightarrow> 's world \<Rightarrow> 'f ew_tables \<times> 's world" where
  "session_close s t w =
     (let fd = es_fd s;
          (t, w) = (if 0 \<le> fd \<and> fd < WORKER_MAX_FDS
                    then (t\<lparr>s_sessions := (s_sessions t)(fd := None)\<rparr>, epoll_del fd w) else (t, w));
          w = wolfSSL_free (es_ssl s) w
      in (t, close_if_open fd w))"

text \<open>The session as it is filled in, and its entry in the table when nothing failed.\<close>

definition fresh_session :: "'f cdouble_num \<Rightarrow> int \<Rightarrow> nat \<Rightarrow> ka_payload \<Rightarrow> 'f worker_session" where
  "fresh_session F client_fd p payload =
     session_reset_request F
       \<lparr>es_fd = client_fd, es_ssl = p, es_payload = payload, es_state = WS_PEEK_OWNER, es_req_no = 1,
        es_direct_read = False, es_buf = \<lparr>rb_data = [], rb_cap = WORKER_INITIAL_BUF\<rparr>, es_hdr_sz = 0, es_body_in = 0,
        es_body_target = 0, es_should_close = False, es_single_owner_hint = False, es_operand_a = d_nat F 0,
        es_operand_b = d_nat F 0, es_resp = [], es_resp_off = 0\<rparr> WS_READ_HEADERS"

definition session_new ::
  "'s wolfssl \<Rightarrow> 'f cdouble_num \<Rightarrow> int \<Rightarrow> ka_payload \<Rightarrow> 'f ew_tables \<Rightarrow> 's world
     \<Rightarrow> 'f worker_session option \<times> 'f ew_tables \<times> 's world" where
  "session_new L F client_fd payload t w =
     (if client_fd < 0 \<or> WORKER_MAX_FDS \<le> client_fd then (None, t, close client_fd w)
      else
        (let (r, w) = unix_set_nonblocking client_fd w
         in if r \<noteq> 0 then (None, t, close client_fd w)
            else
              (let (ok, w) = sys_alloc w
               in if \<not> ok then (None, t, close client_fd w)
                  else
                    (let (ssl, w) = wolfSSL_new L w
                     in case ssl of
                          None \<Rightarrow> (None, t, close client_fd w)
                        | Some p \<Rightarrow>
                            (let w = wolfSSL_set_fd L p client_fd w;
                                 s = fresh_session F client_fd p payload;
                                 (r, w) = tlspeek_restore L p (pl_serial payload) w
                             in if r \<noteq> 0 then (None, session_close s t w)
                                else
                                  (let w = wolfSSL_set_fd L p client_fd w;
                                       (ok, w) = sys_alloc w
                                   in if \<not> ok then (None, session_close s t w)
                                      else (Some s, t\<lparr>s_sessions := (s_sessions t)(client_fd \<mapsto> s)\<rparr>, w)))))))"

subsection \<open>Reading a request\<close>

definition b2_ensure_capacity :: "recv_buffer \<Rightarrow> u64 \<Rightarrow> 's world \<Rightarrow> (int \<times> recv_buffer) \<times> 's world" where
  "b2_ensure_capacity buf needed w =
     (if needed \<le> rb_cap buf then ((0, buf), w)
      else
        (case grow_cap (if rb_cap buf \<noteq> 0 then rb_cap buf else WORKER_INITIAL_BUF) needed of
           None \<Rightarrow> ((-1, buf), flag_ub True w) \<comment> \<open>excluded by \<open>grow_cap_spec\<close>\<close>
         | Some None \<Rightarrow> ((-1, buf), w)
         | Some (Some new_cap) \<Rightarrow>
             (let (ok, w) = sys_alloc w
              in if \<not> ok then ((-1, buf), w) else ((0, buf\<lparr>rb_cap := new_cap\<rparr>), w))))"

text \<open>At most 8192 bytes, and the terminator behind them.\<close>

definition session_tls_read_buffer ::
  "'s wolfssl \<Rightarrow> 'f worker_session \<Rightarrow> 's world \<Rightarrow> (int \<times> 'f worker_session) \<times> 's world" where
  "session_tls_read_buffer L s w =
     (let len = length (rb_data (es_buf s))
      in if WORKER_MAX_REQ_BYTES \<le> len then ((-1, s), w)
         else
           (let ((r, buf), w) = b2_ensure_capacity (es_buf s) (of_nat len + 8192 + 1) w;
                s = s\<lparr>es_buf := buf\<rparr>
            in if r \<noteq> 0 then ((-1, s), w)
               else
                 (let room = min 8192 (unat (rb_cap buf - of_nat len - 1));
                      ((n, bs, e), w) = wolfSSL_read L (es_ssl s) room w
                  in if 0 < n
                     then ((1, s\<lparr>es_buf := buf\<lparr>rb_data := rb_data buf @ bs\<rparr>\<rparr>),
                           flag_ub (unat (rb_cap buf) \<le> len + length bs) w)
                     else (let (r, w) = wolfssl_want s e w in ((r, s), w)))))"

function session_tls_drain_body ::
  "'s wolfssl \<Rightarrow> 'f worker_session \<Rightarrow> 's world \<Rightarrow> (int \<times> 'f worker_session) \<times> 's world" where
  "session_tls_drain_body L s w =
     (if es_body_target s \<le> es_body_in s then ((1, s), w)
      else
        (case wolfSSL_read L (es_ssl s) (min (es_body_target s - es_body_in s) 8192) w of
           ((n, bs, e), w1) \<Rightarrow>
             if 0 < n then session_tls_drain_body L (s\<lparr>es_body_in := es_body_in s + nat n\<rparr>) w1
             else (let (r, w) = wolfssl_want s e w1 in ((r, s), w))))"
  by pat_completeness auto

termination
  by (relation "measure (\<lambda>(L, s, w). slen w)") (auto dest: read_consumes)

declare session_tls_drain_body.simps [simp del]

text \<open>The header is complete (1), is not (0), or announces too long a body (-1).\<close>

definition session_parse_headers :: "'f cdouble_num \<Rightarrow> 'f worker_session \<Rightarrow> int \<times> 'f worker_session" where
  "session_parse_headers F s =
     (let buf = rb_data (es_buf s);
          hdr_end = find_subseq buf (crlf @ crlf);
          sep_len = (4 :: int);
          (hdr_end, sep_len) = (if hdr_end < 0 then (find_subseq buf [LF, LF], 2) else (hdr_end, sep_len))
      in if hdr_end < 0 then (0, s)
         else
           (let hdr_sz = nat (hdr_end + sep_len);
                s = s\<lparr>es_hdr_sz := hdr_sz\<rparr>;
                cl = b2_parse_content_length buf hdr_sz;
                cl = (if cl < 0 then 0 else cl)
            in if int WORKER_MAX_REQ_BYTES < cl then (-1, s)
               else
                 (let body_in = length buf - hdr_sz;
                      (a, b) = parse_request_operands F buf hdr_sz
                  in (1, s\<lparr>es_body_target := nat cl, es_body_in := min body_in (nat cl),
                          es_should_close := b2_has_connection_close buf hdr_sz,
                          es_single_owner_hint := b2_has_single_owner_hint buf hdr_sz,
                          es_operand_a := a, es_operand_b := b, es_state := WS_READ_BODY\<rparr>))))"

subsection \<open>The answer\<close>

definition b2_json :: "'f cdouble_num \<Rightarrow> bytes \<Rightarrow> u64 \<Rightarrow> 'f \<Rightarrow> 'f \<Rightarrow> bytes" where
  "b2_json F function_name req_no a b =
     (let operation = worker_operation_name function_name;
          result = (if operation = cs ''product'' then d_mul F a b else d_add F a b)
      in cs ''{\"worker\":\"'' @ cstr function_name @ cs ''\",\"request_no\":'' @ dec_u64 req_no
         @ cs '',\"path\":\"prototype\"'' @ cs '',\"operation\":\"'' @ operation @ cs ''\"''
         @ cs '',\"a\":'' @ d_fmt2 F a @ cs '',\"b\":'' @ d_fmt2 F b @ cs '',\"result\":'' @ d_fmt2 F result
         @ cs ''}'' @ [LF])"

text \<open>The padding ends with the four characters backslash, r, backslash, n: the source escapes the backslashes.\<close>

definition b2_pad_header :: "nat \<Rightarrow> bytes" where
  "b2_pad_header pad_bytes =
     (if 16 \<le> pad_bytes
      then cs ''X-Bench2-Pad: '' @ replicate (min (pad_bytes - 16) 400) 120 @ [92, 114, 92, 110] else [])"

definition b2_response :: "nat \<Rightarrow> bool \<Rightarrow> bytes \<Rightarrow> bytes" where
  "b2_response pad_bytes closing json =
     cs ''HTTP/1.1 200 OK'' @ crlf @ cs ''Content-Type: application/json'' @ crlf
     @ cs ''Content-Length: '' @ dec_digits (length json) @ crlf
     @ b2_pad_header pad_bytes
     @ cs ''Connection: '' @ (if closing then cs ''close'' else cs ''keep-alive'') @ crlf
     @ crlf @ json"

text \<open>The arrays \<^verbatim>\<open>json\<close>, \<^verbatim>\<open>pad_header\<close> and \<^verbatim>\<open>resp\<close> have 512, 512 and 768 bytes.\<close>

definition session_build_response ::
  "'f cdouble_num \<Rightarrow> ew_config \<Rightarrow> 'f worker_session \<Rightarrow> 's world \<Rightarrow> (int \<times> 'f worker_session) \<times> 's world" where
  "session_build_response F cfg s w =
     (let json = b2_json F (s_function_name cfg) (es_req_no s) (es_operand_a s) (es_operand_b s)
      in if 512 \<le> length json then ((-1, s), w)
         else if 512 \<le> length (b2_pad_header (s_response_pad_bytes cfg)) then ((-1, s), w)
         else
           (let resp = b2_response (s_response_pad_bytes cfg) (es_should_close s) json
            in if 768 \<le> length resp then ((-1, s), w)
               else
                 (let s = s\<lparr>es_resp := resp, es_resp_off := 0, es_state := WS_WRITE_RESPONSE\<rparr>;
                      (r, w) = epoll_mod_fd (es_fd s) True w
                  in ((r, s), w))))"

text \<open>The loop of \<^verbatim>\<open>session_flush_response\<close>: \<open>None\<close> when everything is written, else the return code.\<close>

function session_write_loop ::
  "'s wolfssl \<Rightarrow> 'f worker_session \<Rightarrow> 's world \<Rightarrow> (int option \<times> 'f worker_session) \<times> 's world" where
  "session_write_loop L s w =
     (if length (es_resp s) \<le> es_resp_off s then ((None, s), w)
      else
        (case wolfSSL_write L (es_ssl s) (drop (es_resp_off s) (es_resp s)) w of
           ((n, e), w1) \<Rightarrow>
             if 0 < n then session_write_loop L (s\<lparr>es_resp_off := es_resp_off s + nat n\<rparr>) w1
             else (let (r, w) = wolfssl_want s e w1 in ((Some r, s), w))))"
  by pat_completeness auto

termination
  by (relation "measure (\<lambda>(L, s, w). slen w)") (auto dest: write_consumes)

declare session_write_loop.simps [simp del]

definition session_flush_response ::
  "'s wolfssl \<Rightarrow> 'f cdouble_num \<Rightarrow> 'f worker_session \<Rightarrow> 's world \<Rightarrow> (int \<times> 'f worker_session) \<times> 's world" where
  "session_flush_response L F s w =
     (let ((r, s), w) = session_write_loop L s w
      in case r of
           Some rc \<Rightarrow> ((rc, s), w)
         | None \<Rightarrow>
             if es_should_close s then ((-1, s), w)
             else
               (let ((r, serial), w) = b2_export_live_serial L (es_ssl s) (pl_serial (es_payload s)) w;
                    s = s\<lparr>es_payload := (es_payload s)\<lparr>pl_serial := serial\<rparr>\<rparr>
                in if r \<noteq> 0 then ((-1, s), w)
                   else
                     (let s = s\<lparr>es_direct_read := es_single_owner_hint s, es_req_no := es_req_no s + 1\<rparr>;
                          s = session_reset_request F s (if es_direct_read s then WS_READ_HEADERS else WS_PEEK_OWNER);
                          (r, w) = epoll_mod_fd (es_fd s) False w
                      in if r \<noteq> 0 then ((-1, s), w)
                         else if es_direct_read s
                         then (let (pending, w) = ssl_query (ws_pending L) 0 (es_ssl s) w
                               in ((if 0 < pending then 1 else 0, s), w))
                         else ((0, s), w))))"

subsection \<open>Going on with a session\<close>

text \<open>The session is closed without its descriptor, which is relayed.\<close>

definition session_relay ::
  "'s wolfssl \<Rightarrow> ew_config \<Rightarrow> 'f worker_session \<Rightarrow> bytes \<Rightarrow> 'f ew_tables \<Rightarrow> 's world
     \<Rightarrow> int \<times> 'f ew_tables \<times> 's world" where
  "session_relay L cfg s owner t w =
     (let relay_payload = zero_payload\<lparr>pl_magic := BENCH2_KA_MAGIC, pl_version := BENCH2_KA_VERSION,
                                       pl_serial := pl_serial (es_payload s),
                                       pl_target_function := put_cstr 128 (take 127 (cstr owner))\<rparr>;
          fd_to_relay = es_fd s;
          (t, w) = (if 0 \<le> fd_to_relay \<and> fd_to_relay < WORKER_MAX_FDS
                    then (t\<lparr>s_sessions := (s_sessions t)(fd_to_relay := None)\<rparr>, epoll_del fd_to_relay w) else (t, w));
          s = s\<lparr>es_fd := -1\<rparr>;
          w = wolfSSL_set_fd L (es_ssl s) (-1) w;
          (t, w) = session_close s t w;
          (r, w) = b2_relay_to_gateway fd_to_relay relay_payload (s_relay_socket cfg) w
      in (r, t, w))"

text \<open>
  1: the next request is for this worker; 2: the connection was relayed and the session is gone; 0 or -1: as for
  \<^verbatim>\<open>tls_record_ready\<close>.
\<close>

definition session_peek_owner ::
  "'s wolfssl \<Rightarrow> crypto \<Rightarrow> 'f cdouble_num \<Rightarrow> ew_config \<Rightarrow> 'f worker_session \<Rightarrow> 'f ew_tables \<Rightarrow> 's world
     \<Rightarrow> (int \<times> 'f worker_session) \<times> 'f ew_tables \<times> 's world" where
  "session_peek_owner L C F cfg s t w =
     (let (ready, w) = tls_record_ready (es_fd s) w
      in if ready \<le> 0 then ((ready, s), t, w)
         else
           (let ((r, owner), w) =
                  b2_peek_owner_from_kernel C (es_fd s) (pl_serial (es_payload s)) BENCH2_KA_TARGET_LEN w
            in if r \<noteq> 0 then ((-1, s), t, w)
               else if cstr owner \<noteq> cstr (s_function_name cfg)
               then (let (_, t, w) = session_relay L cfg s owner t w in ((2, s), t, w))
               else ((1, session_reset_request F s WS_READ_HEADERS), t, w)))"

text \<open>What a step consumes when the machine goes on.\<close>

lemma slen_epoll_call: "slen (snd (epoll_call e w)) \<le> slen w"
  using slen_sys_status [of w] by (simp add: epoll_call_def split_beta)

lemma slen_wolfssl_want: "slen (snd (wolfssl_want s e w)) \<le> slen w"
  using slen_epoll_call by (auto simp: wolfssl_want_def epoll_mod_fd_def)

lemma epoll_call_result: "fst (epoll_call e w) = 0 \<or> fst (epoll_call e w) = -1"
  by (simp add: epoll_call_def split_beta)

lemma wolfssl_want_result: "fst (wolfssl_want s e w) = 0 \<or> fst (wolfssl_want s e w) = -1"
  using epoll_call_result by (auto simp: wolfssl_want_def epoll_mod_fd_def)

lemma recv_peek_got: "recv_peek fd n w = ((r, bs), w1) \<Longrightarrow> 0 < r \<Longrightarrow> slen w1 < slen w"
  by (auto simp: recv_peek_def sys_status_def next_answer_def slen_def split_beta Let_def
      split: answer.splits list.splits if_splits)

lemma slen_ioctl_fionread: "slen (snd (ioctl_fionread fd w)) \<le> slen w"
  using slen_sys_status [of w] by (simp add: ioctl_fionread_def split_beta)

lemma tls_record_ready_slen:
  "tls_record_ready fd w = (r, w') \<Longrightarrow> slen w' \<le> slen w \<and> (0 < r \<longrightarrow> slen w' < slen w) \<and> r \<in> {-1, 0, 1}"
proof (induction fd w rule: tls_record_ready.induct)
  case (1 fd w)
  obtain n hdr w1 where p: "recv_peek fd TLSPEEK_HEADER_SIZE w = ((n, hdr), w1)" by (metis prod.exhaust)
  have le: "slen w1 \<le> slen w" using slen_recv_peek [of fd TLSPEEK_HEADER_SIZE w] by (simp add: p)
  have le2: "slen (snd (ioctl_fionread fd w1)) \<le> slen w1" by (rule slen_ioctl_fionread)
  show ?case
  proof (cases "n < 0 \<and> errno w1 = EINTR")
    case True
    then have "tls_record_ready fd w1 = (r, w')"
      using "1.prems" by (simp add: p tls_record_ready.simps [of fd w])
    with "1.IH" [OF p [symmetric] refl True this] le show ?thesis by auto
  next
    case False
    have "tls_record_ready fd w =
        (if n \<le> 0 then (if n = 0 then -1 else if errno w1 = EAGAIN then 0 else -1, w1)
         else if n < int TLSPEEK_HEADER_SIZE then (0, w1)
         else if TLSPEEK_MAX_RECORD + TLSPEEK_TAG_SIZE < unat (be16 (hdr ! 3) (hdr ! 4)) then (-1, w1)
         else (if fst (fst (ioctl_fionread fd w1)) \<noteq> 0 then 0
               else if TLSPEEK_HEADER_SIZE + unat (be16 (hdr ! 3) (hdr ! 4)) \<le> snd (fst (ioctl_fionread fd w1)) then 1
               else 0, snd (ioctl_fionread fd w1)))"
      using False by (auto simp: p tls_record_ready.simps [of fd w] Let_def split_beta)
    with "1.prems" le le2 recv_peek_got [OF p] show ?thesis
      by (auto split: if_splits)
  qed
qed

text \<open>One round of the growing window; what it keeps.\<close>

lemma peek_owner_window_eq:
  "peek_owner_window C fd serial sz want w =
     (if want = 0 \<or> ser_magic serial \<noteq> TLSPEEK_MAGIC \<or> fd < 0 then ((-1, []), w)
      else
        (let ((n, b), w1) = tls_read_peek C (serial_ctx fd serial) want w
         in if n \<le> 0 then ((-1, []), w1)
            else (case b2_parse_request_owner b sz of
                    Some owner \<Rightarrow> ((0, owner), flag_ub (8193 \<le> n) w1)
                  | None \<Rightarrow>
                      if 8192 \<le> want then ((-1, []), flag_ub (8193 \<le> n) w1)
                      else peek_owner_window C fd serial sz (min (want * 2) 8192) (flag_ub (8193 \<le> n) w1))))"
  by (subst peek_owner_window.simps) (simp add: restore_peek_ctx_eq split_beta Let_def)

lemma peek_owner_window_same:
  "want \<le> 8192 \<Longrightarrow> peek_owner_window C fd serial sz want w = (r, w') \<Longrightarrow>
     fds w' = fds w \<and> rxq w' = rxq w \<and> live w' = live w \<and> next_ssl w' = next_ssl w \<and> log w' = log w
   \<and> ub w' = ub w \<and> slen w' \<le> slen w"
proof (induction "8192 - want" arbitrary: want w rule: less_induct)
  case less
  obtain n b w1 where pk: "tls_read_peek C (serial_ctx fd serial) want w = ((n, b), w1)" by (metis prod.exhaust)
  have "n \<le> int want" using peek_len_bound [of C "serial_ctx fd serial" want w] by (simp add: pk)
  then have u: "flag_ub (8193 \<le> n) w1 = w1" using less.prems(1) by (simp add: flag_ub_def)
  have w1: "fds w1 = fds w" "rxq w1 = rxq w" "live w1 = live w" "next_ssl w1 = next_ssl w" "log w1 = log w" "ub w1 = ub w"
    using tls_read_peek_frame [of C "serial_ctx fd serial" want w] by (simp_all add: pk)
  have sl: "slen w1 \<le> slen w" using slen_tls_read_peek [of C "serial_ctx fd serial" want w] by (simp add: pk)
  consider "w' = w" | "w' = w1" | "want \<noteq> 0" "want < 8192" "peek_owner_window C fd serial sz (min (want * 2) 8192) w1 = (r, w')"
    using less.prems(2) by (auto simp: peek_owner_window_eq [of C fd serial sz want w] pk u split: if_splits option.splits)
  then show ?case
  proof cases
    case 3
    have "8192 - min (want * 2) 8192 < 8192 - want" using 3(1,2) by linarith
    from less.hyps [OF this _ 3(3)] w1 sl show ?thesis by simp
  qed (use w1 sl in simp_all)
qed

lemma slen_peek_owner_window: "want \<le> 8192 \<Longrightarrow> slen (snd (peek_owner_window C fd serial sz want w)) \<le> slen w"
  using peek_owner_window_same [of want C fd serial sz w "fst (peek_owner_window C fd serial sz want w)"] by simp

lemma slen_b2_export: "slen (snd (b2_export_live_serial L p s w)) = slen w"
  by (simp add: b2_export_live_serial_def Let_def split_beta split: option.split)

lemma slen_session_write_loop: "slen (snd (session_write_loop L s w)) \<le> slen w"
proof (induction L s w rule: session_write_loop.induct)
  case (1 L s w)
  obtain n e w1 where wr: "wolfSSL_write L (es_ssl s) (drop (es_resp_off s) (es_resp s)) w = ((n, e), w1)"
    by (metis prod.exhaust)
  have le: "slen w1 \<le> slen w"
    using slen_wolfSSL_write [of L "es_ssl s" "drop (es_resp_off s) (es_resp s)" w] by (simp add: wr)
  have "slen (snd (wolfssl_want s e w1)) \<le> slen w1" by (rule slen_wolfssl_want)
  with le "1.IH" [OF _ wr [symmetric] refl] show ?case
    by (subst session_write_loop.simps) (auto simp: wr split_beta)
qed

lemma epoll_call_ok: "fst (epoll_call e w) = 0 \<Longrightarrow> slen (snd (epoll_call e w)) < slen w"
  by (auto simp: epoll_call_def sys_status_def next_answer_def slen_def emit_def split_beta Let_def
      split: answer.splits list.splits if_splits)

lemma session_write_loop_rc: "session_write_loop L s w = ((Some r, s'), w') \<Longrightarrow> r = 0 \<or> r = -1"
proof (induction L s w rule: session_write_loop.induct)
  case (1 L s w)
  obtain n e w1 where wr: "wolfSSL_write L (es_ssl s) (drop (es_resp_off s) (es_resp s)) w = ((n, e), w1)"
    by (metis prod.exhaust)
  show ?case
    using "1.IH" [OF _ wr [symmetric] refl] "1.prems" wolfssl_want_result [of s e w1]
    by (auto simp: session_write_loop.simps [of L s w] wr split_beta split: if_splits)
qed

lemma session_flush_goes_on:
  assumes "session_flush_response L F s w = ((r, s'), w')"
  shows "0 < r \<Longrightarrow> slen w' < slen w" and "r \<in> {-1, 0, 1}"
proof -
  obtain q s1 w1 where wl: "session_write_loop L s w = ((q, s1), w1)" by (metis prod.exhaust)
  have le: "slen w1 \<le> slen w" using slen_session_write_loop [of L s w] by (simp add: wl)
  have rq: "q = Some x \<Longrightarrow> x = 0 \<or> x = -1" for x using session_write_loop_rc wl by blast
  obtain r2 se w2 where ex: "b2_export_live_serial L (es_ssl s1) (pl_serial (es_payload s1)) w1 = ((r2, se), w2)"
    by (metis prod.exhaust)
  have e2: "slen w2 = slen w1" using slen_b2_export [of L "es_ssl s1" "pl_serial (es_payload s1)" w1] by (simp add: ex)
  let ?m = "epoll_mod_fd (es_fd s1) False w2"
  have m: "fst ?m = 0 \<or> fst ?m = -1" "fst ?m = 0 \<Longrightarrow> slen (snd ?m) < slen w2"
    using epoll_call_result epoll_call_ok by (auto simp: epoll_mod_fd_def)
  show "0 < r \<Longrightarrow> slen w' < slen w" "r \<in> {-1, 0, 1}"
    using assms rq m le e2
    by (auto simp: session_flush_response_def wl ex split_beta Let_def session_reset_request_def
        split: option.splits if_splits)
qed

lemma slen_b2_ensure_capacity: "slen (snd (b2_ensure_capacity buf needed w)) \<le> slen w"
  using slen_sys_alloc [of w] by (auto simp: b2_ensure_capacity_def Let_def split_beta split: option.split)

lemma session_read_goes_on:
  assumes "session_tls_read_buffer L s w = ((r, s'), w')"
  shows "0 < r \<Longrightarrow> slen w' < slen w" and "slen w' \<le> slen w" and "r \<in> {-1, 0, 1}"
proof -
  let ?len = "length (rb_data (es_buf s))"
  obtain q b w1 where en: "b2_ensure_capacity (es_buf s) (of_nat ?len + 8192 + 1) w = ((q, b), w1)" by (metis prod.exhaust)
  have l1: "slen w1 \<le> slen w"
    using slen_b2_ensure_capacity [of "es_buf s" "of_nat ?len + 8192 + 1" w] by (simp only: en snd_conv)
  obtain n bs e w2 where rd: "wolfSSL_read L (es_ssl s) (min 8192 (unat (rb_cap b - of_nat ?len - 1))) w1 = ((n, bs, e), w2)"
    by (metis prod.exhaust)
  have l2: "slen w2 \<le> slen w1" "0 < n \<Longrightarrow> slen w2 < slen w1"
    using slen_wolfSSL_read [of L "es_ssl s" "min 8192 (unat (rb_cap b - of_nat ?len - 1))" w1] wolfSSL_read_progress [OF rd]
    by (simp_all add: rd)
  let ?W = "wolfssl_want (s\<lparr>es_buf := b\<rparr>) e w2"
  have l3: "slen (snd ?W) \<le> slen w2" "fst ?W = 0 \<or> fst ?W = -1" by (rule slen_wolfssl_want, rule wolfssl_want_result)
  have "((r, s'), w') =
     (if WORKER_MAX_REQ_BYTES \<le> ?len then ((-1, s), w)
      else if q \<noteq> 0 then ((-1, s\<lparr>es_buf := b\<rparr>), w1)
      else if 0 < n then ((1, s\<lparr>es_buf := b\<lparr>rb_data := rb_data b @ bs\<rparr>\<rparr>), flag_ub (unat (rb_cap b) \<le> ?len + length bs) w2)
      else ((fst ?W, s\<lparr>es_buf := b\<rparr>), snd ?W))"
    unfolding assms [symmetric] session_tls_read_buffer_def Let_def en by (simp add: rd split_beta)
  with l1 l2 l3 show "0 < r \<Longrightarrow> slen w' < slen w" "slen w' \<le> slen w" "r \<in> {-1, 0, 1}"
    by (auto split: if_splits)
qed

lemma session_peek_goes_on:
  assumes "session_peek_owner L C F cfg s t w = ((r, s'), t', w')"
  shows "r = 1 \<Longrightarrow> slen w' < slen w" and "r \<in> {-1, 0, 1, 2}"
proof -
  obtain q w1 where rdy: "tls_record_ready (es_fd s) w = (q, w1)" by fastforce
  note a = tls_record_ready_slen [OF rdy]
  obtain r2 ow w2 where pk: "b2_peek_owner_from_kernel C (es_fd s) (pl_serial (es_payload s)) BENCH2_KA_TARGET_LEN w1 = ((r2, ow), w2)"
    by (metis prod.exhaust)
  have "slen w2 \<le> slen w1"
    using slen_peek_owner_window [of 1024 C "es_fd s" "pl_serial (es_payload s)" BENCH2_KA_TARGET_LEN w1] pk
    by (simp add: b2_peek_owner_from_kernel_def)
  with assms a show "r = 1 \<Longrightarrow> slen w' < slen w" "r \<in> {-1, 0, 1, 2}"
    by (auto simp: session_peek_owner_def rdy pk split_beta Let_def split: if_splits)
qed

lemma advance_consumes:
  "((rc, s1), t1, w1) = session_peek_owner L C F cfg s t w \<Longrightarrow> rc \<noteq> 2 \<Longrightarrow> \<not> rc \<le> 0 \<Longrightarrow> slen w1 < slen w"
  "((rc, s1), w1) = session_tls_read_buffer L s w \<Longrightarrow> \<not> rc \<le> 0 \<Longrightarrow> slen w1 < slen w"
  "((rc, s1), w1) = session_flush_response L F s w \<Longrightarrow> \<not> rc \<le> 0 \<Longrightarrow> slen w1 < slen w"
  using session_peek_goes_on [of L C F cfg s t w rc s1 t1 w1] session_read_goes_on(1) [of L s w rc s1 w1]
    session_flush_goes_on(1) [of L F s w rc s1 w1]
  by auto

text \<open>
  \<^verbatim>\<open>session_advance\<close>: the machine runs until it has to wait (0), is done or fails (-1).  The session is \<open>None\<close> when it
  was relayed and freed.
\<close>

function session_advance ::
  "'s wolfssl \<Rightarrow> crypto \<Rightarrow> 'f cdouble_num \<Rightarrow> ew_config \<Rightarrow> 'f worker_session \<Rightarrow> 'f ew_tables \<Rightarrow> 's world
     \<Rightarrow> (int \<times> 'f worker_session option) \<times> 'f ew_tables \<times> 's world" where
  "session_advance L C F cfg s t w =
     (case es_state s of
        WS_PEEK_OWNER \<Rightarrow>
          (case session_peek_owner L C F cfg s t w of
             ((rc, s1), t1, w1) \<Rightarrow>
               if rc = 2 then ((0, None), t1, w1)
               else if rc \<le> 0 then ((rc, Some s1), t1, w1)
               else session_advance L C F cfg s1 t1 w1)
      | WS_READ_HEADERS \<Rightarrow>
          (case session_tls_read_buffer L s w of
             ((rc, s1), w1) \<Rightarrow>
               if rc \<le> 0 then ((rc, Some s1), t, w1)
               else
                 (case session_parse_headers F s1 of
                    (rc, s2) \<Rightarrow>
                      if rc < 0 then ((-1, Some s2), t, w1)
                      else if rc = 0 then session_advance L C F cfg s2 t w1
                      else if es_body_target s2 \<le> es_body_in s2
                      then (let ((r, s3), w2) = session_build_response F cfg s2 w1 in ((r, Some s3), t, w2))
                      else session_advance L C F cfg s2 t w1))
      | WS_READ_BODY \<Rightarrow>
          (case session_tls_drain_body L s w of
             ((rc, s1), w1) \<Rightarrow>
               if rc \<le> 0 then ((rc, Some s1), t, w1)
               else (let ((r, s2), w2) = session_build_response F cfg s1 w1 in ((r, Some s2), t, w2)))
      | WS_WRITE_RESPONSE \<Rightarrow>
          (case session_flush_response L F s w of
             ((rc, s1), w1) \<Rightarrow>
               if rc \<le> 0 then ((rc, Some s1), t, w1) else session_advance L C F cfg s1 t w1))"
  by pat_completeness auto

termination
  by (relation "measure (\<lambda>(L, C, F, cfg, s, t, w). slen w)") (auto dest: advance_consumes)

declare session_advance.simps [simp del]

subsection \<open>What a session's input and output keep\<close>

text \<open>The registrations and the output of the other sessions are as before.\<close>

definition sess_io :: "nat \<Rightarrow> 's world \<Rightarrow> 's world \<Rightarrow> bool" where
  "sess_io p w w' =
     (session_io p w w' \<and> watched (log w') = watched (log w)
    \<and> (\<forall>q. q \<noteq> p \<longrightarrow> tls_output q (log w') = tls_output q (log w)))"

lemma sess_io_refl [simp]: "sess_io p w w"
  by (simp add: sess_io_def)

lemma sess_io_trans: "sess_io p w w1 \<Longrightarrow> sess_io p w1 w2 \<Longrightarrow> sess_io p w w2"
  by (auto simp: sess_io_def session_io_def)

lemma sess_io_same_log:
  "session_io p w w' \<Longrightarrow> log w' = log w \<Longrightarrow> sess_io p w w'"
  by (simp add: sess_io_def)

lemma session_io_peeks: "session_io p w (snd (recv_peek fd k w))" "session_io p w (snd (ioctl_fionread fd w))"
  by (simp_all add: session_io_def)

lemma sess_io_prims:
  "sess_io p w (snd (wolfSSL_read L p n w))" "sess_io p w (snd (sys_alloc w))"
  "sess_io p w (snd (ssl_query g d p w))" "sess_io p w (snd (wolfSSL_tls_export L p w))"
  "sess_io p w (snd (tls_read_peek C ctx k w))" "sess_io p w (snd (recv_peek fd k w))" "sess_io p w (snd (ioctl_fionread fd w))"
  by (intro sess_io_same_log session_io_prims session_io_peeks; simp)+

lemma log_wolfSSL_write:
  "\<exists>evs. log (snd (wolfSSL_write L p b w)) = evs @ log w \<and> (\<forall>e \<in> set evs. \<exists>x. e = EvSslWrite p x)"
  by (simp add: wolfSSL_write_def Let_def split_beta)

lemma written_events:
  "\<forall>e \<in> set evs. \<exists>x. e = EvSslWrite p x \<Longrightarrow>
     watched (evs @ l) = watched l \<and> (\<forall>q. q \<noteq> p \<longrightarrow> tls_output q (evs @ l) = tls_output q l)"
  by (induction evs) auto

lemma sess_io_write: "sess_io p w (snd (wolfSSL_write L p b w))"
  using session_io_write [of p w L b] log_wolfSSL_write [of L p b w] written_events
  unfolding sess_io_def by fastforce

lemma sess_io_mod: "sess_io p w (snd (epoll_mod_fd fd out w))"
  by (simp add: sess_io_def session_io_def epoll_mod_fd_def epoll_call_def split_beta)

lemma wolfssl_want_io: "sess_io p w (snd (wolfssl_want s e w))"
  by (simp add: wolfssl_want_def sess_io_mod)

lemma wolfssl_want_output: "tls_output q (log (snd (wolfssl_want s e w))) = tls_output q (log w)"
  by (simp add: wolfssl_want_def epoll_mod_fd_def epoll_call_def split_beta)

lemma tls_record_ready_io: "tls_record_ready fd w = (r, w') \<Longrightarrow> sess_io p w w' \<and> log w' = log w"
proof (induction fd w rule: tls_record_ready.induct)
  case (1 fd w)
  obtain n hdr w1 where pk: "recv_peek fd TLSPEEK_HEADER_SIZE w = ((n, hdr), w1)" by (metis prod.exhaust)
  have io1: "sess_io p w w1" "log w1 = log w"
    using sess_io_prims(6) [of p w fd TLSPEEK_HEADER_SIZE] recv_peek_frame(5) [of fd TLSPEEK_HEADER_SIZE w] by (simp_all add: pk)
  have io2: "sess_io p w (snd (ioctl_fionread fd w1))" "log (snd (ioctl_fionread fd w1)) = log w"
    using sess_io_trans [OF io1(1) sess_io_prims(7)] io1(2) by simp_all
  show ?case
  proof (cases "n < 0 \<and> errno w1 = EINTR")
    case True
    then have "tls_record_ready fd w1 = (r, w')"
      using "1.prems" by (simp add: pk tls_record_ready.simps [of fd w])
    with "1.IH" [OF pk [symmetric] refl True this] io1 show ?thesis by (auto intro: sess_io_trans)
  next
    case False
    then have "w' = w1 \<or> w' = snd (ioctl_fionread fd w1)"
      using "1.prems" by (auto simp: pk tls_record_ready.simps [of fd w] Let_def split_beta split: if_splits)
    with io1 io2 show ?thesis by blast
  qed
qed

lemma b2_peek_owner_io:
  "b2_peek_owner_from_kernel C fd serial sz w = (r, w') \<Longrightarrow> sess_io p w w' \<and> log w' = log w"
  using peek_owner_window_same [of 1024 C fd serial sz w r w']
  by (simp add: b2_peek_owner_from_kernel_def sess_io_def session_io_def)

lemma b2_export_io:
  "sess_io p w (snd (b2_export_live_serial L p serial w))" "log (snd (b2_export_live_serial L p serial w)) = log w"
  by (simp_all add: b2_export_live_serial_def Let_def split_beta sess_io_def session_io_def split: option.split)

text \<open>Reading changes the buffer, draining the count of the body.\<close>

lemma b2_ensure_capacity_io:
  assumes "b2_ensure_capacity buf needed w = ((r, buf'), w')"
  shows "sess_io p w w' \<and> log w' = log w \<and> rb_data buf' = rb_data buf \<and> (r = 0 \<longrightarrow> needed \<le> rb_cap buf')"
proof (cases "needed \<le> rb_cap buf")
  case True
  with assms show ?thesis by (simp add: b2_ensure_capacity_def)
next
  case False
  let ?c = "if rb_cap buf \<noteq> 0 then rb_cap buf else WORKER_INITIAL_BUF"
  have "0 < ?c" using word_gt_0 by (auto simp: WORKER_INITIAL_BUF_def)
  from grow_cap_spec [OF this, of needed] obtain r' where
    r': "grow_cap ?c needed = Some r'" "case r' of None \<Rightarrow> True | Some c' \<Rightarrow> needed \<le> c'"
    by (auto split: option.splits simp del: not_None_eq)
  have a: "sess_io p w (snd (sys_alloc w))" "log (snd (sys_alloc w)) = log w" by (simp_all add: sess_io_prims)
  show ?thesis
  proof (cases r')
    case None
    with False assms r' show ?thesis by (simp add: b2_ensure_capacity_def)
  next
    case (Some c')
    with False assms r' a show ?thesis
      by (auto simp: b2_ensure_capacity_def Let_def split_beta split: if_splits)
  qed
qed

lemma session_read_io:
  assumes "session_tls_read_buffer L s w = ((r, s'), w')"
  shows "sess_io (es_ssl s) w w' \<and> tls_output q (log w') = tls_output q (log w) \<and> (\<exists>b. s' = s\<lparr>es_buf := b\<rparr>)"
proof -
  let ?len = "length (rb_data (es_buf s))"
  show ?thesis
  proof (cases "WORKER_MAX_REQ_BYTES \<le> ?len")
    case True
    with assms have "s' = s" "w' = w" by (simp_all add: session_tls_read_buffer_def Let_def)
    then show ?thesis by (simp, intro exI [of _ "es_buf s"]) simp
  next
    case small: False
    obtain c b w1 where en: "b2_ensure_capacity (es_buf s) (of_nat ?len + 8192 + 1) w = ((c, b), w1)" by (metis prod.exhaust)
    note e = b2_ensure_capacity_io [OF en, of "es_ssl s"]
    define room where "room = min 8192 (unat (rb_cap b - of_nat ?len - 1))"
    obtain n bs e' w2 where rd: "wolfSSL_read L (es_ssl s) room w1 = ((n, bs, e'), w2)" by (metis prod.exhaust)
    have io2: "sess_io (es_ssl s) w w2" "log w2 = log w"
      using sess_io_trans [OF conjunct1 [OF e] sess_io_prims(1) [of "es_ssl s" w1 L room]] e
        wolfSSL_read_frame(3) [of L "es_ssl s" room w1] by (simp_all add: rd)
    let ?W = "wolfssl_want (s\<lparr>es_buf := b\<rparr>) e' w2"
    have ub: "\<not> unat (rb_cap b) \<le> ?len + length bs" if "c = 0" "0 < n"
    proof -
      have l: "?len < 2 ^ 20" using small by (simp add: WORKER_MAX_REQ_BYTES_def)
      then have "unat (of_nat ?len + 8192 + 1 :: u64) = ?len + 8193"
        by (simp add: unat_word_ariths unat_of_nat take_bit_nat_eq_self)
      then have cap: "?len + 8193 \<le> unat (rb_cap b)" using e that(1) by (simp add: word_le_nat_alt)
      have "length bs \<le> 8192" using wolfSSL_read_result [of L "es_ssl s" room w1 n bs e'] rd that(2) by (auto simp: room_def)
      with cap show ?thesis by linarith
    qed
    have res: "((r, s'), w') =
       (if c \<noteq> 0 then ((-1, s\<lparr>es_buf := b\<rparr>), w1)
        else if 0 < n then ((1, s\<lparr>es_buf := b\<lparr>rb_data := rb_data b @ bs\<rparr>\<rparr>), flag_ub (unat (rb_cap b) \<le> ?len + length bs) w2)
        else ((fst ?W, s\<lparr>es_buf := b\<rparr>), snd ?W))"
      using small unfolding assms [symmetric] session_tls_read_buffer_def Let_def en
      by (simp add: rd split_beta room_def [symmetric])
    consider "w' = w1" "s' = s\<lparr>es_buf := b\<rparr>" | "w' = w2" "s' = s\<lparr>es_buf := b\<lparr>rb_data := rb_data b @ bs\<rparr>\<rparr>"
      | "w' = snd ?W" "s' = s\<lparr>es_buf := b\<rparr>"
      using res ub by (auto simp: flag_ub_False split: if_splits)
    then show ?thesis
    proof cases
      case 1
      with e show ?thesis by auto
    next
      case 2
      with io2 show ?thesis by auto
    next
      case 3
      with sess_io_trans [OF io2(1) wolfssl_want_io] io2(2) show ?thesis by (auto simp: wolfssl_want_output)
    qed
  qed
qed

lemma session_drain_io:
  "session_tls_drain_body L s w = ((r, s'), w') \<Longrightarrow>
     sess_io (es_ssl s) w w' \<and> tls_output q (log w') = tls_output q (log w) \<and> (\<exists>k. s' = s\<lparr>es_body_in := k\<rparr>)"
proof (induction L s w rule: session_tls_drain_body.induct)
  case (1 L s w)
  define room where "room = min (es_body_target s - es_body_in s) 8192"
  obtain n bs e w1 where rd: "wolfSSL_read L (es_ssl s) room w = ((n, bs, e), w1)" by (metis prod.exhaust)
  have io1: "sess_io (es_ssl s) w w1" "log w1 = log w"
    using sess_io_prims(1) [of "es_ssl s" w L room] wolfSSL_read_frame(3) [of L "es_ssl s" room w] by (simp_all add: rd)
  show ?case
  proof (cases "es_body_target s \<le> es_body_in s")
    case True
    with "1.prems" have "s' = s" "w' = w" by (simp_all add: session_tls_drain_body.simps [of L s w])
    then show ?thesis by (simp, intro exI [of _ "es_body_in s"]) simp
  next
    case more: False
    show ?thesis
    proof (cases "0 < n")
      case True
      let ?s = "s\<lparr>es_body_in := es_body_in s + nat n\<rparr>"
      have "session_tls_drain_body L ?s w1 = ((r, s'), w')"
        using "1.prems" more True rd by (simp add: session_tls_drain_body.simps [of L s w] room_def)
      from "1.IH" [OF more rd [unfolded room_def, symmetric] refl refl True this] io1
      show ?thesis by (auto intro: sess_io_trans)
    next
      case False
      have "w' = snd (wolfssl_want s e w1)" "s' = s"
        using "1.prems" more False rd by (auto simp: session_tls_drain_body.simps [of L s w] room_def split_beta)
      moreover have "s = s\<lparr>es_body_in := es_body_in s\<rparr>" by simp
      ultimately show ?thesis
        using sess_io_trans [OF io1(1) wolfssl_want_io [of "es_ssl s" w1 s e]] io1(2) by (metis wolfssl_want_output)
    qed
  qed
qed

text \<open>The answer a session is sending when it is in the writing state.\<close>

definition current_answer :: "'f cdouble_num \<Rightarrow> ew_config \<Rightarrow> 'f worker_session \<Rightarrow> bytes" where
  "current_answer F cfg s =
     b2_response (s_response_pad_bytes cfg) (es_should_close s)
       (b2_json F (s_function_name cfg) (es_req_no s) (es_operand_a s) (es_operand_b s))"

lemma session_build_io:
  assumes "session_build_response F cfg s w = ((r, s'), w')"
  shows "sess_io p w w'" "tls_output q (log w') = tls_output q (log w)"
    "r \<noteq> 0 \<and> s' = s
     \<or> s' = s\<lparr>es_resp := current_answer F cfg s, es_resp_off := 0, es_state := WS_WRITE_RESPONSE\<rparr>"
proof -
  let ?m = "epoll_mod_fd (es_fd s) True w"
  let ?s = "s\<lparr>es_resp := current_answer F cfg s, es_resp_off := 0, es_state := WS_WRITE_RESPONSE\<rparr>"
  have "((r, s'), w') = ((-1, s), w) \<or> ((r, s'), w') = ((fst ?m, ?s), snd ?m)"
    unfolding assms [symmetric] by (simp add: session_build_response_def Let_def split_beta current_answer_def)
  moreover have "tls_output q (log (snd ?m)) = tls_output q (log w)"
    by (simp add: epoll_mod_fd_def epoll_call_def split_beta)
  ultimately show "sess_io p w w'" "tls_output q (log w') = tls_output q (log w)"
    "r \<noteq> 0 \<and> s' = s \<or> s' = ?s"
    using sess_io_mod [of p w "es_fd s" True] by auto
qed

text \<open>Writing: a slice of the answer goes out, all of what was left when the loop ends by itself.\<close>

lemma session_write_loop_effect:
  "session_write_loop L s w = ((r, s'), w') \<Longrightarrow> es_resp_off s \<le> length (es_resp s) \<Longrightarrow>
     sess_io (es_ssl s) w w'
   \<and> (\<exists>k. s' = s\<lparr>es_resp_off := k\<rparr> \<and> k \<le> length (es_resp s) \<and> (r = None \<longrightarrow> k = length (es_resp s))
        \<and> (\<forall>out. tls_output (es_ssl s) (log w) = out @ take (es_resp_off s) (es_resp s) \<longrightarrow>
                 tls_output (es_ssl s) (log w') = out @ take k (es_resp s)))"
proof (induction L s w rule: session_write_loop.induct)
  case (1 L s w)
  let ?b = "drop (es_resp_off s) (es_resp s)"
  obtain n e w1 where wr: "wolfSSL_write L (es_ssl s) ?b w = ((n, e), w1)" by (metis prod.exhaust)
  have io1: "sess_io (es_ssl s) w w1" using sess_io_write [of "es_ssl s" w L ?b] by (simp add: wr)
  note o = write_output [OF wr]
  show ?case
  proof (cases "length (es_resp s) \<le> es_resp_off s")
    case True
    then have "session_write_loop L s w = ((None, s), w)" by (simp add: session_write_loop.simps [of L s w])
    with "1.prems"(1) have res: "s' = s" "w' = w" by simp_all
    have "es_resp_off s = length (es_resp s)" using True "1.prems"(2) by simp
    then show ?thesis unfolding res by (intro conjI exI [of _ "length (es_resp s)"]) simp_all
  next
    case more: False
    show ?thesis
    proof (cases "0 < n")
      case True
      let ?k = "es_resp_off s + nat n"
      let ?s = "s\<lparr>es_resp_off := ?k\<rparr>"
      have le: "?k \<le> length (es_resp s)" using o True more by auto
      have out: "tls_output (es_ssl s) (log w1) = out @ take ?k (es_resp s)"
        if "tls_output (es_ssl s) (log w) = out @ take (es_resp_off s) (es_resp s)" for out
        using o that by (simp add: take_add)
      have "session_write_loop L ?s w1 = ((r, s'), w')"
        using "1.prems" more True wr by (simp add: session_write_loop.simps [of L s w])
      from "1.IH" [OF more wr [symmetric] refl True this] le have ih:
        "sess_io (es_ssl s) w1 w' \<and> (\<exists>k. s' = s\<lparr>es_resp_off := k\<rparr> \<and> k \<le> length (es_resp s)
           \<and> (r = None \<longrightarrow> k = length (es_resp s))
           \<and> (\<forall>out. tls_output (es_ssl s) (log w1) = out @ take ?k (es_resp s) \<longrightarrow>
                    tls_output (es_ssl s) (log w') = out @ take k (es_resp s)))" by simp
      with sess_io_trans [OF io1] out show ?thesis by blast
    next
      case False
      have res: "w' = snd (wolfssl_want s e w1)" "s' = s" "r = Some (fst (wolfssl_want s e w1))"
        using "1.prems"(1) more False wr by (auto simp: session_write_loop.simps [of L s w] split_beta)
      have "tls_output (es_ssl s) (log w') = tls_output (es_ssl s) (log w)"
        using o False by (simp add: res(1) wolfssl_want_output)
      with res "1.prems"(2) sess_io_trans [OF io1 wolfssl_want_io [of "es_ssl s" w1 s e]] show ?thesis
        by (intro conjI exI [of _ "es_resp_off s"]) simp_all
    qed
  qed
qed

subsection \<open>Answers go out in order\<close>

text \<open>
  The bytes sent on a session: the answers to the requests before the current one, numbered from 1 and not closing,
  and the part written so far of the current one.
\<close>

definition earlier_answers :: "'f cdouble_num \<Rightarrow> ew_config \<Rightarrow> bytes list \<Rightarrow> bool" where
  "earlier_answers F cfg rs =
     (\<forall>i < length rs. \<exists>a b. rs ! i = b2_response (s_response_pad_bytes cfg) False
                                    (b2_json F (s_function_name cfg) (of_nat (Suc i)) a b))"

definition answer_due :: "'f cdouble_num \<Rightarrow> ew_config \<Rightarrow> 'f worker_session \<Rightarrow> bool" where
  "answer_due F cfg s =
     (if es_state s = WS_WRITE_RESPONSE
      then es_resp s = current_answer F cfg s \<and> es_resp_off s \<le> length (es_resp s)
      else es_resp s = [] \<and> es_resp_off s = 0)"

definition sends_in_order :: "'f cdouble_num \<Rightarrow> ew_config \<Rightarrow> 'f worker_session \<Rightarrow> event list \<Rightarrow> bool" where
  "sends_in_order F cfg s l =
     (answer_due F cfg s
    \<and> (\<exists>done. earlier_answers F cfg done \<and> es_req_no s = of_nat (Suc (length done))
         \<and> tls_output (es_ssl s) l = concat done @ take (es_resp_off s) (es_resp s)))"

lemma earlier_answers_snoc:
  "earlier_answers F cfg (rs @ [r]) \<longleftrightarrow>
     earlier_answers F cfg rs
   \<and> (\<exists>a b. r = b2_response (s_response_pad_bytes cfg) False
                 (b2_json F (s_function_name cfg) (of_nat (Suc (length rs))) a b))"
  by (auto simp: earlier_answers_def less_Suc_eq nth_append)

definition same_conn :: "'f worker_session \<Rightarrow> 'f worker_session \<Rightarrow> bool" where
  "same_conn s s' = (es_fd s' = es_fd s \<and> es_ssl s' = es_ssl s)"

lemma same_conn_refl [simp]: "same_conn s s"
  by (simp add: same_conn_def)

lemma same_conn_trans: "same_conn s s1 \<Longrightarrow> same_conn s1 s2 \<Longrightarrow> same_conn s s2"
  by (simp add: same_conn_def)

text \<open>Changes of a session that do not touch what it sends.\<close>

lemma sends_cong:
  assumes "sends_in_order F cfg s l" and "tls_output (es_ssl s) l' = tls_output (es_ssl s) l"
    and "es_ssl s' = es_ssl s" "es_req_no s' = es_req_no s" "es_resp s' = es_resp s" "es_resp_off s' = es_resp_off s"
    and "es_state s \<noteq> WS_WRITE_RESPONSE \<and> es_state s' \<noteq> WS_WRITE_RESPONSE
      \<or> es_state s' = es_state s \<and> es_should_close s' = es_should_close s
        \<and> es_operand_a s' = es_operand_a s \<and> es_operand_b s' = es_operand_b s"
  shows "sends_in_order F cfg s' l'"
proof -
  have "answer_due F cfg s' = answer_due F cfg s" using assms(3-7) by (auto simp: answer_due_def current_answer_def)
  then show ?thesis using assms(1-6) unfolding sends_in_order_def by simp
qed

lemma sends_reset:
  assumes "sends_in_order F cfg s l" and "es_state s \<noteq> WS_WRITE_RESPONSE" and "st \<noteq> WS_WRITE_RESPONSE"
  shows "sends_in_order F cfg (session_reset_request F s st) l"
proof -
  have "es_resp s = [] \<and> es_resp_off s = 0" using assms by (simp add: sends_in_order_def answer_due_def)
  then show ?thesis using assms(2,3)
    by (intro sends_cong [OF assms(1) refl]) (simp_all add: session_reset_request_def)
qed

text \<open>A written answer joins those that are done.\<close>

lemma sends_next:
  assumes "sends_in_order F cfg s l" and "es_state s = WS_WRITE_RESPONSE" and "es_resp_off s = length (es_resp s)"
    and "\<not> es_should_close s" and "st \<noteq> WS_WRITE_RESPONSE" and "es_ssl s' = es_ssl s" and "es_req_no s' = es_req_no s + 1"
  shows "sends_in_order F cfg (session_reset_request F s' st) l"
proof -
  obtain dn where d: "tls_output (es_ssl s) l = concat dn @ take (es_resp_off s) (es_resp s)"
    "es_req_no s = of_nat (Suc (length dn))" "earlier_answers F cfg dn" and r: "es_resp s = current_answer F cfg s"
    using assms(1,2) by (auto simp: sends_in_order_def answer_due_def)
  have "earlier_answers F cfg (dn @ [es_resp s])"
    unfolding earlier_answers_snoc r current_answer_def using d(2,3) assms(4) by auto
  with d(1,2) assms(3,5,6,7) show ?thesis
    unfolding sends_in_order_def session_reset_request_def
    by (intro conjI exI [of _ "dn @ [es_resp s]"]) (simp_all add: answer_due_def)
qed

lemma session_flush_effect:
  assumes fl: "session_flush_response L F s w = ((r, s'), w')"
    and st: "es_state s = WS_WRITE_RESPONSE" and so: "sends_in_order F cfg s (log w)"
  shows "sess_io (es_ssl s) w w' \<and> same_conn s s' \<and> sends_in_order F cfg s' (log w')"
proof -
  let ?p = "es_ssl s"
  obtain q s1 w1 where wl: "session_write_loop L s w = ((q, s1), w1)" by (metis prod.exhaust)
  have off: "es_resp_off s \<le> length (es_resp s)" using so st by (auto simp: sends_in_order_def answer_due_def)
  obtain k where k: "sess_io ?p w w1" "s1 = s\<lparr>es_resp_off := k\<rparr>" "k \<le> length (es_resp s)"
    "q = None \<Longrightarrow> k = length (es_resp s)"
    "\<And>out. tls_output ?p (log w) = out @ take (es_resp_off s) (es_resp s) \<Longrightarrow>
       tls_output ?p (log w1) = out @ take k (es_resp s)"
    using session_write_loop_effect [OF wl off] by blast
  have so1: "sends_in_order F cfg s1 l" if "tls_output ?p l = tls_output ?p (log w1)" for l
  proof -
    obtain d where d: "tls_output ?p (log w) = concat d @ take (es_resp_off s) (es_resp s)"
      "es_req_no s = of_nat (Suc (length d))" "earlier_answers F cfg d" "es_resp s = current_answer F cfg s"
      using so st by (auto simp: sends_in_order_def answer_due_def)
    have "tls_output ?p l = concat d @ take k (es_resp s)" using k(5) [OF d(1)] that by simp
    with d(2-) k(2,3) st show ?thesis
      unfolding sends_in_order_def
      by (intro conjI exI [of _ d]) (simp_all add: answer_due_def current_answer_def)
  qed
  let ?s2 = "\<lambda>se. s1\<lparr>es_payload := (es_payload s1)\<lparr>pl_serial := se\<rparr>\<rparr>"
  obtain r2 se w2 where ex: "b2_export_live_serial L (es_ssl s1) (pl_serial (es_payload s1)) w1 = ((r2, se), w2)"
    by (metis prod.exhaust)
  have p1: "es_ssl s1 = ?p" by (simp add: k(2))
  have ex': "b2_export_live_serial L ?p (pl_serial (es_payload s)) w1 = ((r2, se), w2)" using ex by (simp add: k(2))
  have io2: "sess_io ?p w w2" "log w2 = log w1"
    using sess_io_trans [OF k(1) b2_export_io(1) [of ?p w1 L "pl_serial (es_payload s1)"]]
      b2_export_io(2) [of L "es_ssl s1" "pl_serial (es_payload s1)" w1] ex p1 by simp_all
  define nxt where "nxt = (if es_single_owner_hint s then WS_READ_HEADERS else WS_PEEK_OWNER)"
  define s3 where "s3 = session_reset_request F
      ((?s2 se)\<lparr>es_direct_read := es_single_owner_hint s, es_req_no := es_req_no s + 1\<rparr>) nxt"
  have c3: "same_conn s s3" "es_direct_read s3 = es_single_owner_hint s" "es_fd s3 = es_fd s" "es_ssl s3 = ?p"
    by (simp_all add: s3_def same_conn_def session_reset_request_def k(2))
  let ?m = "epoll_mod_fd (es_fd s) False w2"
  let ?q = "ssl_query (ws_pending L) 0 ?p (snd ?m)"
  have io3: "sess_io ?p w (snd ?m)" using sess_io_trans [OF io2(1) sess_io_mod] .
  have io4: "sess_io ?p w (snd ?q)" using sess_io_trans [OF io3 sess_io_prims(3)] .
  have out3: "tls_output ?p (log (snd ?m)) = tls_output ?p (log w1)" "tls_output ?p (log (snd ?q)) = tls_output ?p (log w1)"
    by (simp_all add: epoll_mod_fd_def epoll_call_def split_beta io2(2))
  have so3: "sends_in_order F cfg s3 l" if "tls_output ?p l = tls_output ?p (log w1)" "q = None" "\<not> es_should_close s1" for l
    unfolding s3_def
    by (rule sends_next [OF so1 [OF that(1)]]) (use k(2,4) that st in \<open>simp_all add: nxt_def\<close>)
  have res: "((r, s'), w') =
     (case q of Some rc \<Rightarrow> ((rc, s1), w1)
      | None \<Rightarrow> if es_should_close s1 then ((-1, s1), w1)
                else if r2 \<noteq> 0 then ((-1, ?s2 se), w2)
                else if fst ?m \<noteq> 0 then ((-1, s3), snd ?m)
                else if es_direct_read s3 then ((if 0 < fst ?q then 1 else 0, s3), snd ?q)
                else ((0, s3), snd ?m))"
    unfolding fl [symmetric] session_flush_response_def wl
    by (simp add: ex' split_beta s3_def nxt_def k(2) session_reset_request_def Let_def split: option.split)
  have c1: "same_conn s s1" by (simp add: k(2) same_conn_def)
  have so2: "sends_in_order F cfg (?s2 se) (log w2)"
    by (rule sends_cong [OF so1 [OF refl]]) (simp_all add: io2(2))
  consider "s' = s1" "w' = w1" | "s' = ?s2 se" "w' = w2"
    | "q = None" "\<not> es_should_close s1" "s' = s3" "w' = snd ?m \<or> w' = snd ?q"
    using res by (auto split: option.splits if_splits)
  then show ?thesis
  proof cases
    case 1
    with k(1) c1 so1 [OF refl] show ?thesis by simp
  next
    case 2
    with io2(1) so2 k(2) show ?thesis by (simp add: same_conn_def)
  next
    case 3
    with io3 io4 out3 so3 c3(1) show ?thesis by blast
  qed
qed

lemma session_read_sends:
  assumes "session_tls_read_buffer L s w = ((r, s'), w')" and "es_state s \<noteq> WS_WRITE_RESPONSE"
    and "sends_in_order F cfg s (log w)"
  shows "sess_io (es_ssl s) w w' \<and> same_conn s s' \<and> es_state s' = es_state s \<and> sends_in_order F cfg s' (log w')"
proof -
  obtain b where b: "sess_io (es_ssl s) w w'" "tls_output (es_ssl s) (log w') = tls_output (es_ssl s) (log w)" "s' = s\<lparr>es_buf := b\<rparr>"
    using session_read_io [OF assms(1)] by blast
  have "sends_in_order F cfg s' (log w')"
    by (rule sends_cong [OF assms(3) b(2)]) (simp_all add: b(3))
  with b show ?thesis by (simp add: same_conn_def)
qed

lemma session_drain_sends:
  assumes "session_tls_drain_body L s w = ((r, s'), w')" and "es_state s \<noteq> WS_WRITE_RESPONSE"
    and "sends_in_order F cfg s (log w)"
  shows "sess_io (es_ssl s) w w' \<and> same_conn s s' \<and> es_state s' = es_state s \<and> sends_in_order F cfg s' (log w')"
proof -
  obtain k where k: "sess_io (es_ssl s) w w'" "tls_output (es_ssl s) (log w') = tls_output (es_ssl s) (log w)" "s' = s\<lparr>es_body_in := k\<rparr>"
    using session_drain_io [OF assms(1)] by blast
  have "sends_in_order F cfg s' (log w')"
    by (rule sends_cong [OF assms(3) k(2)]) (simp_all add: k(3))
  with k show ?thesis by (simp add: same_conn_def)
qed

text \<open>What \<^verbatim>\<open>session_parse_headers\<close> sets.\<close>

lemma session_parse_cases:
  obtains h where "snd (session_parse_headers F s) = s\<lparr>es_hdr_sz := h\<rparr>"
  | h n i c g a b where "snd (session_parse_headers F s) =
      s\<lparr>es_hdr_sz := h, es_body_target := n, es_body_in := i, es_should_close := c, es_single_owner_hint := g,
        es_operand_a := a, es_operand_b := b, es_state := WS_READ_BODY\<rparr>"
proof -
  define buf where "buf = rb_data (es_buf s)"
  obtain e sz where q: "(if find_subseq buf (crlf @ crlf) < 0 then (find_subseq buf [LF, LF], 2)
              else (find_subseq buf (crlf @ crlf), 4 :: int)) = (e, sz)" by fastforce
  define h where "h = nat (e + sz)"
  define cl where "cl = (if b2_parse_content_length buf h < 0 then 0 else b2_parse_content_length buf h)"
  obtain a b where po: "parse_request_operands F buf h = (a, b)" by fastforce
  have eq: "session_parse_headers F s =
      (if e < 0 then (0, s) else if int WORKER_MAX_REQ_BYTES < cl then (-1, s\<lparr>es_hdr_sz := h\<rparr>)
       else (1, s\<lparr>es_hdr_sz := h, es_body_target := nat cl, es_body_in := min (length buf - h) (nat cl),
              es_should_close := b2_has_connection_close buf h, es_single_owner_hint := b2_has_single_owner_hint buf h,
              es_operand_a := a, es_operand_b := b, es_state := WS_READ_BODY\<rparr>))"
    unfolding session_parse_headers_def buf_def [symmetric] Let_def q prod.case h_def [symmetric] cl_def [symmetric] po ..
  show thesis
  proof (cases "e < 0")
    case True
    have "snd (session_parse_headers F s) = s\<lparr>es_hdr_sz := es_hdr_sz s\<rparr>" unfolding eq if_P [OF True] by simp
    then show thesis by (rule that(1))
  next
    case e: False
    show thesis
    proof (cases "int WORKER_MAX_REQ_BYTES < cl")
      case True
      show thesis by (rule that(1)) (unfold eq if_not_P [OF e] if_P [OF True], rule snd_conv)
    next
      case False
      show thesis by (rule that(2)) (unfold eq if_not_P [OF e] if_not_P [OF False], rule snd_conv)
    qed
  qed
qed

lemma session_parse_sends:
  assumes "session_parse_headers F s = (r, s')" and "es_state s \<noteq> WS_WRITE_RESPONSE" and "sends_in_order F cfg s l"
  shows "same_conn s s' \<and> es_state s' \<noteq> WS_WRITE_RESPONSE \<and> sends_in_order F cfg s' l"
proof -
  have s': "s' = snd (session_parse_headers F s)" using assms(1) by simp
  have f: "same_conn s s'" "es_req_no s' = es_req_no s" "es_resp s' = es_resp s" "es_resp_off s' = es_resp_off s"
    "es_state s' = es_state s \<or> es_state s' = WS_READ_BODY"
    unfolding s' by (cases rule: session_parse_cases [of F s]; simp add: same_conn_def)+
  then have st: "es_state s' \<noteq> WS_WRITE_RESPONSE" using assms(2) by auto
  have "sends_in_order F cfg s' l"
    by (rule sends_cong [OF assms(3) refl]) (use f st assms(2) in \<open>simp_all add: same_conn_def\<close>)
  with f st show ?thesis by simp
qed
lemma session_build_sends:
  assumes b: "session_build_response F cfg s w = ((r, s'), w')" and st: "es_state s \<noteq> WS_WRITE_RESPONSE"
    and so: "sends_in_order F cfg s (log w)"
  shows "sess_io p w w' \<and> same_conn s s' \<and> sends_in_order F cfg s' (log w')"
proof -
  note io = session_build_io(1) [OF b, of p] session_build_io(2) [OF b, of "es_ssl s"]
  from session_build_io(3) [OF b] show ?thesis
  proof
    assume "r \<noteq> 0 \<and> s' = s"
    with io sends_cong [OF so io(2), of s] st show ?thesis by simp
  next
    assume s': "s' = s\<lparr>es_resp := current_answer F cfg s, es_resp_off := 0, es_state := WS_WRITE_RESPONSE\<rparr>"
    have "es_resp s = [] \<and> es_resp_off s = 0" using so st by (simp add: sends_in_order_def answer_due_def)
    then have "sends_in_order F cfg s' (log w')"
      using so io(2) by (auto simp: sends_in_order_def s' answer_due_def current_answer_def)
    with io(1) s' show ?thesis by (simp add: same_conn_def)
  qed
qed

text \<open>
  Going on: either the session stays, with its connection, its wolfSSL session and its promise about the output, or it was
  relayed after input and output on its own session only.
\<close>

lemma session_advance_effect:
  assumes "session_advance L C F cfg s t w = ((rc, res), t', w')" and "sends_in_order F cfg s (log w)"
  shows "case res of
           Some s' \<Rightarrow> t' = t \<and> sess_io (es_ssl s) w w' \<and> same_conn s s' \<and> sends_in_order F cfg s' (log w')
         | None \<Rightarrow> rc = 0 \<and> (\<exists>s1 owner w1. sess_io (es_ssl s) w w1 \<and> same_conn s s1
                                \<and> (t', w') = snd (session_relay L cfg s1 owner t w1))"
  using assms
proof (induction "slen w" arbitrary: s w rule: less_induct)
  case less
  let ?p = "es_ssl s"
  have again: ?case if io: "sess_io ?p w w1" and c: "same_conn s s1" and so: "sends_in_order F cfg s1 (log w1)"
    and sl: "slen w1 < slen w" and adv: "session_advance L C F cfg s1 t w1 = ((rc, res), t', w')" for s1 w1
  proof -
    have p1: "es_ssl s1 = ?p" using c by (simp add: same_conn_def)
    from less.hyps [OF sl adv so] show ?thesis
      by (cases res) (use sess_io_trans [OF io] same_conn_trans [OF c] in \<open>fastforce simp: p1\<close>)+
  qed
  have stop: ?case if "sess_io ?p w w1" "same_conn s s1" "sends_in_order F cfg s1 (log w1)"
    "t' = t" "w' = w1" "res = Some s1" for s1 w1
    using that by simp
  show ?case
  proof (cases "es_state s")
    case WS_PEEK_OWNER
    obtain q w1 where rdy: "tls_record_ready (es_fd s) w = (q, w1)" by fastforce
    have io1: "sess_io ?p w w1" "log w1 = log w" using tls_record_ready_io [OF rdy] by blast+
    obtain r2 ow w2 where pk: "b2_peek_owner_from_kernel C (es_fd s) (pl_serial (es_payload s)) BENCH2_KA_TARGET_LEN w1 = ((r2, ow), w2)"
      by (metis prod.exhaust)
    have io2: "sess_io ?p w w2" "log w2 = log w"
      using b2_peek_owner_io [OF pk] sess_io_trans [OF io1(1)] io1(2) by auto
    let ?R = "session_relay L cfg s ow t w2"
    let ?s = "session_reset_request F s WS_READ_HEADERS"
    have so: "sends_in_order F cfg ?s (log w2)" "sends_in_order F cfg s (log w1)" "sends_in_order F cfg s (log w2)"
      using sends_reset [OF less.prems(2)] WS_PEEK_OWNER less.prems(2) by (simp_all add: io1(2) io2(2))
    have c: "same_conn s ?s" by (simp add: same_conn_def session_reset_request_def)
    have eq: "session_peek_owner L C F cfg s t w =
        (if q \<le> 0 then ((q, s), t, w1) else if r2 \<noteq> 0 then ((-1, s), t, w2)
         else if cstr ow \<noteq> cstr (s_function_name cfg) then ((2, s), snd ?R) else ((1, ?s), t, w2))"
      by (simp add: session_peek_owner_def rdy pk split_beta)
    consider "q \<le> 0" "((rc, res), t', w') = ((q, Some s), t, w1)"
      | "0 < q" "r2 \<noteq> 0" "((rc, res), t', w') = ((-1, Some s), t, w2)"
      | "((rc, res), t', w') = ((0, None), snd ?R)"
      | "session_peek_owner L C F cfg s t w = ((1, ?s), t, w2)" "session_advance L C F cfg ?s t w2 = ((rc, res), t', w')"
      using less.prems(1) WS_PEEK_OWNER
      by (auto simp: session_advance.simps [of L C F cfg s t w] eq split_beta split: if_splits)
    then show ?thesis
    proof cases
      case 1
      with stop [OF io1(1) same_conn_refl so(2)] show ?thesis by simp
    next
      case 2
      with stop [OF io2(1) same_conn_refl so(3)] show ?thesis by simp
    next
      case 3
      then have res: "res = None" "rc = 0" "(t', w') = snd ?R" by simp_all
      with io2(1) same_conn_refl have "\<exists>s1 owner w1. sess_io ?p w w1 \<and> same_conn s s1
          \<and> (t', w') = snd (session_relay L cfg s1 owner t w1)" by blast
      with res(1,2) show ?thesis by simp
    next
      case 4
      show ?thesis by (rule again [OF io2(1) c so(1) session_peek_goes_on(1) [OF 4(1) refl] 4(2)])
    qed
  next
    case WS_READ_HEADERS
    obtain r1 s1 w1 where rd: "session_tls_read_buffer L s w = ((r1, s1), w1)" by (metis prod.exhaust)
    have a: "sess_io ?p w w1" "same_conn s s1" "es_state s1 \<noteq> WS_WRITE_RESPONSE" "sends_in_order F cfg s1 (log w1)"
      using session_read_sends [OF rd _ less.prems(2)] WS_READ_HEADERS by auto
    obtain r2 s2 where ph: "session_parse_headers F s1 = (r2, s2)" by fastforce
    note b0 = session_parse_sends [OF ph a(3,4)]
    have b: "same_conn s s2" "es_state s2 \<noteq> WS_WRITE_RESPONSE" "sends_in_order F cfg s2 (log w1)"
      using same_conn_trans [OF a(2) conjunct1 [OF b0]] b0 by simp_all
    obtain r3 s3 w3 where bd: "session_build_response F cfg s2 w1 = ((r3, s3), w3)" by (metis prod.exhaust)
    have d: "sess_io ?p w w3" "same_conn s s3" "sends_in_order F cfg s3 (log w3)"
      using conjunct1 [OF session_build_sends [OF bd b(2,3)], THEN sess_io_trans [OF a(1)]]
        session_build_sends [OF bd b(2,3), of ?p] same_conn_trans [OF b(1), of s3] by simp_all
    have "session_advance L C F cfg s t w =
        (if r1 \<le> 0 then ((r1, Some s1), t, w1) else if r2 < 0 then ((-1, Some s2), t, w1)
         else if r2 = 0 \<or> \<not> es_body_target s2 \<le> es_body_in s2 then session_advance L C F cfg s2 t w1
         else ((r3, Some s3), t, w3))"
      by (subst session_advance.simps) (simp add: WS_READ_HEADERS rd ph bd)
    then consider "((rc, res), t', w') = ((r1, Some s1), t, w1)" | "((rc, res), t', w') = ((-1, Some s2), t, w1)"
      | "((rc, res), t', w') = ((r3, Some s3), t, w3)"
      | "0 < r1" "session_advance L C F cfg s2 t w1 = ((rc, res), t', w')"
      using less.prems(1) by (simp split: if_splits)
    then show ?thesis
    proof cases
      case 1
      with stop [OF a(1,2,4)] show ?thesis by simp
    next
      case 2
      with stop [OF a(1) b(1,3)] show ?thesis by simp
    next
      case 3
      with stop [OF d] show ?thesis by simp
    next
      case 4
      show ?thesis by (rule again [OF a(1) b(1,3) session_read_goes_on(1) [OF rd 4(1)] 4(2)])
    qed
  next
    case WS_READ_BODY
    obtain r1 s1 w1 where dr: "session_tls_drain_body L s w = ((r1, s1), w1)" by (metis prod.exhaust)
    have a: "sess_io ?p w w1" "same_conn s s1" "es_state s1 \<noteq> WS_WRITE_RESPONSE" "sends_in_order F cfg s1 (log w1)"
      using session_drain_sends [OF dr _ less.prems(2)] WS_READ_BODY by auto
    obtain r3 s3 w3 where bd: "session_build_response F cfg s1 w1 = ((r3, s3), w3)" by (metis prod.exhaust)
    have d: "sess_io ?p w w3" "same_conn s s3" "sends_in_order F cfg s3 (log w3)"
      using conjunct1 [OF session_build_sends [OF bd a(3,4)], THEN sess_io_trans [OF a(1)]]
        session_build_sends [OF bd a(3,4), of ?p] same_conn_trans [OF a(2), of s3] by simp_all
    have "((rc, res), t', w') = ((r1, Some s1), t, w1) \<or> ((rc, res), t', w') = ((r3, Some s3), t, w3)"
      using less.prems(1) WS_READ_BODY
      by (auto simp: session_advance.simps [of L C F cfg s t w] dr bd split: if_splits)
    with stop [OF a(1,2,4)] stop [OF d] show ?thesis by blast
  next
    case WS_WRITE_RESPONSE
    obtain r1 s1 w1 where fl: "session_flush_response L F s w = ((r1, s1), w1)" by (metis prod.exhaust)
    have a: "sess_io ?p w w1" "same_conn s s1" "sends_in_order F cfg s1 (log w1)"
      using session_flush_effect [OF fl WS_WRITE_RESPONSE less.prems(2)] by blast+
    consider "((rc, res), t', w') = ((r1, Some s1), t, w1)" | "0 < r1" "session_advance L C F cfg s1 t w1 = ((rc, res), t', w')"
      using less.prems(1) WS_WRITE_RESPONSE
      by (auto simp: session_advance.simps [of L C F cfg s t w] fl split: if_splits)
    then show ?thesis
    proof cases
      case 1
      with stop [OF a] show ?thesis by simp
    next
      case 2
      show ?thesis by (rule again [OF a session_flush_goes_on(1) [OF fl 2(1)] 2(2)])
    qed
  qed
qed

end
