(* ===== verification/EventWorker.thy ===== *)
theory EventWorker
  imports EventSession
begin

text \<open>
  The event loop around the sessions of \<open>EventSession\<close> (\<^verbatim>\<open>bench2_proto_worker.c\<close>): accepting hand-overs,
  registering the connections they bring, dispatching what epoll reports, and \<^verbatim>\<open>main\<close> up to the loop.  The
  loop is the relation \<open>ew_reach\<close>; a step is one return of \<^verbatim>\<open>epoll_wait\<close> with all its events.

  Shown here: every open descriptor has exactly one owner in every state, however the sessions interleave, and every
  session sends the answers to its requests in order, each whole before the next.
\<close>

unbundle bit_operations_syntax

subsection \<open>Hand-overs\<close>

definition handoff_close :: "int \<Rightarrow> 'f ew_tables \<Rightarrow> 's world \<Rightarrow> 'f ew_tables \<times> 's world" where
  "handoff_close fd t w =
     (let (t, w) =
            (if 0 \<le> fd \<and> fd < WORKER_MAX_FDS
             then (t\<lparr>s_handoffs := (s_handoffs t)(fd := None)\<rparr>,
                   case s_handoffs t fd of None \<Rightarrow> w | Some h \<Rightarrow> close_if_open (hc_client_fd h) w)
             else (t, w));
          w = epoll_del fd w
      in (t, close fd w))"

definition register_client_fd ::
  "'s wolfssl \<Rightarrow> 'f cdouble_num \<Rightarrow> int \<Rightarrow> ka_payload \<Rightarrow> 'f ew_tables \<Rightarrow> 's world \<Rightarrow> 'f ew_tables \<times> 's world" where
  "register_client_fd L F client_fd payload t w =
     (if pl_magic payload \<noteq> BENCH2_KA_MAGIC \<or> pl_version payload \<noteq> BENCH2_KA_VERSION
      then (t, close client_fd w)
      else
        (let (s, t, w) = session_new L F client_fd payload t w
         in case s of
              None \<Rightarrow> (t, w)
            | Some s \<Rightarrow>
                (let (r, w) = epoll_add_fd client_fd w
                 in if r \<noteq> 0 then session_close s t w else (t, w))))"

text \<open>The local copy of the payload is zero where nothing was received.\<close>

definition handle_handoff_fd ::
  "'s wolfssl \<Rightarrow> 'f cdouble_num \<Rightarrow> int \<Rightarrow> 'f ew_tables \<Rightarrow> 's world \<Rightarrow> 'f ew_tables \<times> 's world" where
  "handle_handoff_fd L F conn_fd t w =
     (case (if 0 \<le> conn_fd \<and> conn_fd < WORKER_MAX_FDS then s_handoffs t conn_fd else None) of
        None \<Rightarrow> handoff_close conn_fd t w
      | Some h \<Rightarrow>
          (let ((rc, h), w) = handoff_recv_nb h w;
               t = t\<lparr>s_handoffs := (s_handoffs t)(conn_fd \<mapsto> h)\<rparr>
           in if rc = 0 then (t, w)
              else
                (let client_fd = hc_client_fd h;
                     payload = bytes_payload (overwrite (zeros SIZEOF_payload) (hc_data h));
                     t = (if rc = 1
                          then t\<lparr>s_handoffs := (s_handoffs t)(conn_fd \<mapsto> h\<lparr>hc_client_fd := -1\<rparr>)\<rparr> else t);
                     (t, w) = handoff_close conn_fd t w
                 in if rc < 0 then (t, w) else register_client_fd L F client_fd payload t w)))"

text \<open>The accept loop ends when there is nothing to accept or \<^verbatim>\<open>accept4\<close> fails.\<close>

lemma newfd_consumes:
  "(fd, w1) = sys_newfd w \<Longrightarrow> \<not> fd < 0 \<Longrightarrow> slen w1 < slen w"
  "(fd, w1) = sys_newfd w \<Longrightarrow> fd < 0 \<Longrightarrow> errno w1 = EINTR \<Longrightarrow> slen w1 < slen w"
  by (auto simp: sys_newfd_def next_answer_def slen_def set_errno_def Let_def split_beta split: answer.splits list.splits)

definition accept_handoff :: "int \<Rightarrow> 'f ew_tables \<Rightarrow> 's world \<Rightarrow> 'f ew_tables \<times> 's world" where
  "accept_handoff conn_fd t w =
     (if WORKER_MAX_FDS \<le> conn_fd then (t, close conn_fd w)
      else
        (let (ok, w) = sys_alloc w
         in if \<not> ok then (t, close conn_fd w)
            else
              (let t = t\<lparr>s_handoffs := (s_handoffs t)(conn_fd \<mapsto>
                         \<lparr>hc_fd = conn_fd, hc_client_fd = -1, hc_data = []\<rparr>)\<rparr>;
                   (r, w) = epoll_add_fd conn_fd w
               in if r \<noteq> 0 then handoff_close conn_fd t w else (t, w))))"

lemma slen_epoll_del: "slen (epoll_del fd w) \<le> slen w"
  using slen_sys_status [of w] by (simp add: epoll_del_def split_beta)

lemma handoff_close_eq:
  "handoff_close fd t w =
     (if 0 \<le> fd \<and> fd < WORKER_MAX_FDS then t\<lparr>s_handoffs := (s_handoffs t)(fd := None)\<rparr> else t,
      close fd (epoll_del fd
        (if 0 \<le> fd \<and> fd < WORKER_MAX_FDS
         then (case s_handoffs t fd of None \<Rightarrow> w | Some h \<Rightarrow> close_if_open (hc_client_fd h) w) else w)))"
  by (simp add: handoff_close_def)

lemma slen_handoff_close: "slen (snd (handoff_close fd t w)) \<le> slen w"
  by (simp add: handoff_close_eq order_trans [OF slen_epoll_del] split: option.split)

lemma slen_accept_handoff:
  fixes w :: "'s world"
  shows "slen (snd (accept_handoff fd t w)) \<le> slen w"
proof -
  have b: "slen (snd (epoll_add_fd fd v)) \<le> slen v" for v :: "'s world"
    unfolding epoll_add_fd_def by (rule slen_epoll_call)
  have c: "slen (snd (handoff_close fd t' (snd (epoll_add_fd fd v)))) \<le> slen v" for t' :: "'a ew_tables" and v :: "'s world"
    using order_trans [OF slen_handoff_close b] .
  show ?thesis
    using order_trans [OF b slen_sys_alloc [of w]] order_trans [OF c slen_sys_alloc [of w]] slen_sys_alloc [of w]
    by (simp add: accept_handoff_def Let_def split_beta)
qed

function handle_listen_fd :: "'f ew_tables \<Rightarrow> 's world \<Rightarrow> 'f ew_tables \<times> 's world" where
  "handle_listen_fd t w =
     (case sys_newfd w of
        (conn_fd, w1) \<Rightarrow>
          if conn_fd < 0 then (if errno w1 = EINTR then handle_listen_fd t w1 else (t, w1))
          else handle_listen_fd (fst (accept_handoff conn_fd t w1)) (snd (accept_handoff conn_fd t w1)))"
  by pat_completeness auto

termination
  by (relation "measure (\<lambda>(t, w). slen w)")
     (auto simp: split_beta dest: newfd_consumes intro: le_less_trans [OF slen_accept_handoff])

declare handle_listen_fd.simps [simp del]

subsection \<open>One event, one return of \<^verbatim>\<open>epoll_wait\<close>\<close>

definition EPOLLIN :: u32 where "EPOLLIN = 0x001"
definition EPOLLOUT :: u32 where "EPOLLOUT = 0x004"
definition EPOLLERR :: u32 where "EPOLLERR = 0x008"
definition EPOLLHUP :: u32 where "EPOLLHUP = 0x010"
definition EPOLLRDHUP :: u32 where "EPOLLRDHUP = 0x2000"

text \<open>A client: the session goes on and is stored, or closed when it is done.\<close>

definition ew_session_event ::
  "'s wolfssl \<Rightarrow> crypto \<Rightarrow> 'f cdouble_num \<Rightarrow> ew_config \<Rightarrow> 'f worker_session \<Rightarrow> u32 \<Rightarrow> 'f ew_tables \<Rightarrow> 's world
     \<Rightarrow> 'f ew_tables \<times> 's world" where
  "ew_session_event L C F cfg s revents t w =
     (if revents AND EPOLLERR \<noteq> 0 then session_close s t w
      else if revents AND (EPOLLIN OR EPOLLOUT) \<noteq> 0 then
        (case session_advance L C F cfg s t w of
           ((rc, None), t, w) \<Rightarrow> (t, w)
         | ((rc, Some s1), t, w) \<Rightarrow>
             (let t = t\<lparr>s_sessions := (s_sessions t)(es_fd s \<mapsto> s1)\<rparr>
              in if rc < 0 then session_close s1 t w else (t, w)))
      else if revents AND (EPOLLHUP OR EPOLLRDHUP) \<noteq> 0 then session_close s t w
      else (t, w))"

definition ew_event ::
  "'s wolfssl \<Rightarrow> crypto \<Rightarrow> 'f cdouble_num \<Rightarrow> ew_config \<Rightarrow> int \<Rightarrow> int \<times> u32 \<Rightarrow> 'f ew_tables \<times> 's world
     \<Rightarrow> 'f ew_tables \<times> 's world" where
  "ew_event L C F cfg listen_fd ev st =
     (case (ev, st) of ((fd, revents), (t, w)) \<Rightarrow>
        if fd = listen_fd then handle_listen_fd t w
        else if fd < 0 \<or> WORKER_MAX_FDS \<le> fd then (t, w)
        else
          (case s_handoffs t fd of
             Some h \<Rightarrow>
               if revents AND EPOLLIN \<noteq> 0 then handle_handoff_fd L F fd t w
               else if revents AND (EPOLLERR OR EPOLLHUP OR EPOLLRDHUP) \<noteq> 0 then handoff_close fd t w
               else (t, w)
           | None \<Rightarrow>
               (case s_sessions t fd of
                  None \<Rightarrow> (t, close fd (epoll_del fd w))
                | Some s \<Rightarrow> ew_session_event L C F cfg s revents t w)))"

text \<open>
  What epoll may report: at most 128 events, each for another descriptor that is watched.  An \<^verbatim>\<open>epoll_wait\<close> that
  is interrupted changes nothing; one that fails ends the process.
\<close>

definition epoll_reports :: "(int \<times> u32) list \<Rightarrow> 's world \<Rightarrow> bool" where
  "epoll_reports evs w = (length evs \<le> 128 \<and> distinct (map fst evs) \<and> set (map fst evs) \<subseteq> watched (log w))"

subsection \<open>\<^verbatim>\<open>main\<close>\<close>

text \<open>The number of padding bytes: a decimal number that is the whole of the variable.\<close>

definition env_pad_bytes :: "(bytes \<Rightarrow> bytes option) \<Rightarrow> nat" where
  "env_pad_bytes getenv =
     (case getenv (cs ''BENCH2_RESPONSE_PAD_BYTES'') of
        None \<Rightarrow> 114
      | Some v \<Rightarrow>
          if cstr v = [] then 114
          else (let (parsed, used, _) = strtoll (cstr v)
                in if used = length (cstr v) \<and> 0 \<le> parsed then nat parsed else 114))"

definition ew_config_of :: "(bytes \<Rightarrow> bytes option) \<Rightarrow> ew_config" where
  "ew_config_of getenv =
     \<lparr>s_function_name = env_or getenv (cs ''BENCH2_FUNCTION_NAME'') (cs ''bench2-fn-a''),
      s_relay_socket = env_or getenv (cs ''BENCH2_RELAY_SOCKET'') (cs ''/run/bench2/relay.sock''),
      s_response_pad_bytes = env_pad_bytes getenv\<rparr>"

definition ew_socket_dir :: "(bytes \<Rightarrow> bytes option) \<Rightarrow> bytes" where
  "ew_socket_dir getenv = env_or getenv (cs ''BENCH2_SOCKET_DIR'') (cs ''/run/bench2'')"

text \<open>The listener and the epoll instance that watches it, or the exit code.\<close>

definition ew_start :: "(bytes \<Rightarrow> bytes option) \<Rightarrow> 's world \<Rightarrow> (int + ew_config \<times> int \<times> int) \<times> 's world" where
  "ew_start getenv w =
     (let cfg = ew_config_of getenv;
          socket_dir = ew_socket_dir getenv;
          (r, w) = fn_listen (fn_sock_path socket_dir (s_function_name cfg)) (fn_directory socket_dir w)
      in case r of
           Inl c \<Rightarrow> (Inl c, w)
         | Inr listen_fd \<Rightarrow>
             (let (r, w) = unix_set_nonblocking listen_fd w
              in if r \<noteq> 0 then (Inl 1, close listen_fd w)
                 else
                   (let (epoll_fd, w) = sys_newfd w
                    in if epoll_fd < 0 then (Inl 1, close listen_fd w)
                       else
                         (let (r, w) = epoll_add_fd listen_fd w
                          in if r \<noteq> 0 then (Inl 1, close listen_fd (close epoll_fd w))
                             else (Inr (cfg, listen_fd, epoll_fd), w)))))"

subsection \<open>Ownership\<close>

text \<open>Everything in a set has exactly one owner, and nothing else has any.  An owner changes in one place at a time.\<close>

definition one_owner :: "('x \<Rightarrow> 'y \<Rightarrow> bool) \<Rightarrow> 'y set \<Rightarrow> bool" where
  "one_owner own S = (\<forall>y. (y \<in> S \<longleftrightarrow> (\<exists>x. own x y)) \<and> (\<forall>x x'. own x y \<longrightarrow> own x' y \<longrightarrow> x = x'))"

lemma one_owner_move:
  assumes "one_owner own S" and "\<And>x y. y \<noteq> c \<Longrightarrow> own' x y = own x y" and "S' - {c} = S - {c}"
    and "c \<in> S' \<longleftrightarrow> (\<exists>x. own' x c)" and "\<And>x x'. own' x c \<Longrightarrow> own' x' c \<Longrightarrow> x = x'"
  shows "one_owner own' S'"
  unfolding one_owner_def
proof (intro allI conjI impI)
  fix y
  show "y \<in> S' \<longleftrightarrow> (\<exists>x. own' x y)"
    using assms(1-4) by (cases "y = c") (simp_all add: one_owner_def, blast)
  fix x x'
  assume "own' x y" "own' x' y"
  then show "x = x'" using assms(1,2,5) by (cases "y = c") (auto simp: one_owner_def)
qed

lemma one_ownerD: "one_owner own S \<Longrightarrow> own x y \<Longrightarrow> own x' y \<Longrightarrow> x = x'" "one_owner own S \<Longrightarrow> own x y \<Longrightarrow> y \<in> S"
  by (auto simp: one_owner_def)

text \<open>
  The owners of a descriptor: the process (which has those of its start, and those a function of it holds at the
  moment), a session, a hand-over, or the hand-over that has received it.  The owners of a wolfSSL session: the
  process (\<open>None\<close>) or the session of a descriptor.
\<close>

datatype owner = Process | Client | Handover | Received int

fun owns :: "int set \<Rightarrow> 'f ew_tables \<Rightarrow> owner \<Rightarrow> int \<Rightarrow> bool" where
  "owns B t Process fd = (fd \<in> B)"
| "owns B t Client fd = (s_sessions t fd \<noteq> None)"
| "owns B t Handover fd = (s_handoffs t fd \<noteq> None)"
| "owns B t (Received c) fd = (\<exists>h. s_handoffs t c = Some h \<and> hc_client_fd h = fd \<and> 0 \<le> fd)"

fun owns_ssl :: "nat set \<Rightarrow> 'f ew_tables \<Rightarrow> int option \<Rightarrow> nat \<Rightarrow> bool" where
  "owns_ssl P t None p = (p \<in> P)"
| "owns_ssl P t (Some fd) p = (\<exists>s. s_sessions t fd = Some s \<and> es_ssl s = p)"

lemma owns_cases: "(\<exists>x. owns B t x fd) \<longleftrightarrow> owns B t Process fd \<or> owns B t Client fd \<or> owns B t Handover fd \<or> (\<exists>c. owns B t (Received c) fd)"
  by (metis owner.exhaust)

lemma owns_ssl_cases: "(\<exists>x. owns_ssl P t x p) \<longleftrightarrow> p \<in> P \<or> (\<exists>fd s. s_sessions t fd = Some s \<and> es_ssl s = p)"
  by (metis owns_ssl.simps not_None_eq)

text \<open>A transfer between the process and one other owner.\<close>

lemma owns_transfer:
  assumes one: "one_owner (owns B t) S"
    and other: "\<And>x y. x \<noteq> Process \<Longrightarrow> x \<noteq> o' \<Longrightarrow> owns B' t' x y = owns B t x y"
    and away: "\<And>y. y \<noteq> c \<Longrightarrow> (y \<in> B') = (y \<in> B) \<and> owns B' t' o' y = owns B t o' y"
    and swap: "o' \<noteq> Process" "c \<in> B \<and> c \<notin> B' \<and> owns B' t' o' c \<or> owns B t o' c \<and> c \<in> B' \<and> \<not> owns B' t' o' c"
  shows "one_owner (owns B' t') S"
proof (rule one_owner_move [OF one, of c])
  fix x y
  assume "y \<noteq> c"
  with other away show "owns B' t' x y = owns B t x y" by (cases "x = Process"; cases "x = o'") auto
next
  have from_old: "x = Process \<or> x = o'" if "owns B' t' x c" for x
  proof (rule ccontr)
    assume n: "\<not> ?thesis"
    then have "owns B t x c" using other that by blast
    moreover have "owns B t Process c \<or> owns B t o' c" using swap(2) by auto
    ultimately show False using one_ownerD(1) [OF one] n by blast
  qed
  have only: "\<not> (owns B' t' Process c \<and> owns B' t' o' c)" using swap(2) by auto
  show "c \<in> S \<longleftrightarrow> (\<exists>x. owns B' t' x c)"
    using swap(2) one_ownerD(2) [OF one, of Process c] one_ownerD(2) [OF one, of o' c] by (auto intro: exI [of _ Process])
  show "x = x'" if "owns B' t' x c" "owns B' t' x' c" for x x'
    using from_old that only by blast
qed simp

abbreviation put_session :: "int \<Rightarrow> 'f worker_session option \<Rightarrow> 'f ew_tables \<Rightarrow> 'f ew_tables" where
  "put_session fd s t \<equiv> t\<lparr>s_sessions := (s_sessions t)(fd := s)\<rparr>"

abbreviation put_handoff :: "int \<Rightarrow> handoff_conn option \<Rightarrow> 'f ew_tables \<Rightarrow> 'f ew_tables" where
  "put_handoff fd h t \<equiv> t\<lparr>s_handoffs := (s_handoffs t)(fd := h)\<rparr>"

lemma owns_other_tables:
  "x \<noteq> Process \<Longrightarrow> x \<noteq> Client \<Longrightarrow> owns B' (put_session fd s t) x y = owns B t x y"
  "x \<noteq> Process \<Longrightarrow> owns B t x y = owns {} t x y"
  by (cases x; simp)+

lemma owns_take_client:
  assumes "one_owner (owns B t) S" and "s_sessions t fd = Some s"
  shows "one_owner (owns (insert fd B) (put_session fd None t)) S"
  by (rule owns_transfer [OF assms(1), of Client _ _ fd]) (simp_all add: owns_other_tables(1) assms)

lemma owns_give_client:
  assumes "one_owner (owns B t) S" and "fd \<in> B"
  shows "one_owner (owns (B - {fd}) (put_session fd (Some s) t)) S"
  by (rule owns_transfer [OF assms(1), of Client _ _ fd]) (simp_all add: owns_other_tables(1) assms)

lemma owns_same_client:
  assumes "one_owner (owns B t) S" and "s_sessions t fd \<noteq> None"
  shows "one_owner (owns B (put_session fd (Some s) t)) S"
proof -
  have "owns B (put_session fd (Some s) t) x y = owns B t x y" for x y
    using assms(2) by (cases x) simp_all
  with assms(1) show ?thesis by (simp add: one_owner_def)
qed

lemma owns_take_handover:
  assumes "one_owner (owns B t) S" and "s_handoffs t fd = Some h" and "hc_client_fd h < 0"
  shows "one_owner (owns (insert fd B) (put_handoff fd None t)) S"
proof (rule owns_transfer [OF assms(1), of Handover _ _ fd])
  show "owns (insert fd B) (put_handoff fd None t) x y = owns B t x y" if "x \<noteq> Process" "x \<noteq> Handover" for x y
    using that assms(2,3) by (cases x) auto
qed (simp_all add: assms)

lemma owns_give_handover:
  assumes "one_owner (owns B t) S" and "fd \<in> B" and "hc_client_fd h < 0"
  shows "one_owner (owns (B - {fd}) (put_handoff fd (Some h) t)) S"
proof (rule owns_transfer [OF assms(1), of Handover _ _ fd])
  have "s_handoffs t fd = None" using one_ownerD(1) [OF assms(1), of Process fd Handover] assms(2)
    by (cases "s_handoffs t fd") auto
  then show "owns (B - {fd}) (put_handoff fd (Some h) t) x y = owns B t x y" if "x \<noteq> Process" "x \<noteq> Handover" for x y
    using that assms(3) by (cases x) auto
qed (simp_all add: assms)

lemma owns_take_received:
  assumes "one_owner (owns B t) S" and "s_handoffs t fd = Some h" and "0 \<le> hc_client_fd h" and "hc_client_fd h' < 0"
  shows "one_owner (owns (insert (hc_client_fd h) B) (put_handoff fd (Some h') t)) S"
proof (rule owns_transfer [OF assms(1), of "Received fd" _ _ "hc_client_fd h"])
  show "owns (insert (hc_client_fd h) B) (put_handoff fd (Some h') t) x y = owns B t x y"
    if "x \<noteq> Process" "x \<noteq> Received fd" for x y
    using that assms(2) by (cases x) auto
qed (use assms in auto)

lemma owns_give_received:
  assumes "one_owner (owns B t) S" and "s_handoffs t fd = Some h" and "hc_client_fd h < 0"
    and "hc_client_fd h' \<in> B" and "0 \<le> hc_client_fd h'"
  shows "one_owner (owns (B - {hc_client_fd h'}) (put_handoff fd (Some h') t)) S"
proof (rule owns_transfer [OF assms(1), of "Received fd" _ _ "hc_client_fd h'"])
  show "owns (B - {hc_client_fd h'}) (put_handoff fd (Some h') t) x y = owns B t x y"
    if "x \<noteq> Process" "x \<noteq> Received fd" for x y
    using that assms(2) by (cases x) auto
qed (use assms in auto)

lemma owns_same_handover:
  assumes "one_owner (owns B t) S" and "s_handoffs t fd = Some h" and "hc_client_fd h' = hc_client_fd h"
  shows "one_owner (owns B (put_handoff fd (Some h') t)) S"
proof -
  have "owns B (put_handoff fd (Some h') t) x y = owns B t x y" for x y
    using assms(2,3) by (cases x) auto
  with assms(1) show ?thesis by (simp add: one_owner_def)
qed

text \<open>Opening and closing a descriptor of the process.\<close>

lemma owns_open:
  assumes "one_owner (owns B t) S" and "fd \<notin> S"
  shows "one_owner (owns (insert fd B) t) (insert fd S)"
proof (rule one_owner_move [OF assms(1), of fd])
  have none: "\<not> owns B t x fd" for x using one_ownerD(2) [OF assms(1)] assms(2) by blast
  have only: "owns (insert fd B) t x fd \<Longrightarrow> x = Process" for x using none [of x] by (cases x) auto
  show "(fd \<in> insert fd S) = (\<exists>x. owns (insert fd B) t x fd)" by (auto intro: exI [of _ Process])
  show "x = x'" if "owns (insert fd B) t x fd" "owns (insert fd B) t x' fd" for x x' using only that by blast
  show "owns (insert fd B) t x y = owns B t x y" if "y \<noteq> fd" for x y using that by (cases x) auto
qed auto

lemma owns_close:
  assumes "one_owner (owns B t) S" and "fd \<in> B"
  shows "one_owner (owns (B - {fd}) t) (S - {fd})"
proof (rule one_owner_move [OF assms(1), of fd])
  have a: "x = Process" if "owns B t x fd" for x using one_ownerD(1) [OF assms(1) that, of Process] assms(2) by simp
  have none: "\<not> owns (B - {fd}) t x fd" for x
  proof
    assume o: "owns (B - {fd}) t x fd"
    then have "owns B t x fd" by (cases x) auto
    with a have "x = Process" by blast
    with o show False by simp
  qed
  then show "(fd \<in> S - {fd}) = (\<exists>x. owns (B - {fd}) t x fd)" by simp
  show "x = x'" if "owns (B - {fd}) t x fd" "owns (B - {fd}) t x' fd" for x x' using none that by blast
  show "owns (B - {fd}) t x y = owns B t x y" if "y \<noteq> fd" for x y using that by (cases x) auto
qed auto

text \<open>The same for wolfSSL sessions.\<close>

lemma owns_ssl_take:
  assumes "one_owner (owns_ssl P t) S" and "s_sessions t fd = Some s"
  shows "one_owner (owns_ssl (insert (es_ssl s) P) (put_session fd None t)) S"
proof (rule one_owner_move [OF assms(1), of "es_ssl s"])
  have a: "x = Some fd" if "owns_ssl P t x (es_ssl s)" for x
    using one_ownerD(1) [OF assms(1) that, of "Some fd"] assms(2) by simp
  have only: "x = None" if "owns_ssl (insert (es_ssl s) P) (put_session fd None t) x (es_ssl s)" for x
    using that a [of x] by (cases x) (auto split: if_splits)
  show "x = x'" if "owns_ssl (insert (es_ssl s) P) (put_session fd None t) x (es_ssl s)"
    "owns_ssl (insert (es_ssl s) P) (put_session fd None t) x' (es_ssl s)" for x x'
    using only that by blast
  have "es_ssl s \<in> S" using one_ownerD(2) [OF assms(1), of "Some fd"] assms(2) by simp
  then show "(es_ssl s \<in> S) = (\<exists>x. owns_ssl (insert (es_ssl s) P) (put_session fd None t) x (es_ssl s))"
    by (auto intro: exI [of _ None])
  show "owns_ssl (insert (es_ssl s) P) (put_session fd None t) x p = owns_ssl P t x p" if "p \<noteq> es_ssl s" for x p
    using that assms(2) by (cases x) auto
qed simp

lemma owns_ssl_give:
  assumes "one_owner (owns_ssl P t) S" and "s_sessions t fd = None" and "es_ssl s \<in> P"
  shows "one_owner (owns_ssl (P - {es_ssl s}) (put_session fd (Some s) t)) S"
proof (rule one_owner_move [OF assms(1), of "es_ssl s"])
  have a: "x = None" if "owns_ssl P t x (es_ssl s)" for x
    using one_ownerD(1) [OF assms(1) that, of None] assms(3) by simp
  have only: "x = Some fd" if "owns_ssl (P - {es_ssl s}) (put_session fd (Some s) t) x (es_ssl s)" for x
    using that a [of x] by (cases x) (auto split: if_splits)
  show "x = x'" if "owns_ssl (P - {es_ssl s}) (put_session fd (Some s) t) x (es_ssl s)"
    "owns_ssl (P - {es_ssl s}) (put_session fd (Some s) t) x' (es_ssl s)" for x x'
    using only that by blast
  have "es_ssl s \<in> S" using one_ownerD(2) [OF assms(1), of None] assms(3) by simp
  then show "(es_ssl s \<in> S) = (\<exists>x. owns_ssl (P - {es_ssl s}) (put_session fd (Some s) t) x (es_ssl s))"
    by (auto intro: exI [of _ "Some fd"])
  show "owns_ssl (P - {es_ssl s}) (put_session fd (Some s) t) x p = owns_ssl P t x p" if "p \<noteq> es_ssl s" for x p
    using that assms(2) by (cases x) auto
qed simp

lemma owns_ssl_same:
  assumes "one_owner (owns_ssl P t) S" and "s_sessions t fd = Some s" and "es_ssl s' = es_ssl s"
  shows "one_owner (owns_ssl P (put_session fd (Some s') t)) S"
proof -
  have "owns_ssl P (put_session fd (Some s') t) x p = owns_ssl P t x p" for x p
    using assms(2,3) by (cases x) auto
  with assms(1) show ?thesis by (simp add: one_owner_def)
qed

lemma owns_ssl_handoff: "owns_ssl P (put_handoff fd h t) = owns_ssl P t"
proof (intro ext)
  show "owns_ssl P (put_handoff fd h t) x p = owns_ssl P t x p" for x p by (cases x) simp_all
qed

lemma owns_ssl_new:
  assumes "one_owner (owns_ssl P t) S" and "p \<notin> S"
  shows "one_owner (owns_ssl (insert p P) t) (insert p S)"
proof (rule one_owner_move [OF assms(1), of p])
  have none: "\<not> owns_ssl P t x p" for x using one_ownerD(2) [OF assms(1)] assms(2) by blast
  have only: "owns_ssl (insert p P) t x p \<Longrightarrow> x = None" for x using none [of x] by (cases x) auto
  show "(p \<in> insert p S) = (\<exists>x. owns_ssl (insert p P) t x p)" by (auto intro: exI [of _ None])
  show "x = x'" if "owns_ssl (insert p P) t x p" "owns_ssl (insert p P) t x' p" for x x' using only that by blast
  show "owns_ssl (insert p P) t x q = owns_ssl P t x q" if "q \<noteq> p" for x q using that by (cases x) auto
qed auto

lemma owns_ssl_free:
  assumes "one_owner (owns_ssl P t) S" and "p \<in> P"
  shows "one_owner (owns_ssl (P - {p}) t) (S - {p})"
proof (rule one_owner_move [OF assms(1), of p])
  have a: "x = None" if "owns_ssl P t x p" for x using one_ownerD(1) [OF assms(1) that, of None] assms(2) by simp
  have none: "\<not> owns_ssl (P - {p}) t x p" for x using a [of x] by (cases x) auto
  then show "(p \<in> S - {p}) = (\<exists>x. owns_ssl (P - {p}) t x p)" by simp
  show "x = x'" if "owns_ssl (P - {p}) t x p" "owns_ssl (P - {p}) t x' p" for x x' using none that by blast
  show "owns_ssl (P - {p}) t x q = owns_ssl P t x q" if "q \<noteq> p" for x q using that by (cases x) auto
qed auto

subsection \<open>The invariant of the worker\<close>

text \<open>
  \<open>B\<close> and \<open>P\<close> are the descriptors and wolfSSL sessions of the process itself, \<open>W\<close> the descriptors of its own that may be
  watched.
\<close>

definition ew_inv ::
  "'f cdouble_num \<Rightarrow> ew_config \<Rightarrow> int set \<Rightarrow> nat set \<Rightarrow> int set \<Rightarrow> 'f ew_tables \<Rightarrow> 's world \<Rightarrow> bool" where
  "ew_inv F cfg B P W t w =
     (fd_wf w \<and> ssl_wf w
    \<and> one_owner (owns B t) (set (fds w)) \<and> one_owner (owns_ssl P t) (live w)
    \<and> (\<forall>fd s. s_sessions t fd = Some s \<longrightarrow>
          0 \<le> fd \<and> fd < WORKER_MAX_FDS \<and> es_fd s = fd \<and> sends_in_order F cfg s (log w))
    \<and> (\<forall>fd h. s_handoffs t fd = Some h \<longrightarrow>
          0 \<le> fd \<and> fd < WORKER_MAX_FDS \<and> hc_fd h = fd \<and> length (hc_data h) < SIZEOF_payload)
    \<and> (\<forall>p \<ge> next_ssl w. tls_output p (log w) = [])
    \<and> watched (log w) \<subseteq> W \<union> dom (s_sessions t) \<union> dom (s_handoffs t))"

lemma ew_invD:
  assumes "ew_inv F cfg B P W t w"
  shows "fd_wf w" "ssl_wf w" "one_owner (owns B t) (set (fds w))" "one_owner (owns_ssl P t) (live w)"
    "s_sessions t fd = Some s \<Longrightarrow> 0 \<le> fd \<and> fd < WORKER_MAX_FDS \<and> es_fd s = fd \<and> sends_in_order F cfg s (log w)"
    "s_handoffs t fd = Some h \<Longrightarrow>
       0 \<le> fd \<and> fd < WORKER_MAX_FDS \<and> hc_fd h = fd \<and> length (hc_data h) < SIZEOF_payload"
    "\<forall>p \<ge> next_ssl w. tls_output p (log w) = []"
    "watched (log w) \<subseteq> W \<union> dom (s_sessions t) \<union> dom (s_handoffs t)"
  using assms by (auto simp: ew_inv_def)

lemma ew_inv_owned:
  assumes "ew_inv F cfg B P W t w"
  shows "fd \<in> B \<Longrightarrow> fd \<in> set (fds w)" "s_sessions t fd \<noteq> None \<Longrightarrow> fd \<in> set (fds w)"
    "s_handoffs t fd \<noteq> None \<Longrightarrow> fd \<in> set (fds w)" "p \<in> P \<Longrightarrow> p \<in> live w"
    "s_sessions t fd = Some s \<Longrightarrow> es_ssl s \<in> live w"
    "fd \<in> B \<Longrightarrow> s_sessions t fd = None \<and> s_handoffs t fd = None"
    "s_sessions t fd \<noteq> None \<Longrightarrow> s_handoffs t fd = None"
proof -
  note o = ew_invD(3) [OF assms] and q = ew_invD(4) [OF assms]
  show "fd \<in> B \<Longrightarrow> fd \<in> set (fds w)" using one_ownerD(2) [OF o, of Process fd] by simp
  show "s_sessions t fd \<noteq> None \<Longrightarrow> fd \<in> set (fds w)" using one_ownerD(2) [OF o, of Client fd] by simp
  show "s_handoffs t fd \<noteq> None \<Longrightarrow> fd \<in> set (fds w)" using one_ownerD(2) [OF o, of Handover fd] by simp
  show "p \<in> P \<Longrightarrow> p \<in> live w" using one_ownerD(2) [OF q, of None p] by simp
  show "s_sessions t fd = Some s \<Longrightarrow> es_ssl s \<in> live w" using one_ownerD(2) [OF q, of "Some fd" "es_ssl s"] by simp
  show "fd \<in> B \<Longrightarrow> s_sessions t fd = None \<and> s_handoffs t fd = None"
    using one_ownerD(1) [OF o, of Process fd Client] one_ownerD(1) [OF o, of Process fd Handover]
    by (cases "s_sessions t fd"; cases "s_handoffs t fd") auto
  show "s_sessions t fd \<noteq> None \<Longrightarrow> s_handoffs t fd = None"
    using one_ownerD(1) [OF o, of Client fd Handover] by (cases "s_handoffs t fd") auto
qed

text \<open>
  What an operation keeps besides: no undefined behaviour, no double close.  A change that moreover
  keeps the descriptors, the wolfSSL sessions and the output is calm.
\<close>

definition clean :: "'s world \<Rightarrow> 's world \<Rightarrow> bool" where
  "clean w w' = (ub w' = ub w \<and> bad_closes (log w') = bad_closes (log w))"

definition calm :: "'s world \<Rightarrow> 's world \<Rightarrow> bool" where
  "calm w w' =
     (clean w w' \<and> fds w' = fds w \<and> live w' = live w \<and> next_ssl w' = next_ssl w
    \<and> watched (log w') \<subseteq> watched (log w) \<and> (\<forall>q. tls_output q (log w') = tls_output q (log w)))"

lemma clean_refl [simp]: "clean w w"
  by (simp add: clean_def)

lemma clean_trans: "clean w w1 \<Longrightarrow> clean w1 w2 \<Longrightarrow> clean w w2"
  by (auto simp: clean_def)

lemma calm_refl [simp]: "calm w w"
  by (simp add: calm_def)

lemma calm_trans: "calm w w1 \<Longrightarrow> calm w1 w2 \<Longrightarrow> calm w w2"
  by (auto simp: calm_def intro: clean_trans)

lemma calm_clean: "calm w w' \<Longrightarrow> clean w w'"
  by (simp add: calm_def)

lemma sess_io_clean: "sess_io p w w' \<Longrightarrow> p \<in> live w \<Longrightarrow> clean w w'"
  by (simp add: sess_io_def session_io_def clean_def)

lemma calm_prims:
  "calm w (snd (sys_status w))" "calm w (snd (sys_alloc w))" "calm w (epoll_del fd w)"
  "calm w (snd (unix_set_nonblocking fd w))"
  by (auto simp: calm_def clean_def epoll_del_def unix_set_nonblocking_def Let_def split_beta)

lemma calm_ssl:
  "p \<in> live w \<Longrightarrow> calm w (wolfSSL_set_fd L p fd w)"
  "p \<in> live w \<Longrightarrow> unat (ser_blob_sz s) \<le> 16384 \<Longrightarrow> calm w (snd (tlspeek_restore L p s w))"
  by (simp_all add: calm_def clean_def ub_tlspeek_restore)

lemma sends_output:
  "tls_output (es_ssl s) l' = tls_output (es_ssl s) l \<Longrightarrow> sends_in_order F cfg s l' = sends_in_order F cfg s l"
  by (simp add: sends_in_order_def)

lemma ew_inv_world:
  assumes inv: "ew_inv F cfg B P W t w"
    and "fds w' = fds w" "live w' = live w" "next_ssl w' = next_ssl w" "watched (log w') \<subseteq> watched (log w)"
    and "\<And>q. tls_output q (log w') = tls_output q (log w)"
  shows "ew_inv F cfg B P W t w'"
proof -
  have "sends_in_order F cfg s (log w')" if "s_sessions t fd = Some s" for fd s
    using ew_invD(5) [OF inv that] sends_output assms(6) by blast
  with ew_invD [OF inv] assms(2-6) show ?thesis
    unfolding ew_inv_def fd_wf_def ssl_wf_def by (auto dest: subsetD)
qed

lemma ew_inv_calm: "ew_inv F cfg B P W t w \<Longrightarrow> calm w w' \<Longrightarrow> ew_inv F cfg B P W t w'"
  unfolding calm_def by (rule ew_inv_world) simp_all

text \<open>The process opens, closes, creates and frees.\<close>

lemma ew_inv_open:
  assumes inv: "ew_inv F cfg B P W t w" and "fds w' = fd # fds w" "fd \<notin> set (fds w)" "live w' = live w"
    "next_ssl w' = next_ssl w" "watched (log w') \<subseteq> watched (log w)" "\<And>q. tls_output q (log w') = tls_output q (log w)"
  shows "ew_inv F cfg (insert fd B) P W t w'"
proof -
  have "sends_in_order F cfg s (log w')" if "s_sessions t c = Some s" for c s
    using ew_invD(5) [OF inv that] sends_output assms(7) by blast
  with ew_invD [OF inv] assms(2-7) owns_open [OF ew_invD(3) [OF inv] assms(3)] show ?thesis
    unfolding ew_inv_def fd_wf_def ssl_wf_def by (auto dest: subsetD)
qed

lemma ew_inv_close:
  assumes inv: "ew_inv F cfg B P W t w" and fd: "fd \<in> B"
  shows "ew_inv F cfg (B - {fd}) P (W - {fd}) t (close fd w)" "clean w (close fd w)"
proof -
  have o: "fd \<in> set (fds w)" using ew_inv_owned(1) [OF inv fd] .
  then have l: "log (close fd w) = EvClose fd # log w" by simp
  have so: "sends_in_order F cfg s (log (close fd w))" if "s_sessions t c = Some s" for c s
    using ew_invD(5) [OF inv that] sends_output [of s "log (close fd w)" "log w"] by (simp add: l)
  have f: "set (fds (close fd w)) = set (fds w) - {fd}" using ew_invD(1) [OF inv] by (simp add: fd_wf_def)
  have n: "fd \<notin> dom (s_sessions t) \<union> dom (s_handoffs t)" using ew_inv_owned(6) [OF inv fd] by auto
  have "watched (log (close fd w)) \<subseteq> W - {fd} \<union> dom (s_sessions t) \<union> dom (s_handoffs t)"
    using ew_invD(8) [OF inv] n o by (auto simp: l)
  moreover have "one_owner (owns (B - {fd}) t) (set (fds (close fd w)))"
    unfolding f by (rule owns_close [OF ew_invD(3) [OF inv] fd])
  moreover have "ssl_wf (close fd w)" using ew_invD(2) [OF inv] by (simp add: ssl_wf_def)
  moreover have "\<forall>p \<ge> next_ssl (close fd w). tls_output p (log (close fd w)) = []" using ew_invD(7) [OF inv] by (simp add: l)
  ultimately show "ew_inv F cfg (B - {fd}) P (W - {fd}) t (close fd w)"
    using ew_invD(4-6) [OF inv] fd_wf_close [OF ew_invD(1) [OF inv]] so
    unfolding ew_inv_def close_frame(5) by blast
  show "clean w (close fd w)" using o by (simp add: clean_def)
qed

lemma ew_inv_new_ssl:
  assumes inv: "ew_inv F cfg B P W t w" and "wolfSSL_new L w = (Some p, w')"
  shows "ew_inv F cfg B (insert p P) W t w'" "clean w w'" "p \<in> live w'" "tls_output p (log w') = []" "log w' = log w"
proof -
  have n: "fst (wolfSSL_new L w) = Some p" "w' = snd (wolfSSL_new L w)" using assms(2) by simp_all
  have p: "p = next_ssl w" using wolfSSL_new_ptr [OF n(1)] .
  have fresh: "p \<notin> live w" using ssl_wf_fresh ew_invD(2) [OF inv] p by blast
  have w': "fds w' = fds w" "live w' = insert p (live w)" "next_ssl w' = Suc p" "log w' = log w" "ub w' = ub w"
    using n(1) p by (simp_all add: n(2))
  show "log w' = log w" by (rule w')
  show "p \<in> live w'" using w' by simp
  show "tls_output p (log w') = []" using ew_invD(7) [OF inv] w' p by simp
  show "clean w w'" by (simp add: clean_def w')
  have "ssl_wf w'" using ew_invD(2) [OF inv] w' p by (auto simp: ssl_wf_def intro: less_SucI)
  moreover have "\<forall>q \<ge> next_ssl w'. tls_output q (log w') = []" using ew_invD(7) [OF inv] w' p by simp
  ultimately show "ew_inv F cfg B (insert p P) W t w'"
    using ew_invD [OF inv] owns_ssl_new [OF ew_invD(4) [OF inv] fresh] w' unfolding ew_inv_def fd_wf_def by simp
qed

lemma ew_inv_free:
  assumes inv: "ew_inv F cfg B P W t w" and p: "p \<in> P"
  shows "ew_inv F cfg B (P - {p}) W t (wolfSSL_free p w)" "clean w (wolfSSL_free p w)"
proof -
  have l: "p \<in> live w" using ew_inv_owned(4) [OF inv p] .
  have "sends_in_order F cfg s (log (wolfSSL_free p w))" if "s_sessions t c = Some s" for c s
    using ew_invD(5) [OF inv that] sends_output [of s "log (wolfSSL_free p w)" "log w"] l by simp
  then show "ew_inv F cfg B (P - {p}) W t (wolfSSL_free p w)"
    using ew_invD [OF inv] owns_ssl_free [OF ew_invD(4) [OF inv] p] l
    unfolding ew_inv_def ssl_wf_def fd_wf_def by simp
  show "clean w (wolfSSL_free p w)" using l by (simp add: clean_def)
qed

text \<open>Ownership moves between the process and the tables.\<close>

lemma ew_inv_take_client:
  assumes inv: "ew_inv F cfg B P W t w" and s: "s_sessions t fd = Some s"
  shows "ew_inv F cfg (insert fd B) (insert (es_ssl s) P) (insert fd W) (put_session fd None t) w"
  using ew_invD [OF inv] owns_take_client [OF ew_invD(3) [OF inv] s] owns_ssl_take [OF ew_invD(4) [OF inv] s]
  unfolding ew_inv_def by auto

lemma ew_inv_give_client:
  assumes inv: "ew_inv F cfg B P W t w" and fd: "fd \<in> B" and p: "es_ssl s \<in> P"
    and "0 \<le> fd" "fd < WORKER_MAX_FDS" "es_fd s = fd" "sends_in_order F cfg s (log w)"
  shows "ew_inv F cfg (B - {fd}) (P - {es_ssl s}) W (put_session fd (Some s) t) w"
proof -
  have "s_sessions t fd = None" using ew_inv_owned(6) [OF inv fd] by simp
  with ew_invD [OF inv] owns_give_client [OF ew_invD(3) [OF inv] fd] owns_ssl_give [OF ew_invD(4) [OF inv] _ p] assms(4-)
  show ?thesis unfolding ew_inv_def by auto
qed

lemma ew_inv_same_client:
  assumes inv: "ew_inv F cfg B P W t w" and s: "s_sessions t fd = Some s" and io: "sess_io (es_ssl s) w w'"
    and c: "same_conn s s'" and so: "sends_in_order F cfg s' (log w')"
  shows "ew_inv F cfg B P W (put_session fd (Some s') t) w'"
proof -
  have l: "es_ssl s \<in> live w" using ew_inv_owned(5) [OF inv s] .
  have w': "fds w' = fds w" "live w' = live w" "next_ssl w' = next_ssl w" "watched (log w') = watched (log w)"
    and out: "\<And>q. q \<noteq> es_ssl s \<Longrightarrow> tls_output q (log w') = tls_output q (log w)"
    using io by (simp_all add: sess_io_def session_io_def)
  have "es_ssl s < next_ssl w" using l ew_invD(2) [OF inv] by (simp add: ssl_wf_def)
  then have fresh: "tls_output p (log w') = []" if "next_ssl w' \<le> p" for p
    using ew_invD(7) [OF inv] out [of p] that w'(3) by simp
  have others: "sends_in_order F cfg s2 (log w')" if "s_sessions t c = Some s2" "c \<noteq> fd" for c s2
  proof -
    have "es_ssl s2 \<noteq> es_ssl s"
      using one_ownerD(1) [OF ew_invD(4) [OF inv], of "Some c" "es_ssl s" "Some fd"] s that by auto
    with ew_invD(5) [OF inv that(1)] sends_output out show ?thesis by blast
  qed
  have f: "es_ssl s' = es_ssl s" "es_fd s' = es_fd s" using c by (simp_all add: same_conn_def)
  have o: "one_owner (owns B (put_session fd (Some s') t)) (set (fds w'))"
    using owns_same_client [OF ew_invD(3) [OF inv]] s w' by simp
  have q: "one_owner (owns_ssl P (put_session fd (Some s') t)) (live w')"
    using owns_ssl_same [OF ew_invD(4) [OF inv] s f(1)] w' by simp
  have wt: "watched (log w') \<subseteq> W \<union> dom (s_sessions (put_session fd (Some s') t)) \<union> dom (s_handoffs t)"
    using ew_invD(8) [OF inv] w'(4) by auto
  show ?thesis
    using ew_invD [OF inv] o q wt fresh others s so f w' unfolding ew_inv_def fd_wf_def ssl_wf_def by auto
qed

text \<open>The descriptor a hand-over has received goes with it.\<close>

definition received :: "handoff_conn \<Rightarrow> int set" where
  "received h = (if 0 \<le> hc_client_fd h then {hc_client_fd h} else {})"

lemma ew_inv_take_handover:
  assumes inv: "ew_inv F cfg B P W t w" and h: "s_handoffs t fd = Some h"
  shows "ew_inv F cfg (insert fd (received h \<union> B)) P (insert fd W) (put_handoff fd None t) w"
proof -
  note o = ew_invD(3) [OF inv]
  have "one_owner (owns (insert fd (received h \<union> B)) (put_handoff fd None t)) (set (fds w))"
  proof (cases "hc_client_fd h < 0")
    case True
    with owns_take_handover [OF o h] show ?thesis by (simp add: received_def)
  next
    case False
    let ?h = "h\<lparr>hc_client_fd := -1\<rparr>"
    have 1: "one_owner (owns (insert (hc_client_fd h) B) (put_handoff fd (Some ?h) t)) (set (fds w))"
      by (rule owns_take_received [OF o h]) (use False in simp_all)
    from owns_take_handover [OF 1, of fd ?h] False show ?thesis by (simp add: received_def)
  qed
  with ew_invD [OF inv] owns_ssl_handoff [of P t fd None] show ?thesis unfolding ew_inv_def by auto
qed

lemma ew_inv_give_handover:
  assumes inv: "ew_inv F cfg B P W t w" and fd: "fd \<in> B" "0 \<le> fd" "fd < WORKER_MAX_FDS" "hc_fd h = fd"
    and h: "received h \<subseteq> B - {fd}" "length (hc_data h) < SIZEOF_payload"
  shows "ew_inv F cfg (B - insert fd (received h)) P (W - {fd}) (put_handoff fd (Some h) t) w"
proof -
  let ?h = "h\<lparr>hc_client_fd := -1\<rparr>"
  have 1: "one_owner (owns (B - {fd}) (put_handoff fd (Some ?h) t)) (set (fds w))"
    by (rule owns_give_handover [OF ew_invD(3) [OF inv] fd(1)]) simp
  have "one_owner (owns (B - insert fd (received h)) (put_handoff fd (Some h) t)) (set (fds w))"
  proof (cases "0 \<le> hc_client_fd h")
    case True
    have "one_owner (owns (B - {fd} - {hc_client_fd h}) (put_handoff fd (Some h) (put_handoff fd (Some ?h) t))) (set (fds w))"
      by (rule owns_give_received [OF 1, of fd ?h]) (use h True in \<open>simp_all add: received_def\<close>)
    moreover have "B - {fd} - {hc_client_fd h} = B - insert fd (received h)" using True by (auto simp: received_def)
    ultimately show ?thesis by simp
  next
    case False
    have "one_owner (owns (B - {fd}) (put_handoff fd (Some h) t)) (set (fds w))"
      by (rule owns_give_handover [OF ew_invD(3) [OF inv] fd(1)]) (use False in simp)
    with False show ?thesis by (simp add: received_def)
  qed
  moreover have "watched (log w) \<subseteq> W - {fd} \<union> dom (s_sessions t) \<union> dom ((s_handoffs t)(fd \<mapsto> h))"
    using ew_invD(8) [OF inv] by auto
  ultimately show ?thesis
    using ew_invD [OF inv] owns_ssl_handoff [of P t fd "Some h"] fd h(2) unfolding ew_inv_def by auto
qed

text \<open>A registration of one's own.\<close>

lemma ew_inv_add:
  assumes inv: "ew_inv F cfg B P W t w" and fd: "fd \<in> W \<union> dom (s_sessions t) \<union> dom (s_handoffs t)"
  shows "ew_inv F cfg B P W t (snd (epoll_add_fd fd w))" "clean w (snd (epoll_add_fd fd w))"
proof -
  let ?w = "snd (epoll_add_fd fd w)"
  have f: "fds ?w = fds w" "live ?w = live w" "next_ssl ?w = next_ssl w" "ub ?w = ub w"
    "watched (log ?w) \<subseteq> insert fd (watched (log w))" "bad_closes (log ?w) = bad_closes (log w)"
    "tls_output q (log ?w) = tls_output q (log w)" for q
    by (auto simp: epoll_add_fd_def epoll_call_def split_beta)
  have "sends_in_order F cfg s (log ?w)" if "s_sessions t c = Some s" for c s
    using ew_invD(5) [OF inv that] sends_output f(7) by blast
  with ew_invD [OF inv] f(1-3,5,7) fd show "ew_inv F cfg B P W t ?w"
    unfolding ew_inv_def fd_wf_def ssl_wf_def by (auto dest!: subsetD [OF f(5)] subsetD [OF ew_invD(8) [OF inv]])
  show "clean w ?w" using f(4,6) by (simp add: clean_def)
qed

subsection \<open>Operations keep the invariant\<close>

lemma b2_relay_eq: "b2_relay_to_gateway fd pl rl = connect_and_send rl (payload_bytes pl) fd"
  by (intro ext) (simp add: b2_relay_to_gateway_def ka_relay_eq)

interpretation b2_relay: fd_handoff "\<lambda>fd. b2_relay_to_gateway fd pl rl"
  for pl rl
  unfolding b2_relay_eq by (rule connect_and_send_handoff)

lemma closing_events:
  "\<forall>e \<in> set evs. \<exists>x. e = EvClose x \<Longrightarrow> watched (evs @ l) \<subseteq> watched l \<and> tls_output q (evs @ l) = tls_output q l"
  by (induction evs) auto

lemma connect_and_send_watched:
  assumes fd: "fd \<in> set (fds w)" "0 \<le> fd" and wf: "fd_wf w"
  shows "watched (log (snd (connect_and_send path pl fd w))) \<subseteq> watched (log w) - {fd}"
    "tls_output q (log (snd (connect_and_send path pl fd w))) = tls_output q (log w)"
proof -
  let ?l = "log (snd (connect_and_send path pl fd w))"
  have c: "watched (EvClose fd # evs @ log w) \<subseteq> watched (log w) - {fd} \<and> tls_output q (EvClose fd # evs @ log w) = tls_output q (log w)"
    if "\<forall>e \<in> set evs. \<exists>x. x \<notin> set (fds w) \<and> e = EvClose x" for evs
    using closing_events [of evs "log w" q] that by auto
  have "watched ?l \<subseteq> watched (log w) - {fd} \<and> tls_output q ?l = tls_output q (log w)"
    by (cases rule: connect_and_send_cases [OF fd wf, of path pl]) (use c in auto)
  then show "watched ?l \<subseteq> watched (log w) - {fd}" "tls_output q ?l = tls_output q (log w)" by simp_all
qed

text \<open>A relayed connection leaves the process, and nothing else does.\<close>

lemma ew_inv_relay:
  assumes inv: "ew_inv F cfg B P W t w" and fd: "fd \<in> B" "0 \<le> fd"
  shows "ew_inv F cfg (B - {fd}) P (W - {fd}) t (snd (b2_relay_to_gateway fd pl rl w))"
    "clean w (snd (b2_relay_to_gateway fd pl rl w))"
proof -
  have o: "fd \<in> set (fds w)" using ew_inv_owned(1) [OF inv fd(1)] .
  note wf = ew_invD(1) [OF inv]
  let ?w = "snd (b2_relay_to_gateway fd pl rl w)"
  have tb: "fd_wf ?w" "set (fds ?w) = set (fds w) - {fd}"
    using b2_relay.table [OF wf o fd(2), of pl rl] by simp_all
  have fr: "live ?w = live w" "ub ?w = ub w" "next_ssl ?w = next_ssl w"
    by (simp_all add: b2_relay_eq connect_and_send_frame)
  have wt: "watched (log ?w) \<subseteq> watched (log w) - {fd}" and out: "\<And>q. tls_output q (log ?w) = tls_output q (log w)"
    using connect_and_send_watched [OF o fd(2) wf] by (simp_all add: b2_relay_eq)
  have so: "sends_in_order F cfg s (log ?w)" if "s_sessions t c = Some s" for c s
    using ew_invD(5) [OF inv that] sends_output [of s "log ?w" "log w"] out by simp
  have "one_owner (owns (B - {fd}) t) (set (fds ?w))" unfolding tb by (rule owns_close [OF ew_invD(3) [OF inv] fd(1)])
  moreover have "ssl_wf ?w" using ew_invD(2) [OF inv] fr by (simp add: ssl_wf_def)
  moreover have "\<forall>p \<ge> next_ssl ?w. tls_output p (log ?w) = []" using ew_invD(7) [OF inv] fr out by simp
  moreover have "watched (log ?w) \<subseteq> W - {fd} \<union> dom (s_sessions t) \<union> dom (s_handoffs t)"
    using ew_invD(8) [OF inv] wt by auto
  ultimately show "ew_inv F cfg (B - {fd}) P (W - {fd}) t ?w"
    using ew_invD(4-6) [OF inv] tb(1) so unfolding ew_inv_def fr(1) by blast
  show "clean w ?w"
    using connect_and_send_tidy [OF wf o fd(2), of rl "payload_bytes pl"] fr by (simp add: clean_def tidy_def b2_relay_eq)
qed

text \<open>Closing a session the process holds.\<close>

lemma session_close_eq:
  "session_close s t w =
     (if 0 \<le> es_fd s \<and> es_fd s < WORKER_MAX_FDS
      then (put_session (es_fd s) None t, close (es_fd s) (wolfSSL_free (es_ssl s) (epoll_del (es_fd s) w)))
      else (t, close_if_open (es_fd s) (wolfSSL_free (es_ssl s) w)))"
  by (simp add: session_close_def Let_def close_if_open_def)

lemma session_close_held:
  assumes inv: "ew_inv F cfg B P W t w" and "es_fd s \<in> B" "es_ssl s \<in> P" "0 \<le> es_fd s" "es_fd s < WORKER_MAX_FDS"
    and c: "session_close s t w = (t', w')"
  shows "t' = t" "ew_inv F cfg (B - {es_fd s}) (P - {es_ssl s}) (W - {es_fd s}) t w'" "clean w w'"
proof -
  let ?w1 = "epoll_del (es_fd s) w"
  have e: "t' = put_session (es_fd s) None t" "w' = close (es_fd s) (wolfSSL_free (es_ssl s) ?w1)"
    using c assms(4,5) by (simp_all add: session_close_eq)
  have "(s_sessions t)(es_fd s := None) = s_sessions t" using ew_inv_owned(6) [OF inv assms(2)] by (intro fun_upd_idem) simp
  then show "t' = t" by (simp add: e(1))
  have 1: "ew_inv F cfg B P W t ?w1" "clean w ?w1"
    using ew_inv_calm [OF inv calm_prims(3)] calm_clean [OF calm_prims(3)] by blast+
  note 2 = ew_inv_free [OF 1(1) assms(3)]
  note 3 = ew_inv_close [OF 2(1) assms(2)]
  show "ew_inv F cfg (B - {es_fd s}) (P - {es_ssl s}) (W - {es_fd s}) t w'" using 3(1) by (simp add: e(2))
  show "clean w w'" unfolding e(2) by (rule clean_trans [OF 1(2) clean_trans [OF 2(2) 3(2)]])
qed

text \<open>Closing a session of the table: exactly its entry, its descriptor and its wolfSSL session go.\<close>

lemma outside: "ew_inv F cfg B P W t w \<Longrightarrow> s_sessions t fd = Some s \<Longrightarrow> fd \<notin> B \<and> es_ssl s \<notin> P"
proof -
  assume inv: "ew_inv F cfg B P W t w" and s: "s_sessions t fd = Some s"
  have "fd \<notin> B" using ew_inv_owned(6) [OF inv, of fd] s by auto
  moreover have "es_ssl s \<notin> P" using one_ownerD(1) [OF ew_invD(4) [OF inv], of None "es_ssl s" "Some fd"] s by auto
  ultimately show ?thesis by simp
qed

lemma session_close_entry:
  assumes inv: "ew_inv F cfg B P W t w" and s: "s_sessions t fd = Some s" and W: "W \<subseteq> B"
    and c: "session_close s t w = (t', w')"
  shows "t' = put_session fd None t" "ew_inv F cfg B P W t' w'" "clean w w'"
proof -
  have f: "es_fd s = fd" "0 \<le> fd" "fd < WORKER_MAX_FDS" using ew_invD(5) [OF inv s] by simp_all
  note out = outside [OF inv s]
  let ?t = "put_session fd None t"
  note inv1 = ew_inv_take_client [OF inv s]
  have t': "t' = ?t" and w': "w' = close fd (wolfSSL_free (es_ssl s) (epoll_del fd w))"
    using c f by (simp_all add: session_close_eq)
  have c1: "session_close s ?t w = (?t, w')" unfolding w' using f by (simp add: session_close_eq)
  show "t' = put_session fd None t" by (rule t')
  have held: "es_fd s \<in> insert fd B" "es_ssl s \<in> insert (es_ssl s) P" "0 \<le> es_fd s" "es_fd s < WORKER_MAX_FDS"
    using f by simp_all
  have B: "insert fd B - {es_fd s} = B" "insert (es_ssl s) P - {es_ssl s} = P" "insert fd W - {es_fd s} = W"
    using out W f by auto
  show "ew_inv F cfg B P W t' w'" using session_close_held(2) [OF inv1 held c1] unfolding B t' .
  show "clean w w'" by (rule session_close_held(3) [OF inv1 held c1])
qed

text \<open>Input and output on a wolfSSL session of the process.\<close>

lemma ew_inv_io:
  assumes inv: "ew_inv F cfg B P W t w" and p: "p \<in> P" and io: "sess_io p w w'"
  shows "ew_inv F cfg B P W t w'"
proof -
  have l: "p \<in> live w" using ew_inv_owned(4) [OF inv p] .
  have w': "fds w' = fds w" "live w' = live w" "next_ssl w' = next_ssl w" "watched (log w') = watched (log w)"
    and out: "\<And>q. q \<noteq> p \<Longrightarrow> tls_output q (log w') = tls_output q (log w)"
    using io by (simp_all add: sess_io_def session_io_def)
  have "p < next_ssl w" using l ew_invD(2) [OF inv] by (simp add: ssl_wf_def)
  then have fresh: "\<forall>q \<ge> next_ssl w'. tls_output q (log w') = []"
    using ew_invD(7) [OF inv] out w'(3) by auto
  have so: "sends_in_order F cfg s (log w')" if "s_sessions t c = Some s" for c s
  proof -
    have "es_ssl s \<noteq> p" using one_ownerD(1) [OF ew_invD(4) [OF inv], of None p "Some c"] p that by auto
    with ew_invD(5) [OF inv that] sends_output out show ?thesis by blast
  qed
  show ?thesis
    using ew_invD [OF inv] w' fresh so unfolding ew_inv_def fd_wf_def ssl_wf_def by simp
qed

text \<open>A session that is relayed after some input and output.\<close>

lemma session_relay_entry:
  assumes inv: "ew_inv F cfg B P W t w" and s: "s_sessions t fd = Some s0" and W: "W \<subseteq> B" and same: "same_conn s0 s"
    and io: "sess_io (es_ssl s0) w w0" and r: "session_relay L cfg s owner t w0 = (rc, t', w')"
  shows "t' = put_session fd None t" "ew_inv F cfg B P W t' w'" "clean w w'"
proof -
  have f: "es_fd s = fd" "0 \<le> fd" "fd < WORKER_MAX_FDS" "es_ssl s = es_ssl s0"
    using ew_invD(5) [OF inv s] same by (simp_all add: same_conn_def)
  note out = outside [OF inv s]
  let ?t = "put_session fd None t"
  let ?w1 = "epoll_del fd w0"
  let ?w2 = "wolfSSL_set_fd L (es_ssl s) (-1) ?w1"
  let ?w3 = "wolfSSL_free (es_ssl s) ?w2"
  define pl where "pl = zero_payload\<lparr>pl_magic := BENCH2_KA_MAGIC, pl_version := BENCH2_KA_VERSION,
                                       pl_serial := pl_serial (es_payload s),
                                       pl_target_function := put_cstr 128 (take 127 (cstr owner))\<rparr>"
  have e: "t' = ?t" "w' = snd (b2_relay_to_gateway fd pl (s_relay_socket cfg) ?w3)"
    using r f by (simp_all add: session_relay_def Let_def split_beta session_close_eq close_if_open_def pl_def)
  show "t' = ?t" by (rule e(1))
  have 0: "ew_inv F cfg (insert fd B) (insert (es_ssl s) P) (insert fd W) ?t w0"
    using ew_inv_io [OF ew_inv_take_client [OF inv s] insertI1 io] f(4) by simp
  have c0: "clean w w0" using sess_io_clean [OF io] ew_inv_owned(5) [OF inv s] by simp
  have 1: "ew_inv F cfg (insert fd B) (insert (es_ssl s) P) (insert fd W) ?t ?w1" "clean w ?w1"
    using ew_inv_calm [OF 0 calm_prims(3)] clean_trans [OF c0 calm_clean [OF calm_prims(3)]] by blast+
  have l: "es_ssl s \<in> live ?w1" using ew_inv_owned(4) [OF 1(1)] by simp
  have c: "calm ?w1 ?w2" by (rule calm_ssl(1) [OF l])
  note 2 = ew_inv_calm [OF 1(1) c] calm_clean [OF c]
  note 3 = ew_inv_free [OF 2(1) insertI1]
  have 4: "ew_inv F cfg (insert fd B - {fd}) (insert (es_ssl s) P - {es_ssl s}) (insert fd W - {fd}) ?t w'" "clean ?w3 w'"
    unfolding e(2) using ew_inv_relay [OF 3(1) insertI1 f(2), where pl = pl and rl = "s_relay_socket cfg"] by blast+
  have "insert fd B - {fd} = B" "insert (es_ssl s) P - {es_ssl s} = P" "insert fd W - {fd} = W"
    using out W f(4) by auto
  with 4(1) show "ew_inv F cfg B P W t' w'" unfolding e(1) by simp
  show "clean w w'" by (rule clean_trans [OF 1(2) clean_trans [OF 2(2) clean_trans [OF 3(2) 4(2)]]])
qed

text \<open>A new session: the process has the descriptor, and afterwards either the table has it or it is closed.\<close>

lemma fresh_session_fields [simp]:
  "es_fd (fresh_session F fd p pl) = fd" "es_ssl (fresh_session F fd p pl) = p"
  by (simp_all add: fresh_session_def session_reset_request_def)

lemma fresh_session_sends:
  assumes "tls_output p l = []"
  shows "sends_in_order F cfg (fresh_session F fd p pl) l"
  unfolding sends_in_order_def
  by (intro conjI exI [of _ "[]"])
     (use assms in \<open>simp_all add: fresh_session_def session_reset_request_def answer_due_def earlier_answers_def\<close>)

lemma session_new_keeps:
  assumes inv: "ew_inv F cfg (insert fd B) P W t w" and fd: "fd \<notin> B" "0 \<le> fd" and W: "W \<subseteq> B"
    and blob: "unat (ser_blob_sz (pl_serial pl)) \<le> 16384"
    and n: "session_new L F fd pl t w = (res, t', w')"
  shows "clean w w'"
    and "case res of
           None \<Rightarrow> t' = t \<and> ew_inv F cfg B P W t' w'
         | Some s \<Rightarrow> t' = put_session fd (Some s) t \<and> ew_inv F cfg B P W t' w'"
proof -
  have Wfd: "W - {fd} = W" "insert fd B - {fd} = B" using W fd by auto
  have closes: "clean w (close fd v) \<and> ew_inv F cfg B P W t (close fd v)"
    if "ew_inv F cfg (insert fd B) P W t v" "clean w v" for v
    using ew_inv_close [OF that(1) insertI1] clean_trans [OF that(2)] unfolding Wfd by blast
  let ?w1 = "snd (unix_set_nonblocking fd w)"
  let ?w2 = "snd (sys_alloc ?w1)"
  have 1: "ew_inv F cfg (insert fd B) P W t ?w1" "clean w ?w1"
    using ew_inv_calm [OF inv calm_prims(4)] calm_clean [OF calm_prims(4)] by blast+
  have 2: "ew_inv F cfg (insert fd B) P W t ?w2" "clean w ?w2"
    using ew_inv_calm [OF 1(1) calm_prims(2)] clean_trans [OF 1(2) calm_clean [OF calm_prims(2)]] by blast+
  have goal: "clean w w' \<and> (case res of
           None \<Rightarrow> t' = t \<and> ew_inv F cfg B P W t' w'
         | Some s \<Rightarrow> t' = put_session fd (Some s) t \<and> ew_inv F cfg B P W t' w')"
  proof (cases "WORKER_MAX_FDS \<le> fd \<or> fst (unix_set_nonblocking fd w) \<noteq> 0 \<or> \<not> fst (sys_alloc ?w1)")
    case True
    then have "res = None \<and> t' = t \<and> (\<exists>v. w' = close fd v \<and> (v = w \<or> v = ?w1 \<or> v = ?w2))"
      using n fd by (auto simp: session_new_def Let_def split_beta split: if_splits)
    with closes inv 1 2 show ?thesis by auto
  next
    case ok: False
    obtain q w3 where nw: "wolfSSL_new L ?w2 = (q, w3)" by fastforce
    show ?thesis
    proof (cases q)
      case None
      then have e: "res = None" "t' = t" "w' = close fd w3"
        using n nw ok fd(2) by (simp_all add: session_new_def split_beta)
      have c: "calm ?w2 w3"
        using nw None by (auto simp: wolfSSL_new_def Let_def split_beta calm_def clean_def split: if_splits)
      from closes [OF ew_inv_calm [OF 2(1) c] clean_trans [OF 2(2) calm_clean [OF c]]] e show ?thesis by simp
    next
      case (Some p)
      let ?s = "fresh_session F fd p pl"
      note 3 = ew_inv_new_ssl [OF 2(1), of L p w3, unfolded nw Some, OF refl]
      have pP: "p \<notin> P"
        using ew_inv_owned(4) [OF 2(1), of p] ssl_wf_fresh [OF ew_invD(2) [OF 2(1)]] wolfSSL_new_ptr [of L ?w2 p] nw Some by auto
      let ?w4 = "wolfSSL_set_fd L p fd w3"
      obtain r w5 where rs: "tlspeek_restore L p (pl_serial pl) ?w4 = (r, w5)" by fastforce
      let ?w6 = "wolfSSL_set_fd L p fd w5"
      let ?w7 = "snd (sys_alloc ?w6)"
      have c4: "calm w3 ?w4" by (rule calm_ssl(1) [OF 3(3)])
      have l4: "p \<in> live ?w4" using 3(3) c4 by (simp add: calm_def)
      have c5: "calm w3 w5" using calm_trans [OF c4] calm_ssl(2) [OF l4 blob, of L] by (simp add: rs)
      have l5: "p \<in> live w5" using 3(3) c5 by (simp add: calm_def)
      have c6: "calm w3 ?w6" by (rule calm_trans [OF c5 calm_ssl(1) [OF l5]])
      have c7: "calm w3 ?w7" by (rule calm_trans [OF c6 calm_prims(2)])
      have dropped: "clean w v' \<and> t1 = t \<and> ew_inv F cfg B P W t v'"
        if "calm w3 v" "session_close ?s t v = (t1, v')" for v v' t1
      proof -
        have held: "es_fd ?s \<in> insert fd B" "es_ssl ?s \<in> insert p P" "0 \<le> es_fd ?s" "es_fd ?s < WORKER_MAX_FDS"
          using fd ok by simp_all
        have eq: "insert fd B - {es_fd ?s} = B" "insert p P - {es_ssl ?s} = P" "W - {es_fd ?s} = W" using Wfd pP by simp_all
        note d = session_close_held [OF ew_inv_calm [OF 3(1) that(1)] held that(2)]
        have "clean w v'" by (rule clean_trans [OF 2(2) clean_trans [OF 3(2) clean_trans [OF calm_clean [OF that(1)] d(3)]]])
        with d(1,2) show ?thesis unfolding eq by blast
      qed
      have res: "(res, t', w') =
          (if r \<noteq> 0 then (None, session_close ?s t w5)
           else if \<not> fst (sys_alloc ?w6) then (None, session_close ?s t ?w7)
           else (Some ?s, put_session fd (Some ?s) t, ?w7))"
        unfolding n [symmetric] using ok fd(2) by (simp add: session_new_def nw Some rs split_beta Let_def)
      show ?thesis
      proof (cases "r \<noteq> 0 \<or> \<not> fst (sys_alloc ?w6)")
        case True
        then have "res = None \<and> (session_close ?s t w5 = (t', w') \<or> session_close ?s t ?w7 = (t', w'))"
          using res by (auto split: if_splits)
        with dropped [OF c5] dropped [OF c7] show ?thesis by auto
      next
        case False
        then have e: "res = Some ?s" "t' = put_session fd (Some ?s) t" "w' = ?w7" using res by simp_all
        have "tls_output p (log ?w7) = []" using c7 3(4) by (simp add: calm_def)
        then have so: "sends_in_order F cfg ?s (log ?w7)" by (rule fresh_session_sends)
        have "ew_inv F cfg (insert fd B - {fd}) (insert p P - {es_ssl ?s}) W (put_session fd (Some ?s) t) ?w7"
          by (rule ew_inv_give_client [OF ew_inv_calm [OF 3(1) c7]]) (use fd ok so in simp_all)
        moreover have "clean w ?w7" by (rule clean_trans [OF 2(2) clean_trans [OF 3(2) calm_clean [OF c7]]])
        ultimately show ?thesis using e Wfd pP by simp
      qed
    qed
  qed
  then show "clean w w'"
    "case res of
           None \<Rightarrow> t' = t \<and> ew_inv F cfg B P W t' w'
         | Some s \<Rightarrow> t' = put_session fd (Some s) t \<and> ew_inv F cfg B P W t' w'"
    by blast+
qed


lemma register_client_keeps:
  assumes inv: "ew_inv F cfg (insert fd B) P W t w" and fd: "fd \<notin> B" "0 \<le> fd" and W: "W \<subseteq> B"
    and blob: "unat (ser_blob_sz (pl_serial pl)) \<le> 16384"
    and r: "register_client_fd L F fd pl t w = (t', w')"
  shows "clean w w' \<and> ew_inv F cfg B P W t' w' \<and> s_handoffs t' = s_handoffs t \<and> dom (s_sessions t) \<subseteq> dom (s_sessions t')"
proof (cases "pl_magic pl \<noteq> BENCH2_KA_MAGIC \<or> pl_version pl \<noteq> BENCH2_KA_VERSION")
  case True
  then have e: "t' = t" "w' = close fd w" using r by (auto simp: register_client_fd_def)
  have "insert fd B - {fd} = B" "W - {fd} = W" using fd W by auto
  with ew_inv_close [OF inv insertI1] e show ?thesis by simp
next
  case False
  obtain res t1 w1 where n: "session_new L F fd pl t w = (res, t1, w1)" by (metis prod.exhaust)
  note k = session_new_keeps [OF inv fd W blob n]
  show ?thesis
  proof (cases res)
    case None
    then have "t' = t1" "w' = w1" using r False by (simp_all add: register_client_fd_def n)
    with k None show ?thesis by auto
  next
    case (Some s)
    let ?t1 = "put_session fd (Some s) t"
    have none: "s_sessions t fd = None" using ew_inv_owned(6) [OF inv insertI1] by simp
    have k1: "clean w w1" "ew_inv F cfg B P W ?t1 w1" "t1 = ?t1" using k Some by auto
    let ?w2 = "snd (epoll_add_fd fd w1)"
    have a: "ew_inv F cfg B P W ?t1 ?w2" "clean w1 ?w2" using ew_inv_add [OF k1(2), of fd] by simp_all
    have res: "(t', w') = (if fst (epoll_add_fd fd w1) \<noteq> 0 then session_close s ?t1 ?w2 else (?t1, ?w2))"
      unfolding r [symmetric] using False by (simp add: register_client_fd_def n Some k1(3) split_beta)
    show ?thesis
    proof (cases "fst (epoll_add_fd fd w1) \<noteq> 0")
      case True
      then have "session_close s ?t1 ?w2 = (t', w')" using res by simp
      note c = session_close_entry [OF a(1) _ W this, of fd, simplified]
      have "put_session fd None ?t1 = t" using none by (simp add: fun_upd_idem)
      then have "t' = t" using c(1) none by (simp add: fun_upd_idem)
      with c(2) clean_trans [OF k1(1) clean_trans [OF a(2) c(3)]] show ?thesis by simp
    next
      case ok: False
      with res a(1) clean_trans [OF k1(1) a(2)] show ?thesis by auto
    qed
  qed
qed

text \<open>
  What a hand-over may bring: the descriptor as the only control message, with data, untruncated; and a payload
  whose blob fits.
\<close>

definition b2_gateway_message :: "handoff_conn \<Rightarrow> 's world \<Rightarrow> bool" where
  "b2_gateway_message h w =
     (let (rcvd, m) = fst (recvmsg_retry (SIZEOF_payload - length (hc_data h)) w);
          d = hc_data h @ rm_data m
      in (rm_cmsg m = None \<or> rm_cmsg m = Some fd_cmsg \<and> \<not> rm_ctrunc m \<and> 0 < rcvd)
         \<and> (length d = SIZEOF_payload \<longrightarrow>
              unat (ser_blob_sz (pl_serial (bytes_payload (overwrite (zeros SIZEOF_payload) d)))) \<le> 16384))"

lemma recvmsg_retry_spec:
  "recvmsg_retry k w = ((n, m), w') \<Longrightarrow>
     log w' = log w \<and> live w' = live w \<and> next_ssl w' = next_ssl w \<and> ub w' = ub w
   \<and> length (rm_data m) \<le> k
   \<and> (rm_cmsg m = None \<longrightarrow> fds w' = fds w)
   \<and> (rm_cmsg m = Some fd_cmsg \<longrightarrow> fds w' = rm_fd m # fds w \<and> rm_fd m \<notin> set (fds w) \<and> 0 \<le> rm_fd m)"
proof (induction k w rule: recvmsg_retry.induct)
  case (1 k w)
  obtain n1 m1 w1 where rm: "recvmsg k w = ((n1, m1), w1)" by (metis prod.exhaust)
  have f: "log w1 = log w" "live w1 = live w" "next_ssl w1 = next_ssl w" "ub w1 = ub w"
    using recvmsg_frame [of k w] by (simp_all add: rm)
  have c: "length (rm_data m1) \<le> k \<and> (rm_cmsg m1 = None \<longrightarrow> fds w1 = fds w)
      \<and> (rm_cmsg m1 = Some fd_cmsg \<longrightarrow> fds w1 = rm_fd m1 # fds w \<and> rm_fd m1 \<notin> set (fds w) \<and> 0 \<le> rm_fd m1)
      \<and> (n1 < 0 \<longrightarrow> rm_cmsg m1 = None)"
  proof (cases "fst (next_answer w)")
    case (Msg d c t)
    obtain l v where i: "install_fds (rights_count c) (snd (next_answer w)) = (l, v)" by fastforce
    note r = install_fds_result [OF i]
    have w1: "w1 = v" "m1 = \<lparr>rm_data = take k d, rm_cmsg = c, rm_fd = (case l of [] \<Rightarrow> -1 | f # _ \<Rightarrow> f), rm_ctrunc = t\<rparr>"
      "n1 = int (length (take k d))"
      using rm Msg i by (simp_all add: recvmsg_def split_beta)
    have "rights_count (Some fd_cmsg) = Suc 0" by (simp add: rights_count_def fd_cmsg_def CMSG_LEN_int_def)
    moreover have "rights_count None = 0" by (simp add: rights_count_def)
    ultimately show ?thesis using r w1 by (auto simp: length_Suc_conv)
  qed (use rm in \<open>auto simp: recvmsg_def split_beta\<close>)
  have eq: "recvmsg_retry k w = (if n1 < 0 \<and> errno w1 = EINTR then recvmsg_retry k w1 else ((n1, m1), w1))"
    by (subst recvmsg_retry.simps) (simp add: rm)
  show ?case
  proof (cases "n1 < 0 \<and> errno w1 = EINTR")
    case True
    then have "recvmsg_retry k w1 = ((n, m), w')" using "1.prems" eq by simp
    from "1.IH" [OF rm [symmetric] refl True this] f c True show ?thesis by simp
  next
    case False
    with "1.prems" eq f c show ?thesis by auto
  qed
qed

lemma handoff_recv_rc: "handoff_recv_nb h w = ((rc, h'), w') \<Longrightarrow> rc \<in> {-1, 0, 1}"
  by (auto simp: handoff_recv_nb_def Let_def split_beta split: if_splits)

lemma handoff_recv_keeps:
  assumes inv: "ew_inv F cfg (received h \<union> B) P W t w" and B: "received h \<inter> B = {}" and W: "W \<subseteq> B"
    and h: "0 \<le> hc_fd h" "length (hc_data h) < SIZEOF_payload" and g: "b2_gateway_message h w"
    and r: "handoff_recv_nb h w = ((rc, h'), w')"
  shows "clean w w'" "ew_inv F cfg (received h' \<union> B) P W t w'" "received h' \<inter> B = {}"
    "hc_fd h' = hc_fd h" "rc = 0 \<Longrightarrow> length (hc_data h') < SIZEOF_payload"
    "rc = 1 \<Longrightarrow> 0 \<le> hc_client_fd h' \<and>
       unat (ser_blob_sz (pl_serial (bytes_payload (overwrite (zeros SIZEOF_payload) (hc_data h'))))) \<le> 16384"
proof -
  obtain n m w1 where rt: "recvmsg_retry (SIZEOF_payload - length (hc_data h)) w = ((n, m), w1)" by (metis prod.exhaust)
  note s = recvmsg_retry_spec [OF rt]
  let ?d = "hc_data h @ rm_data m"
  have gm: "rm_cmsg m = None \<or> rm_cmsg m = Some fd_cmsg \<and> \<not> rm_ctrunc m \<and> 0 < n"
    "length ?d = SIZEOF_payload \<Longrightarrow>
       unat (ser_blob_sz (pl_serial (bytes_payload (overwrite (zeros SIZEOF_payload) ?d)))) \<le> 16384"
    using g by (simp_all add: b2_gateway_message_def rt)
  have len: "length ?d \<le> SIZEOF_payload" using s h(2) by auto
  have eq: "handoff_recv_nb h w =
      (if n < 0 then ((if errno w1 = EAGAIN then 0 else -1, h), w1)
       else if n = 0 \<or> rm_ctrunc m then ((-1, h), w1)
       else let h1 = (if rm_cmsg m = None \<or> 0 \<le> hc_client_fd h then h else h\<lparr>hc_client_fd := rm_fd m\<rparr>)\<lparr>hc_data := ?d\<rparr>;
                w2 = (if rm_cmsg m \<noteq> None \<and> 0 \<le> hc_client_fd h then close (rm_fd m) w1 else w1)
            in ((if length ?d < SIZEOF_payload then 0 else if 0 \<le> hc_client_fd h1 then 1 else -1, h1), w2))"
    using h gm(1) by (auto simp: handoff_recv_nb_def rt fd_cmsg_def Let_def)
  consider (none) "rm_cmsg m = None" | (second) "rm_cmsg m = Some fd_cmsg" "0 < n" "\<not> rm_ctrunc m" "0 \<le> hc_client_fd h"
    | (first) "rm_cmsg m = Some fd_cmsg" "0 < n" "\<not> rm_ctrunc m" "hc_client_fd h < 0"
    using gm(1) by fastforce
  then have "clean w w' \<and> ew_inv F cfg (received h' \<union> B) P W t w' \<and> received h' \<inter> B = {} \<and> hc_fd h' = hc_fd h
    \<and> (rc = 0 \<longrightarrow> h' = h \<or> length (hc_data h') < SIZEOF_payload)
    \<and> (rc = 1 \<longrightarrow> 0 \<le> hc_client_fd h' \<and> hc_data h' = ?d \<and> length ?d = SIZEOF_payload)"
  proof cases
    case none
    have c: "calm w w1" using s none by (simp add: calm_def clean_def)
    have "w' = w1 \<and> received h' = received h \<and> hc_fd h' = hc_fd h
        \<and> (rc = 0 \<longrightarrow> h' = h \<or> length (hc_data h') < SIZEOF_payload)
        \<and> (rc = 1 \<longrightarrow> 0 \<le> hc_client_fd h' \<and> hc_data h' = ?d \<and> length ?d = SIZEOF_payload)"
      using r [unfolded eq] none len by (auto simp: received_def Let_def split: if_splits)
    with ew_inv_calm [OF inv c] calm_clean [OF c] B show ?thesis by simp
  next
    case second
    have f: "fds w1 = rm_fd m # fds w" "rm_fd m \<notin> set (fds w)" using s second by simp_all
    have o: "ew_inv F cfg (insert (rm_fd m) (received h \<union> B)) P W t w1"
      by (rule ew_inv_open [OF inv f]) (use s in simp_all)
    have nB: "rm_fd m \<notin> received h \<union> B" using ew_inv_owned(1) [OF inv, of "rm_fd m"] f(2) by blast
    note c = ew_inv_close [OF o insertI1]
    have e: "w' = close (rm_fd m) w1" "received h' = received h" "hc_fd h' = hc_fd h"
      "rc = 0 \<longrightarrow> length (hc_data h') < SIZEOF_payload"
      "rc = 1 \<longrightarrow> 0 \<le> hc_client_fd h' \<and> hc_data h' = ?d \<and> length ?d = SIZEOF_payload"
      using r [unfolded eq] second len by (auto simp: received_def Let_def split: if_splits)
    have eq: "insert (rm_fd m) (received h \<union> B) - {rm_fd m} = received h \<union> B" "W - {rm_fd m} = W" using nB W by auto
    have "ew_inv F cfg (received h' \<union> B) P W t w'" using c(1) unfolding eq e(1,2) .
    moreover have "clean w w'" using c(2) s by (simp add: clean_def e(1))
    ultimately show ?thesis using e B by simp
  next
    case first
    have f: "fds w1 = rm_fd m # fds w" "rm_fd m \<notin> set (fds w)" "0 \<le> rm_fd m" using s first by simp_all
    have o: "ew_inv F cfg (insert (rm_fd m) (received h \<union> B)) P W t w1"
      by (rule ew_inv_open [OF inv f(1,2)]) (use s in simp_all)
    have nB: "rm_fd m \<notin> received h \<union> B" using ew_inv_owned(1) [OF inv, of "rm_fd m"] f(2) by blast
    have e: "w' = w1" "received h' = {rm_fd m}" "hc_fd h' = hc_fd h" "received h = {}"
      "rc = 0 \<longrightarrow> length (hc_data h') < SIZEOF_payload"
      "rc = 1 \<longrightarrow> 0 \<le> hc_client_fd h' \<and> hc_data h' = ?d \<and> length ?d = SIZEOF_payload"
      using r [unfolded eq] first len f(3) by (auto simp: received_def Let_def split: if_splits)
    have "clean w w'" using s by (simp add: clean_def e(1))
    with o nB e show ?thesis by simp
  qed
  then show "clean w w'" "ew_inv F cfg (received h' \<union> B) P W t w'" "received h' \<inter> B = {}"
    "hc_fd h' = hc_fd h" "rc = 0 \<Longrightarrow> length (hc_data h') < SIZEOF_payload"
    "rc = 1 \<Longrightarrow> 0 \<le> hc_client_fd h' \<and>
       unat (ser_blob_sz (pl_serial (bytes_payload (overwrite (zeros SIZEOF_payload) (hc_data h'))))) \<le> 16384"
    using gm(2) h(2) by auto
qed


lemma handover_outside:
  assumes inv: "ew_inv F cfg B P W t w" and h: "s_handoffs t fd = Some h"
  shows "fd \<notin> B" "fd \<notin> received h" "received h \<inter> B = {}"
proof -
  note o = one_ownerD(1) [OF ew_invD(3) [OF inv]]
  show "fd \<notin> B" using ew_inv_owned(6) [OF inv, of fd] h by auto
  show "fd \<notin> received h" using o [of Handover fd "Received fd"] h by (auto simp: received_def)
  show "received h \<inter> B = {}" using o [of Process "hc_client_fd h" "Received fd"] h by (auto simp: received_def)
qed

lemma handoff_close_held:
  assumes inv: "ew_inv F cfg (insert fd (received h \<union> B)) P (insert fd W) (put_handoff fd None t) w"
    and h: "s_handoffs t fd = Some h" and fd: "0 \<le> fd" "fd < WORKER_MAX_FDS" "fd \<notin> received h \<union> B"
    and B: "received h \<inter> B = {}" and W: "W \<subseteq> B" and c: "handoff_close fd t w = (t', w')"
  shows "t' = put_handoff fd None t" "clean w w'" "ew_inv F cfg B P W t' w'"
proof -
  let ?t = "put_handoff fd None t"
  let ?w1 = "close_if_open (hc_client_fd h) w"
  let ?w2 = "epoll_del fd ?w1"
  have e: "t' = ?t" "w' = close fd ?w2" using c fd(1,2) h by (simp_all add: handoff_close_eq)
  show "t' = ?t" by (rule e(1))
  have 1: "ew_inv F cfg (insert fd B) P (insert fd W) ?t ?w1 \<and> clean w ?w1"
  proof (cases "0 \<le> hc_client_fd h")
    case True
    then have r: "hc_client_fd h \<in> insert fd (received h \<union> B)" by (simp add: received_def)
    have "insert fd (received h \<union> B) - {hc_client_fd h} = insert fd B" "insert fd W - {hc_client_fd h} = insert fd W"
      using True fd(3) B W by (auto simp: received_def)
    with ew_inv_close [OF inv r] True show ?thesis by (simp add: close_if_open_def)
  next
    case False
    with inv show ?thesis by (simp add: received_def close_if_open_def)
  qed
  have 2: "ew_inv F cfg (insert fd B) P (insert fd W) ?t ?w2" "clean w ?w2"
    using ew_inv_calm [OF conjunct1 [OF 1] calm_prims(3)] clean_trans [OF conjunct2 [OF 1] calm_clean [OF calm_prims(3)]]
    by blast+
  have "insert fd B - {fd} = B" "insert fd W - {fd} = W" using fd(3) W by auto
  with ew_inv_close [OF 2(1) insertI1] clean_trans [OF 2(2)]
  show "clean w w'" "ew_inv F cfg B P W t' w'" unfolding e by simp_all
qed

lemma handoff_close_entry:
  assumes inv: "ew_inv F cfg B P W t w" and h: "s_handoffs t fd = Some h" and W: "W \<subseteq> B"
    and c: "handoff_close fd t w = (t', w')"
  shows "t' = put_handoff fd None t" "clean w w'" "ew_inv F cfg B P W t' w'"
proof -
  have f: "0 \<le> fd" "fd < WORKER_MAX_FDS" "fd \<notin> received h \<union> B" "received h \<inter> B = {}"
    using ew_invD(6) [OF inv h] handover_outside [OF inv h] by simp_all
  note c = handoff_close_held [OF ew_inv_take_handover [OF inv h] h f W c]
  show "t' = put_handoff fd None t" "clean w w'" "ew_inv F cfg B P W t' w'" by (rule c)+
qed

text \<open>The descriptors of the tables.\<close>

definition entries :: "'f ew_tables \<Rightarrow> int set" where
  "entries t = dom (s_sessions t) \<union> dom (s_handoffs t)"

lemma handle_handoff_keeps:
  assumes inv: "ew_inv F cfg B P W t w" and h: "s_handoffs t fd = Some h" and W: "W \<subseteq> B"
    and g: "b2_gateway_message h w" and e: "handle_handoff_fd L F fd t w = (t', w')"
  shows "clean w w' \<and> ew_inv F cfg B P W t' w' \<and> entries t - {fd} \<subseteq> entries t'"
proof -
  have hd: "0 \<le> fd" "fd < WORKER_MAX_FDS" "hc_fd h = fd" "length (hc_data h) < SIZEOF_payload"
    using ew_invD(6) [OF inv h] by simp_all
  note out = handover_outside [OF inv h]
  obtain rc h1 w1 where r: "handoff_recv_nb h w = ((rc, h1), w1)" by (metis prod.exhaust)
  let ?t0 = "put_handoff fd None t"
  let ?t1 = "put_handoff fd (Some h1) t"
  have i0: "ew_inv F cfg (received h \<union> insert fd B) P (insert fd W) ?t0 w" using ew_inv_take_handover [OF inv h] by simp
  have d: "received h \<inter> insert fd B = {}" "insert fd W \<subseteq> insert fd B" "0 \<le> hc_fd h" using out W hd by auto
  note k = handoff_recv_keeps [OF i0 d hd(4) g r]
  have o1: "fd \<notin> received h1 \<union> B" "received h1 \<inter> B = {}" using k(3) out(1) by auto
  have i1: "ew_inv F cfg (insert fd (received h1 \<union> B)) P (insert fd W) ?t0 w1" using k(2) by simp
  have fdW: "W - {fd} = W" using W out(1) by auto
  consider (more) "rc = 0" | (bad) "rc < 0" | (got) "0 < rc" by linarith
  then show ?thesis
  proof cases
    case more
    then have e': "t' = ?t1" "w' = w1" using e hd h by (simp_all add: handle_handoff_fd_def r)
    have g: "ew_inv F cfg (insert fd (received h1 \<union> B) - insert fd (received h1)) P (insert fd W - {fd}) (put_handoff fd (Some h1) ?t0) w1"
      by (rule ew_inv_give_handover [OF i1]) (use hd k(4) k(5) [OF more] o1 in auto)
    have "insert fd (received h1 \<union> B) - insert fd (received h1) = B" using o1 by auto
    with g fdW k(1) e' show ?thesis by (auto simp: entries_def)
  next
    case bad
    then have c: "handoff_close fd ?t1 w1 = (t', w')" using e hd h by (simp add: handle_handoff_fd_def r split_beta)
    have i: "ew_inv F cfg (insert fd (received h1 \<union> B)) P (insert fd W) (put_handoff fd None ?t1) w1" using i1 by simp
    note c = handoff_close_held [OF i _ hd(1,2) o1 W c, simplified]
    from c clean_trans [OF k(1)] show ?thesis by (auto simp: entries_def)
  next
    case got
    have rc: "rc = 1" using handoff_recv_rc [OF r] got by auto
    let ?h2 = "h1\<lparr>hc_client_fd := -1\<rparr>"
    let ?t2 = "put_handoff fd (Some ?h2) t"
    let ?c = "hc_client_fd h1"
    obtain t3 w3 where c: "handoff_close fd ?t2 w1 = (t3, w3)" by fastforce
    have e': "register_client_fd L F ?c (bytes_payload (overwrite (zeros SIZEOF_payload) (hc_data h1))) t3 w3 = (t', w')"
      using e hd h c by (simp add: handle_handoff_fd_def r rc)
    have cB: "received h1 = {?c}" "received ?h2 = {}" "0 \<le> ?c" "?c \<notin> B" "fd \<noteq> ?c"
      using k(6) [OF rc] o1 by (auto simp: received_def)
    have i: "ew_inv F cfg (insert fd (received ?h2 \<union> insert ?c B)) P (insert fd W) (put_handoff fd None ?t2) w1"
      using i1 cB by simp
    have "s_handoffs ?t2 fd = Some ?h2" "fd \<notin> received ?h2 \<union> insert ?c B" "received ?h2 \<inter> insert ?c B = {}" "W \<subseteq> insert ?c B"
      using cB o1 W by auto
    note h3 = handoff_close_held [OF i this(1) hd(1,2) this(2-4) c]
    note r3 = register_client_keeps [OF h3(3) cB(4,3) W conjunct2 [OF k(6) [OF rc]] e']
    have t3: "s_sessions t3 = s_sessions t" "s_handoffs t3 = (s_handoffs t)(fd := None)" using h3(1) by simp_all
    have "entries t - {fd} \<subseteq> entries t'" using r3 t3 by (auto simp: entries_def)
    with r3 clean_trans [OF k(1) clean_trans [OF h3(2)]] show ?thesis by blast
  qed
qed


lemma accept_handoff_keeps:
  assumes inv: "ew_inv F cfg (insert fd B) P W t w" and fd: "fd \<notin> B" "0 \<le> fd" and W: "W \<subseteq> B"
    and a: "accept_handoff fd t w = (t', w')"
  shows "clean w w' \<and> ew_inv F cfg B P W t' w' \<and> entries t \<subseteq> entries t'"
proof -
  have Bfd: "insert fd B - {fd} = B" "W - {fd} = W" using fd W by auto
  have none: "s_handoffs t fd = None" using ew_inv_owned(6) [OF inv insertI1] by simp
  let ?w1 = "snd (sys_alloc w)"
  let ?h = "\<lparr>hc_fd = fd, hc_client_fd = -1, hc_data = []\<rparr>"
  let ?t = "put_handoff fd (Some ?h) t"
  let ?w2 = "snd (epoll_add_fd fd ?w1)"
  have 1: "ew_inv F cfg (insert fd B) P W t ?w1" "clean w ?w1"
    using ew_inv_calm [OF inv calm_prims(2)] calm_clean [OF calm_prims(2)] by blast+
  show ?thesis
  proof (cases "WORKER_MAX_FDS \<le> fd \<or> \<not> fst (sys_alloc w)")
    case True
    then have "t' = t \<and> (w' = close fd w \<or> w' = close fd ?w1)"
      using a by (auto simp: accept_handoff_def split_beta split: if_splits)
    with ew_inv_close [OF inv insertI1] ew_inv_close [OF 1(1) insertI1] clean_trans [OF 1(2)] show ?thesis
      unfolding Bfd by blast
  next
    case False
    have "ew_inv F cfg (insert fd B - insert fd (received ?h)) P (W - {fd}) ?t ?w1"
      by (rule ew_inv_give_handover [OF 1(1)]) (use fd False in \<open>simp_all add: received_def SIZEOF_payload_def\<close>)
    then have 2: "ew_inv F cfg B P W ?t ?w1" using Bfd by (simp add: received_def)
    have 3: "ew_inv F cfg B P W ?t ?w2" "clean ?w1 ?w2" using ew_inv_add [OF 2, of fd] by simp_all
    have res: "(t', w') = (if fst (epoll_add_fd fd ?w1) \<noteq> 0 then handoff_close fd ?t ?w2 else (?t, ?w2))"
      unfolding a [symmetric] using False by (simp add: accept_handoff_def split_beta Let_def)
    show ?thesis
    proof (cases "fst (epoll_add_fd fd ?w1) \<noteq> 0")
      case True
      then have c: "handoff_close fd ?t ?w2 = (t', w')" using res by simp
      note h = handoff_close_entry [OF 3(1) _ W c, of ?h, simplified]
      have "t' = t" using h(1) none by (simp add: fun_upd_idem)
      with h clean_trans [OF 1(2) clean_trans [OF 3(2) h(2)]] show ?thesis by simp
    next
      case ok: False
      with res 3(1) clean_trans [OF 1(2) 3(2)] show ?thesis by (auto simp: entries_def)
    qed
  qed
qed

lemma calm_newfd: "fst (sys_newfd w) < 0 \<Longrightarrow> calm w (snd (sys_newfd w))"
  by (simp add: calm_def clean_def)

lemma ew_inv_newfd:
  assumes inv: "ew_inv F cfg B P W t w" and fd: "\<not> fst (sys_newfd w) < 0"
  shows "ew_inv F cfg (insert (fst (sys_newfd w)) B) P W t (snd (sys_newfd w))" "clean w (snd (sys_newfd w))"
    "fst (sys_newfd w) \<notin> B"
proof -
  have f: "fst (sys_newfd w) \<notin> set (fds w)" using sys_newfd_fresh [of w] fd by simp
  show "ew_inv F cfg (insert (fst (sys_newfd w)) B) P W t (snd (sys_newfd w))"
    by (rule ew_inv_open [OF inv _ f]) (use fd in simp_all)
  show "clean w (snd (sys_newfd w))" by (simp add: clean_def)
  show "fst (sys_newfd w) \<notin> B" using ew_inv_owned(1) [OF inv] f by blast
qed

lemma handle_listen_keeps:
  assumes "ew_inv F cfg B P W t w" and W: "W \<subseteq> B" and "handle_listen_fd t w = (t', w')"
  shows "clean w w' \<and> ew_inv F cfg B P W t' w' \<and> entries t \<subseteq> entries t'"
  using assms(1,3)
proof (induction t w rule: handle_listen_fd.induct)
  case (1 t w)
  let ?fd = "fst (sys_newfd w)"
  let ?w1 = "snd (sys_newfd w)"
  obtain t2 w2 where ac: "accept_handoff ?fd t ?w1 = (t2, w2)" by fastforce
  have nf: "(?fd, ?w1) = sys_newfd w" by simp
  have res: "(t', w') = (if ?fd < 0 then (if errno ?w1 = EINTR then handle_listen_fd t ?w1 else (t, ?w1))
                         else handle_listen_fd t2 w2)"
    unfolding "1.prems"(2) [symmetric] by (simp add: handle_listen_fd.simps [of t w] split_beta ac)
  show ?case
  proof (cases "?fd < 0")
    case True
    note c = ew_inv_calm [OF "1.prems"(1) calm_newfd [OF True]] calm_clean [OF calm_newfd [OF True]]
    show ?thesis
    proof (cases "errno ?w1 = EINTR")
      case eintr: True
      then have "handle_listen_fd t ?w1 = (t', w')" using res True by simp
      from "1.IH"(1) [OF nf True eintr c(1) this] clean_trans [OF c(2)] show ?thesis by blast
    next
      case False
      with res True c show ?thesis by simp
    qed
  next
    case False
    note n = ew_inv_newfd [OF "1.prems"(1) False]
    have fd: "0 \<le> ?fd" using False by simp
    note a = accept_handoff_keeps [OF n(1,3) fd W ac]
    have "handle_listen_fd (fst (accept_handoff ?fd t ?w1)) (snd (accept_handoff ?fd t ?w1)) = (t', w')"
      using res False ac by simp
    note IH = "1.IH"(2) [OF nf False _ this]
    have "clean w2 w' \<and> ew_inv F cfg B P W t' w' \<and> entries t2 \<subseteq> entries t'" using IH a ac by simp
    with a clean_trans [OF n(2)] clean_trans [of ?w1 w2 w'] show ?thesis by blast
  qed
qed


lemma session_event_keeps:
  assumes inv: "ew_inv F cfg B P W t w" and s: "s_sessions t fd = Some s" and W: "W \<subseteq> B"
    and e: "ew_session_event L C F cfg s revents t w = (t', w')"
  shows "clean w w' \<and> ew_inv F cfg B P W t' w' \<and> entries t - {fd} \<subseteq> entries t'"
proof -
  have f: "es_fd s = fd" "sends_in_order F cfg s (log w)" using ew_invD(5) [OF inv s] by simp_all
  have closed: ?thesis if "session_close s t w = (t', w')"
    using session_close_entry [OF inv s W that] by (auto simp: entries_def)
  obtain rc res t1 w1 where a: "session_advance L C F cfg s t w = ((rc, res), t1, w1)" by (metis prod.exhaust)
  note eff = session_advance_effect [OF a f(2)]
  have advanced: ?thesis
    if st: "(t', w') = (case res of None \<Rightarrow> (t1, w1)
                     | Some s1 \<Rightarrow> if rc < 0 then session_close s1 (put_session fd (Some s1) t1) w1
                                 else (put_session fd (Some s1) t1, w1))"
  proof (cases res)
    case None
    then obtain s1 owner w0 where r: "sess_io (es_ssl s) w w0" "same_conn s s1" "(t1, w1) = snd (session_relay L cfg s1 owner t w0)"
      using eff by auto
    obtain rc' where "session_relay L cfg s1 owner t w0 = (rc', t1, w1)" using r(3) by (metis prod.collapse)
    note k = session_relay_entry [OF inv s W r(2,1) this]
    with st None show ?thesis by (auto simp: entries_def)
  next
    case (Some s1)
    have io: "t1 = t" "sess_io (es_ssl s) w w1" "same_conn s s1" "sends_in_order F cfg s1 (log w1)"
      using eff Some by auto
    let ?t = "put_session fd (Some s1) t"
    have 1: "ew_inv F cfg B P W ?t w1" by (rule ew_inv_same_client [OF inv s io(2-4)])
    have c1: "clean w w1" using sess_io_clean [OF io(2)] ew_inv_owned(5) [OF inv s] by simp
    show ?thesis
    proof (cases "rc < 0")
      case True
      then have "session_close s1 ?t w1 = (t', w')" using st Some io(1) by simp
      note c = session_close_entry [OF 1 _ W this, of fd, simplified]
      with clean_trans [OF c1 c(3)] show ?thesis by (auto simp: entries_def)
    next
      case False
      with st Some io(1) 1 c1 show ?thesis by (auto simp: entries_def)
    qed
  qed
  have "(t', w') = (t, w) \<or> session_close s t w = (t', w')
      \<or> (t', w') = (case res of None \<Rightarrow> (t1, w1)
                     | Some s1 \<Rightarrow> if rc < 0 then session_close s1 (put_session fd (Some s1) t1) w1
                                 else (put_session fd (Some s1) t1, w1))"
    unfolding e [symmetric] ew_session_event_def a by (auto simp: f(1) Let_def split: option.split)
  with closed advanced inv show ?thesis by auto
qed

text \<open>
  One event.  What it relies on: the descriptor is the listener or in the tables, and a hand-over brings what
  it may.
\<close>

definition event_allowed :: "int \<Rightarrow> 'f ew_tables \<Rightarrow> 's world \<Rightarrow> int \<times> u32 \<Rightarrow> bool" where
  "event_allowed listen_fd t w ev =
     (case s_handoffs t (fst ev) of
        Some h \<Rightarrow> fst ev = listen_fd \<or> snd ev AND EPOLLIN = 0 \<or> b2_gateway_message h w
      | None \<Rightarrow> True)"

lemma event_keeps:
  assumes inv: "ew_inv F cfg B P W t w" and W: "W \<subseteq> B" and fd: "fst ev \<in> insert listen_fd (entries t)"
    and a: "event_allowed listen_fd t w ev" and e: "ew_event L C F cfg listen_fd ev (t, w) = (t', w')"
  shows "clean w w' \<and> ew_inv F cfg B P W t' w' \<and> entries t - {fst ev} \<subseteq> entries t'"
proof -
  obtain fd revents where ev: "ev = (fd, revents)" by fastforce
  show ?thesis
  proof (cases "fd = listen_fd")
    case True
    then have "handle_listen_fd t w = (t', w')" using e by (simp add: ew_event_def ev)
    from handle_listen_keeps [OF inv W this] show ?thesis by auto
  next
    case False
    then have ent: "fd \<in> entries t" using fd by (simp add: ev)
    then consider (handover) h where "s_handoffs t fd = Some h" | (session) s where "s_handoffs t fd = None" "s_sessions t fd = Some s"
      by (cases "s_handoffs t fd") (auto simp: entries_def)
    then show ?thesis
    proof cases
      case handover
      have r: "0 \<le> fd" "fd < WORKER_MAX_FDS" using ew_invD(6) [OF inv handover] by simp_all
      have "revents AND EPOLLIN \<noteq> 0 \<and> handle_handoff_fd L F fd t w = (t', w') \<or> handoff_close fd t w = (t', w') \<or> (t, w) = (t', w')"
        using e False handover r by (auto simp: ew_event_def ev split: if_splits)
      then consider "revents AND EPOLLIN \<noteq> 0" "handle_handoff_fd L F fd t w = (t', w')"
        | "handoff_close fd t w = (t', w')" | "(t, w) = (t', w')" by blast
      then show ?thesis
      proof cases
        case 1
        then have "b2_gateway_message h w" using a handover False by (simp add: event_allowed_def ev)
        from handle_handoff_keeps [OF inv handover W this 1(2)] show ?thesis by (simp add: ev)
      next
        case 2
        from handoff_close_entry [OF inv handover W 2] show ?thesis by (auto simp: ev entries_def)
      qed (use inv in simp)
    next
      case session
      have r: "0 \<le> fd" "fd < WORKER_MAX_FDS" using ew_invD(5) [OF inv session(2)] by simp_all
      then have "ew_session_event L C F cfg s revents t w = (t', w')"
        using e False session by (simp add: ew_event_def ev)
      from session_event_keeps [OF inv session(2) W this] show ?thesis by (simp add: ev)
    qed
  qed
qed


subsection \<open>The loop\<close>

text \<open>
  The events \<^verbatim>\<open>epoll_wait\<close> returned and the loop has not handled yet, the tables and the world.  When none is left
  \<^verbatim>\<open>epoll_wait\<close> may return more; between the steps the kernel may deliver anything.
\<close>

inductive ew_step ::
  "'s wolfssl \<Rightarrow> crypto \<Rightarrow> 'f cdouble_num \<Rightarrow> ew_config \<Rightarrow> int \<Rightarrow>
     (int \<times> u32) list \<times> 'f ew_tables \<times> 's world \<Rightarrow> (int \<times> u32) list \<times> 'f ew_tables \<times> 's world \<Rightarrow> bool"
  for L C F cfg listen_fd where
  epoll_wait: "epoll_reports evs w \<Longrightarrow> ew_step L C F cfg listen_fd ([], t, w) (evs, t, w)"
| handle_event: "event_allowed listen_fd t w ev \<Longrightarrow> ew_event L C F cfg listen_fd ev (t, w) = (t', w') \<Longrightarrow>
    ew_step L C F cfg listen_fd (ev # evs, t, w) (evs, t', w')"
| kernel: "ew_step L C F cfg listen_fd (evs, t, w) (evs, t, w\<lparr>script := as, rxq := q\<rparr>)"

inductive_cases ew_stepE: "ew_step L C F cfg listen_fd (evs, t, w) (evs', t', w')"

definition ew_loop_inv ::
  "'f cdouble_num \<Rightarrow> ew_config \<Rightarrow> int set \<Rightarrow> int \<Rightarrow> 's world \<Rightarrow> (int \<times> u32) list \<times> 'f ew_tables \<times> 's world \<Rightarrow> bool" where
  "ew_loop_inv F cfg B listen_fd w0 st =
     (case st of (evs, t, w) \<Rightarrow>
        ew_inv F cfg B {} {listen_fd} t w \<and> clean w0 w
      \<and> distinct (map fst evs) \<and> set (map fst evs) \<subseteq> insert listen_fd (entries t))"

lemma ew_step_inv:
  assumes st: "ew_step L C F cfg listen_fd (evs, t, w) (evs', t', w')" and l: "listen_fd \<in> B"
    and inv: "ew_loop_inv F cfg B listen_fd w0 (evs, t, w)"
  shows "ew_loop_inv F cfg B listen_fd w0 (evs', t', w')"
proof -
  have i: "ew_inv F cfg B {} {listen_fd} t w" "clean w0 w" "distinct (map fst evs)"
    "set (map fst evs) \<subseteq> insert listen_fd (entries t)"
    using inv by (simp_all add: ew_loop_inv_def)
  consider (epoll_wait) "epoll_reports evs' w" "t' = t" "w' = w"
    | (event) ev where "evs = ev # evs'" "event_allowed listen_fd t w ev" "ew_event L C F cfg listen_fd ev (t, w) = (t', w')"
    | (kernel) as q where "evs' = evs" "t' = t" "w' = w\<lparr>script := as, rxq := q\<rparr>"
    by (rule ew_stepE [OF st]) blast+
  then show ?thesis
  proof cases
    case epoll_wait
    have "set (map fst evs') \<subseteq> insert listen_fd (entries t)"
      using epoll_wait(1) ew_invD(8) [OF i(1)] by (auto simp: epoll_reports_def entries_def)
    with i(1,2) epoll_wait show ?thesis by (simp add: ew_loop_inv_def epoll_reports_def)
  next
    case (event ev)
    have e: "fst ev \<in> insert listen_fd (entries t)" "fst ev \<notin> set (map fst evs')" "distinct (map fst evs')"
      "set (map fst evs') \<subseteq> insert listen_fd (entries t)"
      using i(3,4) event(1) by auto
    have "{listen_fd} \<subseteq> B" using l by simp
    note k = event_keeps [OF i(1) this e(1) event(2,3)]
    then have "set (map fst evs') \<subseteq> insert listen_fd (entries t')" using e(2,4) by blast
    with k e(3) clean_trans [OF i(2)] show ?thesis by (simp add: ew_loop_inv_def)
  next
    case (kernel as q)
    have "ew_inv F cfg B {} {listen_fd} t w'" by (rule ew_inv_world [OF i(1)]) (simp_all add: kernel live_def)
    with i kernel show ?thesis by (simp add: ew_loop_inv_def clean_def)
  qed
qed

lemma ew_run_inv:
  assumes "(ew_step L C F cfg listen_fd)\<^sup>*\<^sup>* st0 st" and "listen_fd \<in> B" and "ew_loop_inv F cfg B listen_fd w0 st0"
  shows "ew_loop_inv F cfg B listen_fd w0 st"
  using assms(1,3)
proof (induction rule: rtranclp_induct)
  case (step y z)
  then show ?case using ew_step_inv [OF _ assms(2)] by (cases y; cases z) blast
qed


text \<open>Starting opens the listener and the epoll instance, and watches the listener.\<close>

definition unwatched :: "'s world \<Rightarrow> 's world \<Rightarrow> bool" where
  "unwatched w w' = (watched (log w') \<subseteq> watched (log w) \<and> (\<forall>q. tls_output q (log w') = tls_output q (log w)))"

lemma unwatched_trans: "unwatched w w1 \<Longrightarrow> unwatched w1 w2 \<Longrightarrow> unwatched w w2"
  by (auto simp: unwatched_def)

lemma unwatched_prims:
  "log w' = log w \<Longrightarrow> unwatched w w'"
  "unwatched w (snd (sys_path (EvMkdir p) w))" "unwatched w (snd (sys_path (EvChmod p) w))"
  by (auto simp: unwatched_def sys_path_def split_beta)

lemma unix_server_socket_unwatched: "unwatched w (snd (unix_server_socket p w))"
  by (simp add: unwatched_def unix_server_socket_def split_beta Let_def)

lemma fn_listen_unwatched: "unwatched w (snd (fn_listen p (fn_directory d w)))"
proof -
  have d: "unwatched w (fn_directory d w)"
    by (simp add: fn_directory_def split_beta Let_def unwatched_prims(2) unwatched_trans [OF unwatched_prims(2) unwatched_prims(3)])
  let ?v = "fn_directory d w"
  let ?v1 = "snd (sys_status (snd (sys_status (snd (sys_alloc ?v)))))"
  have 1: "unwatched w ?v1" "unwatched w (snd (sys_alloc ?v))" by (rule unwatched_trans [OF d unwatched_prims(1)], simp)+
  have 2: "unwatched w (snd (unix_server_socket p ?v1))" by (rule unwatched_trans [OF 1(1) unix_server_socket_unwatched])
  with 1 unwatched_trans [OF 2 unwatched_prims(3)] show ?thesis by (simp add: fn_listen_def split_beta Let_def)
qed

lemma ew_start_effect:
  assumes "ew_start getenv w = (Inr (cfg, l, e), w')"
  shows "cfg = ew_config_of getenv" "0 \<le> l" "fds w' = e # l # fds w" "e \<notin> set (fds w)" "l \<notin> set (fds w)" "e \<noteq> l"
    "live w' = live w" "next_ssl w' = next_ssl w" "clean w w'"
    "watched (log w') \<subseteq> insert l (watched (log w))" "tls_output q (log w') = tls_output q (log w)"
proof -
  let ?p = "fn_sock_path (ew_socket_dir getenv) (s_function_name (ew_config_of getenv))"
  obtain r v where q: "fn_listen ?p (fn_directory (ew_socket_dir getenv) w) = (r, v)" by fastforce
  let ?v1 = "snd (unix_set_nonblocking l v)"
  let ?v2 = "snd (sys_newfd ?v1)"
  have r: "r = Inr l" "cfg = ew_config_of getenv" "e = fst (sys_newfd ?v1)" "0 \<le> e" "w' = snd (epoll_add_fd l ?v2)"
    using assms by (auto simp: ew_start_def q split_beta Let_def split: sum.splits if_splits)
  have s: "starts_at ?p l w v" using fn_start_effect q r(1) by blast
  have u: "unwatched w v" using fn_listen_unwatched [of w ?p "ew_socket_dir getenv"] by (simp add: q)
  have e: "e \<notin> set (fds ?v1)" "fds ?v2 = e # fds ?v1" using sys_newfd_fresh [of ?v1] r(3,4) by simp_all
  have v1: "fds ?v1 = fds v" "live ?v1 = live v" "next_ssl ?v1 = next_ssl v" "clean v ?v1"
    "watched (log ?v1) \<subseteq> watched (log v)" "tls_output q (log ?v1) = tls_output q (log v)" for q
    using calm_prims(4) [of v l] by (simp_all add: calm_def)
  have w': "fds w' = fds ?v2" "live w' = live v" "next_ssl w' = next_ssl v" "clean ?v1 w'"
    "watched (log w') \<subseteq> insert l (watched (log ?v1))" "tls_output q (log w') = tls_output q (log ?v1)" for q
    using v1 by (auto simp: r(5) epoll_add_fd_def epoll_call_def split_beta clean_def)
  show "cfg = ew_config_of getenv" by (rule r(2))
  show "0 \<le> l" "live w' = live w" "next_ssl w' = next_ssl w" "l \<notin> set (fds w)" using s w' by (simp_all add: starts_at_def)
  show "fds w' = e # l # fds w" "e \<notin> set (fds w)" "e \<noteq> l" using s w'(1) e v1(1) by (simp_all add: starts_at_def)
  show "clean w w'" using s v1(4) w'(4) by (simp add: clean_def starts_at_def)
  show "watched (log w') \<subseteq> insert l (watched (log w))" using u v1(5) w'(5) by (auto simp: unwatched_def)
  show "tls_output q (log w') = tls_output q (log w)" using u v1(6) w'(6) by (simp add: unwatched_def)
qed

text \<open>A process that has just started: no wolfSSL session, nothing watched, nothing sent.\<close>

definition new_process :: "'s world \<Rightarrow> bool" where
  "new_process w = (fd_wf w \<and> live w = {} \<and> log w = [])"

lemma owns_no_tables:
  "owns B no_tables x fd = (x = Process \<and> fd \<in> B)" "owns_ssl P no_tables y p = (y = None \<and> p \<in> P)"
  by (cases x; simp add: no_tables_def) (cases y; simp add: no_tables_def)

lemma ew_start_inv:
  assumes s: "ew_start getenv w = (Inr (cfg, l, e), w')" and n: "new_process w"
  shows "ew_loop_inv F cfg (insert l (insert e (set (fds w)))) l w ([], no_tables, w')"
proof -
  note s = ew_start_effect [OF s]
  let ?B = "insert l (insert e (set (fds w)))"
  have n': "fd_wf w" "live w = {}" "log w = []" using n by (simp_all add: new_process_def)
  have p: "one_owner (owns ?B no_tables) (set (fds w'))"
    using s(3) by (auto simp: one_owner_def owns_no_tables)
  have q: "one_owner (owns_ssl {} no_tables) (live w')"
    using s(7) n'(2) by (simp add: one_owner_def owns_no_tables)
  have "fd_wf w'" "ssl_wf w'" using s n' by (auto simp: fd_wf_def ssl_wf_def)
  with p q s(9-11) n' have "ew_inv F cfg ?B {} {l} no_tables w'" by (simp add: ew_inv_def no_tables_def)
  with s(9) show ?thesis by (simp add: ew_loop_inv_def)
qed


subsection \<open>Hand-overs in pieces\<close>

text \<open>What the kernel has for one event on the connection: nothing, or some more bytes.\<close>

definition arrival :: "bytes option \<Rightarrow> answer" where
  "arrival p = (case p of None \<Rightarrow> Err EAGAIN | Some d \<Rightarrow> Data d)"

definition piece :: "bytes option \<Rightarrow> bytes" where
  "piece p = (case p of None \<Rightarrow> [] | Some d \<Rightarrow> d)"

lemma piece_simps [simp]: "piece None = []" "piece (Some d) = d"
  by (simp_all add: piece_def)

lemma pieces_nonempty:
  assumes "ps \<noteq> []" "last ps \<noteq> None" "Some [] \<notin> set ps"
  shows "concat (map piece ps) \<noteq> []"
proof -
  obtain x where "last ps = Some x" using assms(2) by auto
  then have x: "Some x \<in> set ps" using assms(1) last_in_set by metis
  then have "x \<noteq> []" using assms(3) by auto
  with x show ?thesis by (auto simp: piece_def intro!: bexI [of _ "Some x"])
qed

lemma handoff_recv_data:
  assumes "script w = a # r" and "a = Data d \<and> c = None \<and> f = -1 \<and> v = w\<lparr>script := r\<rparr>
      \<or> a = Msg d (Some fd_cmsg) False \<and> c = Some fd_cmsg \<and> f = lowest_free (fds w) \<and> v = w\<lparr>fds := f # fds w, script := r\<rparr>"
    and "d \<noteq> []" and "length d \<le> k"
  shows "recvmsg_retry k w = ((int (length d), \<lparr>rm_data = d, rm_cmsg = c, rm_fd = f, rm_ctrunc = False\<rparr>), v)"
proof -
  have "rights_count (Some fd_cmsg) = Suc 0" by (simp add: rights_count_def fd_cmsg_def CMSG_LEN_int_def)
  with assms show ?thesis
    by (subst recvmsg_retry.simps) (auto simp: recvmsg_def next_answer_def Let_def)
qed

lemma handoff_recv_wait:
  assumes "script w = Err EAGAIN # r"
  shows "recvmsg_retry k w = ((-1, \<lparr>rm_data = [], rm_cmsg = None, rm_fd = -1, rm_ctrunc = False\<rparr>),
           w\<lparr>script := r, errno := EAGAIN\<rparr>)"
  using assms by (subst recvmsg_retry.simps) (simp add: recvmsg_def next_answer_def set_errno_def Let_def)

text \<open>One event on a hand-over.\<close>

lemma handover_waits:
  assumes "s_handoffs t c = Some \<lparr>hc_fd = c, hc_client_fd = f, hc_data = got\<rparr>" and "0 \<le> c" "c < WORKER_MAX_FDS"
    and "length got < SIZEOF_payload" and "script w = Err EAGAIN # r"
  shows "handle_handoff_fd L F c t w = (t, w\<lparr>script := r, errno := EAGAIN\<rparr>)"
  using assms by (simp add: handle_handoff_fd_def handoff_recv_nb_def handoff_recv_wait fun_upd_idem)

lemma handover_got:
  assumes h: "s_handoffs t c = Some \<lparr>hc_fd = c, hc_client_fd = f0, hc_data = got\<rparr>" and c: "0 \<le> c" "c < WORKER_MAX_FDS"
    and r: "recvmsg_retry (SIZEOF_payload - length got) w =
      ((int (length d), \<lparr>rm_data = d, rm_cmsg = m, rm_fd = g, rm_ctrunc = False\<rparr>), v)"
    and m: "m = None \<and> f = f0 \<or> m = Some fd_cmsg \<and> f0 < 0 \<and> f = g"
    and d: "d \<noteq> []" "length got < SIZEOF_payload" "length got + length d \<le> SIZEOF_payload" and f: "0 \<le> f"
  shows "handle_handoff_fd L F c t w =
    (if length got + length d < SIZEOF_payload
     then (put_handoff c (Some \<lparr>hc_fd = c, hc_client_fd = f, hc_data = got @ d\<rparr>) t, v)
     else register_client_fd L F f (bytes_payload (overwrite (zeros SIZEOF_payload) (got @ d)))
            (put_handoff c None t) (close c (epoll_del c v)))"
proof -
  have "handoff_recv_nb \<lparr>hc_fd = c, hc_client_fd = f0, hc_data = got\<rparr> w =
      ((if length got + length d < SIZEOF_payload then 0 else 1, \<lparr>hc_fd = c, hc_client_fd = f, hc_data = got @ d\<rparr>), v)"
    using c d f m by (auto simp: handoff_recv_nb_def r fd_cmsg_def)
  with h c show ?thesis by (simp add: handle_handoff_fd_def handoff_close_eq close_if_open_def)
qed

lemma handover_rest:
  assumes "s_handoffs t c = Some \<lparr>hc_fd = c, hc_client_fd = f, hc_data = got\<rparr>" and c: "0 \<le> c" "c < WORKER_MAX_FDS" and f: "0 \<le> f"
    and "length got < SIZEOF_payload" and "length (got @ concat (map piece ps)) = SIZEOF_payload"
    and "script w = map arrival ps @ as" and "Some [] \<notin> set ps" and "ps \<noteq> []" "last ps \<noteq> None"
  shows "fold (\<lambda>_ (t, w). handle_handoff_fd L F c t w) ps (t, w) =
    register_client_fd L F f (bytes_payload (overwrite (zeros SIZEOF_payload) (got @ concat (map piece ps))))
      (put_handoff c None t)
      (close c (epoll_del c (w\<lparr>script := as, errno := if None \<in> set ps then EAGAIN else errno w\<rparr>)))"
  using assms(1,5-10)
proof (induction ps arbitrary: t w got)
  case (Cons p ps)
  show ?case
  proof (cases p)
    case None
    have 1: "handle_handoff_fd L F c t w = (t, w\<lparr>script := map arrival ps @ as, errno := EAGAIN\<rparr>)"
      by (rule handover_waits [OF Cons.prems(1) c Cons.prems(2)]) (use Cons.prems(4) None in \<open>simp add: arrival_def\<close>)
    have ne: "ps \<noteq> []" using Cons.prems(6,7) None by auto
    note IH = Cons.IH [OF Cons.prems(1,2), of "w\<lparr>script := map arrival ps @ as, errno := EAGAIN\<rparr>"]
    from IH Cons.prems None ne 1 show ?thesis by (simp add: piece_def)
  next
    case (Some d)
    let ?v = "w\<lparr>script := map arrival ps @ as\<rparr>"
    have d: "d \<noteq> []" "length got + length d \<le> SIZEOF_payload"
      using Cons.prems(3,5) Some by (auto simp: piece_def)
    have r: "recvmsg_retry (SIZEOF_payload - length got) w =
        ((int (length d), \<lparr>rm_data = d, rm_cmsg = None, rm_fd = -1, rm_ctrunc = False\<rparr>), ?v)"
      by (rule handoff_recv_data) (use Cons.prems(2,4) Some d in \<open>auto simp: arrival_def\<close>)
    have m: "None = None \<and> f = f \<or> None = Some fd_cmsg \<and> f < 0 \<and> f = -1" by simp
    note 1 = handover_got [OF Cons.prems(1) c r m d(1) Cons.prems(2) d(2) f, of L F]
    show ?thesis
    proof (cases "ps = []")
      case True
      with 1 Cons.prems(3) Some show ?thesis by (simp add: piece_def fun_upd_def)
    next
      case False
      have nn: "concat (map piece ps) \<noteq> []" by (rule pieces_nonempty) (use Cons.prems(5,7) False in auto)
      have "length got + length d + length (concat (map piece ps)) = SIZEOF_payload" using Cons.prems(3) Some by simp
      moreover have "length (concat (map piece ps)) \<noteq> 0" using nn by (simp only: length_0_conv not_False_eq_True)
      ultimately have lt: "length got + length d < SIZEOF_payload" by linarith
      let ?t = "put_handoff c (Some \<lparr>hc_fd = c, hc_client_fd = f, hc_data = got @ d\<rparr>) t"
      have 2: "handle_handoff_fd L F c t w = (?t, ?v)" using 1 lt by simp
      have h: "s_handoffs ?t c = Some \<lparr>hc_fd = c, hc_client_fd = f, hc_data = got @ d\<rparr>" by simp
      have g: "length (got @ d) < SIZEOF_payload" using lt by simp
      have "length ((got @ d) @ concat (map piece ps)) = SIZEOF_payload" "script ?v = map arrival ps @ as" "Some [] \<notin> set ps"
        "last ps \<noteq> None" using Cons.prems(3-5,7) Some False by simp_all
      note IH = Cons.IH [OF h g this(1-3) False this(4)]
      have t: "put_handoff c None ?t = put_handoff c None t" by simp
      show ?thesis using IH 2 Some unfolding t by (simp add: fun_upd_def)
    qed
  qed
qed simp


text \<open>All the events of a hand-over together.\<close>

lemma handover_pieces:
  assumes "payload_wf pl" and "d @ concat (map piece ps) = payload_bytes pl" and "d \<noteq> []" and "Some [] \<notin> set ps"
    and "ps = [] \<or> last ps \<noteq> None" and "script w = Msg d (Some fd_cmsg) False # map arrival ps @ as"
    and "s_handoffs t c = Some \<lparr>hc_fd = c, hc_client_fd = -1, hc_data = []\<rparr>" and "0 \<le> c" "c < WORKER_MAX_FDS"
  shows "fold (\<lambda>_ (t, w). handle_handoff_fd L F c t w) (Some d # ps) (t, w) =
    register_client_fd L F (lowest_free (fds w)) pl (put_handoff c None t)
      (close c (epoll_del c (w\<lparr>fds := lowest_free (fds w) # fds w, script := as,
                              errno := if None \<in> set ps then EAGAIN else errno w\<rparr>)))"
proof -
  let ?f = "lowest_free (fds w)"
  let ?v = "w\<lparr>fds := ?f # fds w, script := map arrival ps @ as\<rparr>"
  have len: "length (d @ concat (map piece ps)) = SIZEOF_payload" using assms(1,2) length_payload_bytes by simp
  have pl: "bytes_payload (overwrite (zeros SIZEOF_payload) (d @ concat (map piece ps))) = pl"
    using len assms(1) by (simp add: assms(2) overwrite_full bytes_payload_payload_bytes)
  have r: "recvmsg_retry (SIZEOF_payload - length ([] :: bytes)) w =
      ((int (length d), \<lparr>rm_data = d, rm_cmsg = Some fd_cmsg, rm_fd = ?f, rm_ctrunc = False\<rparr>), ?v)"
    by (rule handoff_recv_data [OF assms(6)]) (use len assms(3) in auto)
  have m: "Some fd_cmsg = None \<and> ?f = -1 \<or> Some fd_cmsg = Some fd_cmsg \<and> (-1 :: int) < 0 \<and> ?f = ?f" by simp
  have sz: "length ([] :: bytes) < SIZEOF_payload" "length ([] :: bytes) + length d \<le> SIZEOF_payload"
    using len by (simp_all add: SIZEOF_payload_def)
  note 1 = handover_got [OF assms(7-9) r m assms(3) sz lowest_free_nonneg, of L F]
  show ?thesis
  proof (cases "ps = []")
    case True
    with 1 len pl show ?thesis by simp
  next
    case False
    have nn: "concat (map piece ps) \<noteq> []" by (rule pieces_nonempty) (use assms(4,5) False in auto)
    let ?t = "put_handoff c (Some \<lparr>hc_fd = c, hc_client_fd = ?f, hc_data = d\<rparr>) t"
    have lt: "length d < SIZEOF_payload" using len nn by (metis length_append length_greater_0_conv less_add_same_cancel1)
    have 2: "handle_handoff_fd L F c t w = (?t, ?v)" using 1 lt by simp
    have "s_handoffs ?t c = Some \<lparr>hc_fd = c, hc_client_fd = ?f, hc_data = d\<rparr>" by simp
    from handover_rest [OF this assms(8,9) lowest_free_nonneg lt len, of ?v as L F] 2 pl assms(4,5) False
    show ?thesis by simp
  qed
qed

subsection \<open>The header of the answer\<close>

text \<open>A line that makes \<^verbatim>\<open>has_connection_close\<close> succeed; what the scan does with the lines of a header.\<close>

definition closing_line :: "bytes \<Rightarrow> bool" where
  "closing_line l = (11 \<le> length l \<and> b2_key_matches l (cs ''connection:'') \<and> b2_close_in (drop 11 l))"

lemma close_scan_line:
  assumes "LF \<notin> set l"
  shows "b2_has_connection_close (l @ LF # r) (Suc (length l + k)) = (closing_line l \<or> b2_has_connection_close r k)"
proof -
  have m: "memchr (l @ LF # r) LF (Suc (length l + k)) = Some (length l)" by (rule memchr_line) (use assms in auto)
  have ll: "line_len (l @ LF # r) (Suc (length l + k)) = Suc (length l)" by (simp add: line_len_def m)
  have key: "11 \<le> length l \<Longrightarrow> b2_key_matches (l @ LF # r) (cs ''connection:'') = b2_key_matches l (cs ''connection:'')"
    by (simp add: b2_key_matches_def)
  show ?thesis
    by (subst b2_has_connection_close.simps) (auto simp: m ll closing_line_def key)
qed

lemma closing_line_differs:
  assumes "i < 11" "i < length l" "tolower (l ! i) \<noteq> cs ''connection:'' ! i"
  shows "\<not> closing_line l"
proof
  assume "closing_line l"
  moreover have "length (cs ''connection:'') = 11" by (simp add: cs_def)
  ultimately have "map tolower (take 11 l) = cs ''connection:''" unfolding closing_line_def b2_key_matches_def by metis
  then have "map tolower (take 11 l) ! i = cs ''connection:'' ! i" by simp
  with assms show False by simp
qed

lemma closing_line_connection: "closing_line (cs ''Connection:'' @ v) = b2_close_in v"
  by (simp add: closing_line_def b2_key_matches_def cs_def tolower_def)

fun close_in_lines :: "bytes list \<Rightarrow> bool" where
  "close_in_lines [] = False"
| "close_in_lines (l # ls) = (closing_line l \<or> close_in_lines ls)"

lemma close_scan_lines:
  "\<forall>l \<in> set ls. LF \<notin> set l \<Longrightarrow>
     b2_has_connection_close (unlines ls @ r) (length (unlines ls)) = close_in_lines ls"
proof (induction ls)
  case Nil
  show ?case by (simp add: b2_has_connection_close.simps)
next
  case (Cons l ls)
  then show ?case using close_scan_line [of l "unlines ls @ r" "length (unlines ls)"] by simp
qed

text \<open>The header of an answer by its lines: the padding and the connection header are one line.\<close>

definition answer_lines :: "nat \<Rightarrow> bool \<Rightarrow> bytes \<Rightarrow> bytes list" where
  "answer_lines pad closing json =
     [cs ''HTTP/1.1 200 OK'' @ [CR], cs ''Content-Type: application/json'' @ [CR],
      cs ''Content-Length: '' @ dec_digits (length json) @ [CR],
      b2_pad_header pad @ cs ''Connection: '' @ (if closing then cs ''close'' else cs ''keep-alive'') @ [CR], [CR]]"

lemma b2_response_lines: "b2_response pad closing json = unlines (answer_lines pad closing json) @ json"
  by (simp add: b2_response_def answer_lines_def)

lemma answer_lines_no_LF: "\<forall>l \<in> set (answer_lines pad closing json). LF \<notin> set l"
  using digits_no_LF [of "length json"]
  by (auto simp: answer_lines_def b2_pad_header_def cs_def)

text \<open>
  When no call of the worker fails, registering a client gives a session that holds what wolfSSL imports
  from the payload.
\<close>

lemma register_client_ok:
  fixes L :: "'s wolfssl"
  assumes v: "script v = replicate 6 (Ok 0) @ as"
    and m: "pl_magic pl = BENCH2_KA_MAGIC" "pl_version pl = BENCH2_KA_VERSION" "ser_magic (pl_serial pl) = TLSPEEK_MAGIC"
    and fd: "0 \<le> fd" "fd < WORKER_MAX_FDS"
    and i: "ws_import L (take (unat (ser_blob_sz (pl_serial pl))) (ser_tls_blob (pl_serial pl))) (ws_set_fd L fd (ws_fresh L))
              = (r, s)" "0 < r"
  shows "\<exists>v'. register_client_fd L F fd pl t v = (put_session fd (Some (fresh_session F fd (next_ssl v) pl)) t, v')
           \<and> fds v' = fds v \<and> ssls v' = (ssls v)(next_ssl v \<mapsto> ws_set_fd L fd s)"
proof -
  let ?p = "next_ssl v"
  have sc: "script v = Ok 0 # Ok 0 # Ok 0 # Ok 0 # Ok 0 # Ok 0 # as" using v by (simp add: eval_nat_numeral)
  let ?v1 = "v\<lparr>log := EvNonblock fd # log v, script := Ok 0 # Ok 0 # Ok 0 # Ok 0 # as\<rparr>"
  let ?v2 = "v\<lparr>log := EvNonblock fd # log v, script := Ok 0 # Ok 0 # Ok 0 # as\<rparr>"
  have 1: "unix_set_nonblocking fd v = (0, ?v1)"
    using sc by (simp add: unix_set_nonblocking_def sys_value_def sys_status_def next_answer_def emit_def)
  have 2: "sys_alloc ?v1 = (True, ?v2)" by (simp add: sys_alloc_def sys_status_def next_answer_def)
  obtain v3 where 3: "wolfSSL_new L ?v2 = (Some ?p, v3)" "script v3 = Ok 0 # Ok 0 # as" "ssls v3 = (ssls v)(?p \<mapsto> ws_fresh L)"
      "fds v3 = fds v"
    by (simp add: wolfSSL_new_def sys_alloc_def sys_status_def next_answer_def Let_def)
  define v4 where "v4 = wolfSSL_set_fd L ?p fd v3"
  have 4: "script v4 = Ok 0 # Ok 0 # as" "ssls v4 = (ssls v)(?p \<mapsto> ws_set_fd L fd (ws_fresh L))" "fds v4 = fds v"
    using 3 by (simp_all add: v4_def wolfSSL_set_fd_def ssl_modify_def)
  obtain v5 where 5: "tlspeek_restore L ?p (pl_serial pl) v4 = (0, v5)" "script v5 = Ok 0 # Ok 0 # as"
      "ssls v5 = (ssls v)(?p \<mapsto> s)" "fds v5 = fds v"
    using 4 m(3) i by (simp add: tlspeek_restore_def wolfSSL_tls_import_def flag_ub_def Let_def)
  define v6 where "v6 = wolfSSL_set_fd L ?p fd v5"
  have 6: "script v6 = Ok 0 # Ok 0 # as" "ssls v6 = (ssls v)(?p \<mapsto> ws_set_fd L fd s)" "fds v6 = fds v"
    using 5 by (simp_all add: v6_def wolfSSL_set_fd_def ssl_modify_def)
  let ?s = "fresh_session F fd ?p pl"
  have "session_new L F fd pl t v = (Some ?s, put_session fd (Some ?s) t, v6\<lparr>script := Ok 0 # as\<rparr>)"
    using 6 fd by (simp add: session_new_def 1 2 3 v4_def [symmetric] 5 v6_def [symmetric] Let_def
        sys_alloc_def sys_status_def next_answer_def)
  then show ?thesis
    using m 6 by (simp add: register_client_fd_def epoll_add_fd_def epoll_call_def sys_status_def next_answer_def emit_def)
qed

subsection \<open>A concrete run\<close>

text \<open>Whole numbers, one payload, and the worker up to its first session.\<close>

definition whole_numbers_lit :: "nat cdouble_num" where
  "whole_numbers_lit =
     \<lparr>d_zero = 0, d_atof = (\<lambda>s. digits_value 0 (takeWhile isdigit s)), d_add = (+), d_mul = (*),
      d_fmt2 = (\<lambda>n. dec_digits n @ cs ''.00''),
      d_strtod = (\<lambda>s. (digits_value 0 (takeWhile isdigit s), length (takeWhile isdigit s))), d_nat = (\<lambda>n. n)\<rparr>"

definition demo_payload :: ka_payload where
  "demo_payload = zero_payload\<lparr>pl_magic := BENCH2_KA_MAGIC, pl_version := BENCH2_KA_VERSION,
                               pl_serial := zero_serial\<lparr>ser_magic := TLSPEEK_MAGIC\<rparr>\<rparr>"

lemma demo_payload_wf: "payload_wf demo_payload"
  by (simp add: demo_payload_def payload_wf_def zero_payload_def serial_wf_def zero_serial_def)

lemma demo_start:
  "\<exists>w1. ew_start no_env (fn_world [Ok 0, Ok 0, Ok 0, Ok 0]) = (Inr (ew_config_of no_env, 0, 1), w1)
      \<and> fds w1 = [1, 0] \<and> 0 \<in> watched (log w1)"
proof -
  obtain v where v: "fn_listen (fn_sock_path (ew_socket_dir no_env) (s_function_name (ew_config_of no_env)))
      (fn_directory (ew_socket_dir no_env) (fn_world [Ok 0, Ok 0, Ok 0, Ok 0])) = (Inr 0, v)"
    "script v = [Ok 0, Ok 0, Ok 0, Ok 0]" "fds v = [0]"
    using fn_listen_world by blast
  show ?thesis
    using v by (simp add: ew_start_def unix_set_nonblocking_def sys_value_def sys_status_def sys_newfd_def next_answer_def
        epoll_add_fd_def epoll_call_def lowest_free_def emit_def Let_def)
qed

lemma demo_accept:
  assumes "fds w = [1, 0]" and "script w = [Ok 0, Ok 0, Ok 0]"
  shows "\<exists>w'. handle_listen_fd t w = (put_handoff 2 (Some \<lparr>hc_fd = 2, hc_client_fd = -1, hc_data = []\<rparr>) t, w')
      \<and> fds w' = [2, 1, 0] \<and> 2 \<in> watched (log w')"
proof -
  let ?t = "put_handoff 2 (Some \<lparr>hc_fd = 2, hc_client_fd = -1, hc_data = []\<rparr>) t"
  let ?w1 = "w\<lparr>fds := [2, 1, 0], script := [Ok 0, Ok 0]\<rparr>"
  let ?w2 = "w\<lparr>fds := [2, 1, 0], script := [], log := EvEpollAdd 2 # log w\<rparr>"
  have n: "sys_newfd w = (2, ?w1)" using assms by (simp add: sys_newfd_def next_answer_def lowest_free_def Let_def)
  have a: "accept_handoff 2 t ?w1 = (?t, ?w2)"
    by (simp add: accept_handoff_def WORKER_MAX_FDS_def sys_alloc_def sys_status_def next_answer_def epoll_add_fd_def
        epoll_call_def emit_def Let_def)
  have e: "sys_newfd ?w2 = (-1, ?w2\<lparr>errno := EOTHER\<rparr>)" by (simp add: sys_newfd_def next_answer_def set_errno_def)
  have "handle_listen_fd ?t ?w2 = (?t, ?w2\<lparr>errno := EOTHER\<rparr>)" by (subst handle_listen_fd.simps) (simp add: e)
  then have "handle_listen_fd t w = (?t, ?w2\<lparr>errno := EOTHER\<rparr>)" by (simp add: handle_listen_fd.simps [of t w] n a)
  then show ?thesis by simp
qed


lemma demo_register:
  assumes "script v = [Ok 0, Ok 0, Ok 0, Ok 0, Ok 0, Ok 0]"
  shows "\<exists>s t' v'. register_client_fd echo_ssl whole_numbers_lit 3 demo_payload t v = (t', v') \<and> s_sessions t' 3 = Some s"
proof -
  have v: "script v = replicate 6 (Ok 0) @ []" using assms by (simp add: eval_nat_numeral)
  have m: "pl_magic demo_payload = BENCH2_KA_MAGIC" "pl_version demo_payload = BENCH2_KA_VERSION"
    "ser_magic (pl_serial demo_payload) = TLSPEEK_MAGIC" by (simp_all add: demo_payload_def)
  from register_client_ok [OF v m, where fd = 3 and L = echo_ssl and F = whole_numbers_lit and t = t] show ?thesis
    by (auto simp: WORKER_MAX_FDS_def echo_ssl_def)
qed


text \<open>Start, an accepted connection, and its hand-over: the worker has its first session.\<close>

lemma demo_run:
  "\<exists>w1 t w s. ew_start no_env (fn_world [Ok 0, Ok 0, Ok 0, Ok 0]) = (Inr (ew_config_of no_env, 0, 1), w1)
     \<and> (ew_step echo_ssl clear_crypto whole_numbers_lit (ew_config_of no_env) 0)\<^sup>*\<^sup>* ([], no_tables, w1) ([], t, w)
     \<and> s_sessions t 3 = Some s"
proof -
  let ?step = "ew_step echo_ssl clear_crypto whole_numbers_lit (ew_config_of no_env) 0"
  let ?b = "payload_bytes demo_payload"
  let ?h = "\<lparr>hc_fd = 2, hc_client_fd = -1, hc_data = []\<rparr>"
  obtain w1 where w1: "ew_start no_env (fn_world [Ok 0, Ok 0, Ok 0, Ok 0]) = (Inr (ew_config_of no_env, 0, 1), w1)"
    "fds w1 = [1, 0]" "0 \<in> watched (log w1)" using demo_start by blast
  define v1 where "v1 = w1\<lparr>script := [Ok 0, Ok 0, Ok 0], rxq := rxq w1\<rparr>"
  have s1: "?step ([], no_tables, w1) ([], no_tables, v1)" unfolding v1_def by (rule ew_step.kernel)
  have s2: "?step ([], no_tables, v1) ([(0, EPOLLIN)], no_tables, v1)"
    by (rule ew_step.epoll_wait) (use w1(3) in \<open>simp add: epoll_reports_def v1_def\<close>)
  define t2 where "t2 = put_handoff 2 (Some ?h) (no_tables :: nat ew_tables)"
  obtain w2 where w2: "handle_listen_fd no_tables v1 = (t2, w2)" "fds w2 = [2, 1, 0]" "2 \<in> watched (log w2)"
    using demo_accept [of v1 "no_tables :: nat ew_tables"] w1(2) unfolding t2_def v1_def by auto
  have s3: "?step ([(0, EPOLLIN)], no_tables, v1) ([], t2, w2)"
    by (rule ew_step.handle_event) (use w2(1) in \<open>simp_all add: event_allowed_def ew_event_def no_tables_def\<close>)
  define v2 where "v2 = w2\<lparr>script := Msg ?b (Some fd_cmsg) False # replicate 7 (Ok 0), rxq := rxq w2\<rparr>"
  have s4: "?step ([], t2, w2) ([], t2, v2)" unfolding v2_def by (rule ew_step.kernel)
  have s5: "?step ([], t2, v2) ([(2, EPOLLIN)], t2, v2)"
    by (rule ew_step.epoll_wait) (use w2(3) in \<open>simp add: epoll_reports_def v2_def\<close>)
  have len: "length ?b = SIZEOF_payload" by (rule length_payload_bytes [OF demo_payload_wf])
  have pl: "bytes_payload (overwrite (zeros SIZEOF_payload) ?b) = demo_payload"
    using len demo_payload_wf by (simp add: overwrite_full bytes_payload_payload_bytes)
  have ne: "?b \<noteq> []" "0 < SIZEOF_payload" using len by (auto simp: SIZEOF_payload_def)
  let ?v3 = "v2\<lparr>fds := 3 # fds v2, script := replicate 7 (Ok 0)\<rparr>"
  have lf: "lowest_free (fds v2) = 3" using w2(2) by (simp add: v2_def lowest_free_def)
  have r: "recvmsg_retry (SIZEOF_payload - length ([] :: bytes)) v2 =
      ((int (length ?b), \<lparr>rm_data = ?b, rm_cmsg = Some fd_cmsg, rm_fd = 3, rm_ctrunc = False\<rparr>), ?v3)"
    by (rule handoff_recv_data [where a = "Msg ?b (Some fd_cmsg) False"]) (use len lf ne in \<open>simp_all add: v2_def\<close>)
  have h2: "s_handoffs t2 2 = Some ?h" by (simp add: t2_def)
  have g: "b2_gateway_message ?h v2"
    using r pl len ne by (simp add: b2_gateway_message_def) (simp add: demo_payload_def zero_serial_def)
  let ?v4 = "close 2 (epoll_del 2 ?v3)"
  have "script (close fd w) = script w" for fd and w :: "bytes world" by (simp add: close_def emit_def)
  then have sc: "script ?v4 = [Ok 0, Ok 0, Ok 0, Ok 0, Ok 0, Ok 0]"
    by (simp add: epoll_del_def sys_status_def next_answer_def emit_def numeral_eq_Suc)
  obtain s t3 w3 where w3: "register_client_fd echo_ssl whole_numbers_lit 3 demo_payload (put_handoff 2 None t2) ?v4 = (t3, w3)"
    "s_sessions t3 3 = Some s" using demo_register [OF sc] by metis
  have c: "(0 :: int) \<le> 2" "(2 :: int) < WORKER_MAX_FDS" by (simp_all add: WORKER_MAX_FDS_def)
  have m: "Some fd_cmsg = None \<and> (3 :: int) = -1 \<or> Some fd_cmsg = Some fd_cmsg \<and> (-1 :: int) < 0 \<and> (3 :: int) = 3" by simp
  have sz: "length ([] :: bytes) < SIZEOF_payload" "length ([] :: bytes) + length ?b \<le> SIZEOF_payload" "(0 :: int) \<le> 3"
    using len ne by simp_all
  have "handle_handoff_fd echo_ssl whole_numbers_lit 2 t2 v2 = (t3, w3)"
    using handover_got [OF h2 c r m ne(1) sz, of echo_ssl whole_numbers_lit] len pl w3(1) by simp
  then have "?step ([(2, EPOLLIN)], t2, v2) ([], t3, w3)"
    by (intro ew_step.handle_event)
       (use h2 g in \<open>simp_all add: event_allowed_def ew_event_def WORKER_MAX_FDS_def EPOLLIN_def\<close>)
  with s1 s2 s3 s4 s5 have "?step\<^sup>*\<^sup>* ([], no_tables, w1) ([], t3, w3)"
    by (meson rtranclp.rtrancl_refl rtranclp.rtrancl_into_rtrancl)
  with w1(1) w3(2) show ?thesis by blast
qed

lemma new_process_fn_world: "new_process (fn_world as)"
  by (simp add: new_process_def fd_wf_def fn_world_def)

subsection \<open>Properties\<close>

text \<open>
  C6. The event-driven worker never loses or closes twice what it is given.  From its start on, in every state its
  loop reaches, however the events of its connections interleave: every open descriptor has exactly one owner (what it
  was started with, the listener and the epoll instance belong to the process, any other to a session of the table, to
  a hand-over, or to the hand-over that has received it); the live wolfSSL sessions are exactly those of the table, each
  of one entry; no descriptor was closed twice and no array overrun.  Hand-overs may fail, end early or come in
  pieces; what is assumed of them (\<open>event_allowed\<close>) is what the gateways keep to: control data of one
  descriptor, and in a complete payload a blob length within its array.
\<close>

theorem event_worker_owns_every_descriptor:
  assumes "ew_start getenv w0 = (Inr (cfg, l, e), w1)" and "new_process w0"
    and "(ew_step L C F cfg l)\<^sup>*\<^sup>* ([], no_tables, w1) (evs, t, w)"
  shows "one_owner (owns (insert l (insert e (set (fds w0)))) t) (set (fds w)) \<and> one_owner (owns_ssl {} t) (live w)
       \<and> ub w = ub w0 \<and> bad_closes (log w) = 0"
proof -
  have "ew_loop_inv F cfg (insert l (insert e (set (fds w0)))) l w0 (evs, t, w)"
    by (rule ew_run_inv [OF assms(3) _ ew_start_inv [OF assms(1,2)]]) simp
  then have i: "ew_inv F cfg (insert l (insert e (set (fds w0)))) {} {l} t w" "clean w0 w" by (simp_all add: ew_loop_inv_def)
  with ew_invD(3,4) [OF i(1)] assms(2) show ?thesis by (simp add: clean_def new_process_def)
qed

theorem event_worker_owns_every_descriptor_witness:
  "\<exists>w1 t w s. ew_start no_env (fn_world [Ok 0, Ok 0, Ok 0, Ok 0]) = (Inr (ew_config_of no_env, 0, 1), w1)
      \<and> s_sessions (t :: nat ew_tables) 3 = Some s \<and> one_owner (owns {0, 1} t) (set (fds (w :: bytes world))) \<and> one_owner (owns_ssl {} t) (live w)
      \<and> \<not> ub w \<and> bad_closes (log w) = 0"
proof -
  obtain w1 t w s where r: "ew_start no_env (fn_world [Ok 0, Ok 0, Ok 0, Ok 0]) = (Inr (ew_config_of no_env, 0, 1), w1)"
    "(ew_step echo_ssl clear_crypto whole_numbers_lit (ew_config_of no_env) 0)\<^sup>*\<^sup>* ([], no_tables, w1) ([], t, w)"
    "s_sessions t 3 = Some s" using demo_run by blast
  have "one_owner (owns {0, 1} t) (set (fds w)) \<and> one_owner (owns_ssl {} t) (live w) \<and> \<not> ub w \<and> bad_closes (log w) = 0"
    using event_worker_owns_every_descriptor [OF r(1) new_process_fn_world r(2)] by (simp add: fn_world_def)
  with r(1,3) show ?thesis by blast
qed

text \<open>
  C7. However the events of many connections interleave, each client gets its answers whole and in order: what a
  session has sent is the answers to its requests 1, 2, ..., each complete and none of them closing, followed by a
  prefix of the answer to the current request (nothing, while that is not due).  Of hand-overs
  only \<open>event_allowed\<close> is assumed: control data of one descriptor, a blob within its array.
\<close>

theorem event_worker_answers_in_order:
  assumes "ew_start getenv w0 = (Inr (cfg, l, e), w1)" and "new_process w0"
    and "(ew_step L C F cfg l)\<^sup>*\<^sup>* ([], no_tables, w1) (evs, t, w)" and "s_sessions t fd = Some s"
  shows "es_fd s = fd
       \<and> (\<exists>done. tls_output (es_ssl s) (log w) = concat done @ take (es_resp_off s) (es_resp s)
            \<and> es_req_no s = of_nat (Suc (length done))
            \<and> (\<forall>i < length done. \<exists>a b. done ! i =
                  b2_response (s_response_pad_bytes cfg) False (b2_json F (s_function_name cfg) (of_nat (Suc i)) a b)))
       \<and> es_resp s = (if es_state s = WS_WRITE_RESPONSE
                       then b2_response (s_response_pad_bytes cfg) (es_should_close s)
                              (b2_json F (s_function_name cfg) (es_req_no s) (es_operand_a s) (es_operand_b s)) else [])"
proof -
  have "ew_loop_inv F cfg (insert l (insert e (set (fds w0)))) l w0 (evs, t, w)"
    by (rule ew_run_inv [OF assms(3) _ ew_start_inv [OF assms(1,2)]]) simp
  then have "ew_inv F cfg (insert l (insert e (set (fds w0)))) {} {l} t w" by (simp add: ew_loop_inv_def)
  from ew_invD(5) [OF this assms(4)] have s: "es_fd s = fd" "sends_in_order F cfg s (log w)" by simp_all
  from s(2) obtain dn where "earlier_answers F cfg dn" "es_req_no s = of_nat (Suc (length dn))" "answer_due F cfg s"
    "tls_output (es_ssl s) (log w) = concat dn @ take (es_resp_off s) (es_resp s)" unfolding sends_in_order_def by blast
  with s(1) show ?thesis unfolding earlier_answers_def answer_due_def current_answer_def by auto
qed

theorem event_worker_answers_in_order_witness:
  "\<exists>t w s. s_sessions (t :: nat ew_tables) 3 = Some s \<and> es_fd s = 3
      \<and> (\<exists>done. tls_output (es_ssl s) (log (w :: bytes world)) = concat done @ take (es_resp_off s) (es_resp s)
           \<and> es_req_no s = of_nat (Suc (length done)))"
proof -
  obtain w1 t w s where r: "ew_start no_env (fn_world [Ok 0, Ok 0, Ok 0, Ok 0]) = (Inr (ew_config_of no_env, 0, 1), w1)"
    "(ew_step echo_ssl clear_crypto whole_numbers_lit (ew_config_of no_env) 0)\<^sup>*\<^sup>* ([], no_tables, w1) ([], t, w)"
    "s_sessions t 3 = Some s" using demo_run by blast
  note o = event_worker_answers_in_order [OF r(1) new_process_fn_world r(2,3)]
  obtain dn where "tls_output (es_ssl s) (log w) = concat dn @ take (es_resp_off s) (es_resp s)"
    "es_req_no s = of_nat (Suc (length dn))" using o by blast
  with conjunct1 [OF o] r(3) show ?thesis by (intro exI [of _ t] exI [of _ w] exI [of _ s] exI [of _ dn] conjI)
qed

text \<open>
  C12. A hand-over may arrive in any pieces, the descriptor with the first and pauses between them: the events on its
  connection together do exactly what registering the client with the payload the gateway sent does, once the
  connection is closed and its entry gone.
\<close>

theorem handover_any_pieces:
  assumes "payload_wf pl" and "d @ concat (map piece ps) = payload_bytes pl" and "d \<noteq> []" and "Some [] \<notin> set ps"
    and "ps = [] \<or> last ps \<noteq> None" and "script w = Msg d (Some fd_cmsg) False # map arrival ps @ as"
    and "s_handoffs t c = Some \<lparr>hc_fd = c, hc_client_fd = -1, hc_data = []\<rparr>" and "0 \<le> c" "c < WORKER_MAX_FDS"
  shows "fold (\<lambda>_ (t, w). handle_handoff_fd L F c t w) (Some d # ps) (t, w) =
    register_client_fd L F (lowest_free (fds w)) pl (put_handoff c None t)
      (close c (epoll_del c (w\<lparr>fds := lowest_free (fds w) # fds w, script := as,
                              errno := if None \<in> set ps then EAGAIN else errno w\<rparr>)))"
  using handover_pieces [OF assms] .

theorem handover_any_pieces_witness:
  "fold (\<lambda>_ (t, w). handle_handoff_fd echo_ssl whole_numbers_lit 2 t w)
     [Some (take 8 (payload_bytes demo_payload)), None, Some (drop 8 (payload_bytes demo_payload))]
     (put_handoff 2 (Some \<lparr>hc_fd = 2, hc_client_fd = -1, hc_data = []\<rparr>) no_tables,
      boot [Msg (take 8 (payload_bytes demo_payload)) (Some fd_cmsg) False, Err EAGAIN,
            Data (drop 8 (payload_bytes demo_payload))])
   = register_client_fd echo_ssl whole_numbers_lit (lowest_free []) demo_payload no_tables
       (close 2 (epoll_del 2 ((boot [])\<lparr>fds := [lowest_free []], script := [], errno := EAGAIN\<rparr>)))"
proof -
  let ?b = "payload_bytes demo_payload"
  let ?ps = "[None, Some (drop 8 ?b)]"
  let ?h = "\<lparr>hc_fd = 2, hc_client_fd = -1, hc_data = []\<rparr>"
  let ?t = "put_handoff 2 (Some ?h) (no_tables :: nat ew_tables)"
  let ?w = "boot [Msg (take 8 ?b) (Some fd_cmsg) False, Err EAGAIN, Data (drop 8 ?b)]"
  have "length ?b = 24784" using length_payload_bytes [OF demo_payload_wf] by (simp add: SIZEOF_payload_def)
  then have p: "take 8 ?b @ concat (map piece ?ps) = ?b" "take 8 ?b \<noteq> []" "Some [] \<notin> set ?ps" "?ps = [] \<or> last ?ps \<noteq> None"
    "script ?w = Msg (take 8 ?b) (Some fd_cmsg) False # map arrival ?ps @ []" by (auto simp: arrival_def)
  have t: "s_handoffs ?t 2 = Some ?h" "(0 :: int) \<le> 2" "(2 :: int) < WORKER_MAX_FDS" by (simp_all add: WORKER_MAX_FDS_def)
  have a: "put_handoff 2 None ?t = no_tables" by (simp add: no_tables_def fun_eq_iff)
  have b: "(?w :: bytes world)\<lparr>fds := lowest_free (fds ?w) # fds ?w, script := [], errno := if None \<in> set ?ps then EAGAIN else errno ?w\<rparr>
      = (boot [])\<lparr>fds := [lowest_free []], script := [], errno := EAGAIN\<rparr>" by (simp add: boot_def)
  show ?thesis
    using handover_any_pieces [OF demo_payload_wf p t, of echo_ssl whole_numbers_lit, unfolded a b]
    by (simp only: boot_simps)
qed

text \<open>
  C29. The answer's \<^verbatim>\<open>Connection\<close> header survives exactly when there is no padding.  The padding line ends with the
  characters backslash, r, backslash, n instead of a line break, so from 16 padding bytes on (the default is 114) the
  connection header is part of the padding's value: the worker's own scanner finds no \<^verbatim>\<open>Connection: close\<close> in the
  header of an answer after which the worker closes the connection.
\<close>

theorem padding_hides_connection_header:
  "b2_has_connection_close (b2_response pad closing json) (length (b2_response pad closing json) - length json)
     = (closing \<and> pad < 16)"
proof -
  have "closing_line (b2_pad_header pad @ cs ''Connection: '' @ v) = (pad < 16 \<and> b2_close_in (32 # v))" for v
  proof (cases "pad < 16")
    case True
    with closing_line_connection [of "32 # v"] show ?thesis by (simp add: b2_pad_header_def cs_def)
  next
    case False
    with closing_line_differs [of 0 "b2_pad_header pad @ cs ''Connection: '' @ v"] show ?thesis
      by (simp add: b2_pad_header_def cs_def tolower_def)
  qed
  moreover have "b2_close_in (32 # cs ''close'' @ [CR])" "\<not> b2_close_in (32 # cs ''keep-alive'' @ [CR])"
    by (simp_all add: cs_def tolower_def)
  moreover have "\<not> closing_line (cs ''HTTP/1.1 200 OK'' @ [CR])"
    by (rule closing_line_differs [of 0]) (simp_all add: cs_def tolower_def)
  moreover have "\<not> closing_line (cs ''Content-Type: application/json'' @ [CR])"
    by (rule closing_line_differs [of 3]) (simp_all add: cs_def tolower_def)
  moreover have "\<not> closing_line (cs ''Content-Length: '' @ dec_digits (length json) @ [CR])"
    by (rule closing_line_differs [of 3]) (simp_all add: cs_def tolower_def)
  moreover have "\<not> closing_line [CR]" by (simp add: closing_line_def)
  ultimately have "close_in_lines (answer_lines pad closing json) = (closing \<and> pad < 16)"
    by (auto simp: answer_lines_def)
  with close_scan_lines [OF answer_lines_no_LF, of pad closing json json] show ?thesis by (simp add: b2_response_lines)
qed


end
