(* ===== verification/EventGateway.thy ===== *)
theory EventGateway
  imports EventWorker
begin

text \<open>
  \<^verbatim>\<open>benchmarks/micro/micro-bench-max-throughput/proto_gateway/bench2gw/bench2gw.c\<close>: the gateway of the event-driven
  worker.  A client's connection is a state machine (\<^verbatim>\<open>bench2gw_conn_t\<close>): it goes through the handshake, waits until the
  first record is there, and is then exported and peeked.  The functions that have the text of
  \<open>KaGateway\<close> or of the worker (\<open>EventSession\<close>) are those.

  The event loop that calls these functions is written in Go.  What it does with a connection (\<^verbatim>\<open>server.go\<close>) is
  \<open>gw_call\<close>, whose parameter \<open>dest\<close> stands for its choice of the socket.  It covers the clients: the connections
  of the relay listener are left out.  Epoll reports only descriptors that were registered; for one that is not pending
  \<open>gw_call\<close> does nothing, while \<^verbatim>\<open>server.go\<close> closes it, which happens for none of these connections.
\<close>

subsection \<open>A connection\<close>

datatype gw_conn_state = CONN_HANDSHAKE | CONN_PEEK | CONN_DONE

text \<open>The context it points to has no state here; \<open>gc_want_events\<close> is 1 for input and 2 for output.\<close>

record gw_conn =
  gc_fd :: int
  gc_ssl :: "nat option"
  gc_peek_ctx :: tlspeek_ctx
  gc_state :: gw_conn_state
  gc_want_events :: int

text \<open>The structure is cleared first, and an export that fails is an error.\<close>

definition gw_export_live_serial :: "'s wolfssl \<Rightarrow> nat \<Rightarrow> 's world \<Rightarrow> (int \<times> tlspeek_serial) \<times> 's world" where
  "gw_export_live_serial L p w =
     (let serial = zero_serial\<lparr>ser_magic := TLSPEEK_MAGIC\<rparr>;
          (name, w) = ssl_query (ws_cipher_name L) None p w;
          serial = set_serial_cipher_from_name name serial;
          ((rc, blob), w) = wolfSSL_tls_export L p w
      in if rc \<le> 0 then ((-1, serial), w)
         else
           (let serial = put_blob blob serial;
                (key, w) = ssl_query (ws_client_key L) None p w;
                (iv, w) = ssl_query (ws_client_iv L) None p w;
                (key_sz, w) = ssl_query (ws_key_size L) 0 p w;
                (iv_sz, w) = ssl_query (ws_iv_size L) 0 p w
            in case (key, iv) of
                 (Some key, Some iv) \<Rightarrow>
                   if key_sz \<le> 0 \<or> iv_sz \<le> 0 then ((-1, serial), w)
                   else
                     (let ks = (if key_sz < 32 then nat key_sz else 32);
                          is = (if iv_sz < 12 then nat iv_sz else 12);
                          serial = serial\<lparr>ser_client_write_key := overwrite (ser_client_write_key serial) (take ks key),
                                          ser_client_write_iv := overwrite (ser_client_write_iv serial) (take is iv)\<rparr>;
                          ((rc, peer_seq), w) = ssl_query (ws_peer_seq L) (-1, 0) p w
                      in if rc < 0 then ((-1, serial), w)
                         else ((0, serial\<lparr>ser_read_seq_num := peer_seq\<rparr>), w))
               | _ \<Rightarrow> ((-1, serial), w)))"

subsection \<open>The owner of the first request\<close>

text \<open>
  The window grows from 256 bytes to the size of the caller's buffer.  The result: return code, owner, and what was stored
  in the buffer last.
\<close>

function gw_peek_window ::
  "crypto \<Rightarrow> int \<Rightarrow> tlspeek_serial \<Rightarrow> nat \<Rightarrow> nat \<Rightarrow> nat \<Rightarrow> bytes option \<Rightarrow> 's world
     \<Rightarrow> (int \<times> bytes \<times> bytes option) \<times> 's world" where
  "gw_peek_window C client_fd serial peek_buf_sz owner_out_sz want got w =
     (if want = 0 then ((-1, [], got), set_errno EMSGSIZE w)
      else
        (case tlspeek_restore_peek_ctx client_fd (Some serial) of
           (r, None) \<Rightarrow> ((-1, [], got), w)
         | (r, Some peek_ctx) \<Rightarrow>
             if r \<noteq> 0 then ((-1, [], got), w)
             else
               (let ((peeked, buf), w) = tls_read_peek C peek_ctx want w
                in if peeked \<le> 0 then ((-1, [], got), set_errno EAGAIN w)
                   else
                     (case b2_parse_request_owner buf owner_out_sz of
                        Some owner \<Rightarrow> ((0, owner, Some buf), w)
                      | None \<Rightarrow>
                          if peek_buf_sz \<le> want then ((-1, [], Some buf), set_errno EMSGSIZE w)
                          else gw_peek_window C client_fd serial peek_buf_sz owner_out_sz
                                 (min (want * 2) peek_buf_sz) (Some buf) w))))"
  by pat_completeness auto

termination
  by (relation "measure (\<lambda>(C, client_fd, serial, peek_buf_sz, owner_out_sz, want, got, w). peek_buf_sz - want)") auto

declare gw_peek_window.simps [simp del]

definition progressive_peek_owner ::
  "crypto \<Rightarrow> int \<Rightarrow> tlspeek_serial \<Rightarrow> nat \<Rightarrow> nat \<Rightarrow> 's world \<Rightarrow> (int \<times> bytes \<times> bytes option) \<times> 's world" where
  "progressive_peek_owner C client_fd serial peek_buf_sz owner_out_sz w =
     (if peek_buf_sz = 0 \<or> owner_out_sz = 0 then ((-1, [], None), set_errno EINVAL w)
      else gw_peek_window C client_fd serial peek_buf_sz owner_out_sz (if peek_buf_sz < 256 then peek_buf_sz else 256) None w)"

subsection \<open>The functions the gateway calls\<close>

definition bench2gw_conn_free :: "gw_conn option \<Rightarrow> 's world \<Rightarrow> 's world" where
  "bench2gw_conn_free conn w =
     (case conn of
        None \<Rightarrow> w
      | Some conn \<Rightarrow>
          close_if_open (gc_fd conn) (case gc_ssl conn of None \<Rightarrow> w | Some p \<Rightarrow> wolfSSL_free p w))"

definition bench2gw_accept_start ::
  "'s wolfssl \<Rightarrow> bool \<Rightarrow> int \<Rightarrow> 's world \<Rightarrow> gw_conn option \<times> 's world" where
  "bench2gw_accept_start L ctx_set listen_fd w =
     (if \<not> ctx_set \<or> listen_fd < 0 then (None, set_errno EINVAL w)
      else
        (let (client_fd, w) = sys_newfd w
         in if client_fd < 0 then (None, w)
            else
              (let (ok, w) = sys_alloc w
               in if \<not> ok then (None, set_errno ENOMEM (close client_fd w))
                  else
                    (let conn = \<lparr>gc_fd = client_fd, gc_ssl = None, gc_peek_ctx = zero_ctx, gc_state = CONN_HANDSHAKE,
                                 gc_want_events = 1\<rparr>;
                         (ssl_p, w) = wolfSSL_new L w
                     in case ssl_p of
                          None \<Rightarrow> (None, set_errno ENOMEM (bench2gw_conn_free (Some conn) w))
                        | Some p \<Rightarrow>
                            (let conn = conn\<lparr>gc_ssl := Some p,
                                             gc_peek_ctx := zero_ctx\<lparr>tcp_fd := client_fd, ssl := Some p\<rparr>\<rparr>;
                                 w = wolfSSL_set_fd L p client_fd w;
                                 (_, w) = unix_set_nonblocking client_fd w
                             in (Some conn, w))))))"

definition bench2gw_conn_fd :: "gw_conn option \<Rightarrow> int" where
  "bench2gw_conn_fd conn = (case conn of None \<Rightarrow> -1 | Some c \<Rightarrow> gc_fd c)"

definition bench2gw_conn_events :: "gw_conn option \<Rightarrow> int" where
  "bench2gw_conn_events conn = (case conn of None \<Rightarrow> 1 | Some c \<Rightarrow> gc_want_events c)"

text \<open>What a step returns, and what it stored in the peek buffer and in the payload.\<close>

record gw_out =
  go_ret :: int
  go_peek :: "bytes option"
  go_payload :: "ka_payload option"

definition gw_ret :: "int \<Rightarrow> gw_out" where
  "gw_ret rc = \<lparr>go_ret = rc, go_peek = None, go_payload = None\<rparr>"

text \<open>The handshake: \<open>None\<close> when it is complete and the step goes on, else the return code.\<close>

definition conn_handshake ::
  "'s wolfssl \<Rightarrow> crypto \<Rightarrow> nat \<Rightarrow> gw_conn \<Rightarrow> 's world \<Rightarrow> (int option \<times> gw_conn) \<times> 's world" where
  "conn_handshake L C p conn w =
     (let ((ok, err, secrets), w) = wolfSSL_accept L p w;
          conn = conn\<lparr>gc_peek_ctx := run_callbacks C secrets (gc_peek_ctx conn)\<rparr>
      in if \<not> ok
         then (if err = WANT_READ \<or> err = WANT_WRITE
               then ((Some 0, conn\<lparr>gc_want_events := (if err = WANT_WRITE then 2 else 1)\<rparr>), w)
               else ((Some (-1), conn), w))
         else if keys_ready (gc_peek_ctx conn) = 0 then ((Some (-1), conn), set_errno EPROTO w)
         else ((None, conn\<lparr>gc_state := CONN_PEEK, gc_want_events := 1\<rparr>), w))"

text \<open>From the first record on.\<close>

definition conn_peek ::
  "'s wolfssl \<Rightarrow> crypto \<Rightarrow> nat \<Rightarrow> nat \<Rightarrow> gw_conn \<Rightarrow> 's world \<Rightarrow> gw_out \<times> gw_conn \<times> 's world" where
  "conn_peek L C peek_buf_sz p conn w =
     (let (ready, w) = tls_record_ready (gc_fd conn) w
      in if ready \<le> 0 then (gw_ret ready, conn\<lparr>gc_want_events := 1\<rparr>, w)
         else
           (let payload = zero_payload\<lparr>pl_magic := BENCH2_KA_MAGIC, pl_version := BENCH2_KA_VERSION\<rparr>;
                ((r, serial), w) = gw_export_live_serial L p w;
                payload = payload\<lparr>pl_serial := serial\<rparr>
            in if r \<noteq> 0
               then (\<lparr>go_ret = -1, go_peek = None, go_payload = Some payload\<rparr>, conn, set_errno EIO w)
               else
                 (let ((r, owner, got), w) =
                        progressive_peek_owner C (gc_fd conn) serial peek_buf_sz BENCH2_KA_TARGET_LEN w
                  in if r \<noteq> 0 then (\<lparr>go_ret = -1, go_peek = got, go_payload = Some payload\<rparr>, conn, w)
                     else (\<lparr>go_ret = 1, go_peek = got,
                            go_payload = Some (payload\<lparr>pl_target_function := put_cstr 128 owner\<rparr>)\<rparr>,
                           conn\<lparr>gc_ssl := None, gc_peek_ctx := tlspeek_free (gc_peek_ctx conn), gc_state := CONN_DONE\<rparr>,
                           wolfSSL_free p (wolfSSL_set_fd L p (-1) w)))))"

definition bench2gw_conn_step ::
  "'s wolfssl \<Rightarrow> crypto \<Rightarrow> bool \<Rightarrow> nat \<Rightarrow> bool \<Rightarrow> gw_conn option \<Rightarrow> 's world
     \<Rightarrow> gw_out \<times> gw_conn option \<times> 's world" where
  "bench2gw_conn_step L C buf_set peek_buf_sz out_set conn w =
     (case conn of
        None \<Rightarrow> (gw_ret (-1), None, set_errno EINVAL w)
      | Some conn \<Rightarrow>
          (case gc_ssl conn of
             None \<Rightarrow> (gw_ret (-1), Some conn, set_errno EINVAL w)
           | Some p \<Rightarrow>
               if gc_fd conn < 0 \<or> \<not> buf_set \<or> peek_buf_sz = 0 \<or> \<not> out_set
               then (gw_ret (-1), Some conn, set_errno EINVAL w)
               else
                 (let ((rc, conn), w) =
                        (if gc_state conn = CONN_HANDSHAKE then conn_handshake L C p conn w else ((None, conn), w))
                  in case rc of
                       Some rc \<Rightarrow> (gw_ret rc, Some conn, w)
                     | None \<Rightarrow>
                         if gc_state conn = CONN_PEEK
                         then (let (out, conn, w) = conn_peek L C peek_buf_sz p conn w in (out, Some conn, w))
                         else (gw_ret (-1), Some conn, set_errno EINVAL w))))"

definition bench2gw_conn_take_fd :: "gw_conn option \<Rightarrow> int \<times> gw_conn option" where
  "bench2gw_conn_take_fd conn =
     (case conn of None \<Rightarrow> (-1, None) | Some c \<Rightarrow> (gc_fd c, Some (c\<lparr>gc_fd := -1\<rparr>)))"

text \<open>The call that does everything at once, for a client whose record is there already.\<close>

definition bench2gw_accept_peek_export ::
  "'s wolfssl \<Rightarrow> crypto \<Rightarrow> bool \<Rightarrow> int \<Rightarrow> bool \<Rightarrow> nat \<Rightarrow> bool \<Rightarrow> 's world \<Rightarrow> gw_out \<times> 's world" where
  "bench2gw_accept_peek_export L C ctx_set listen_fd buf_set peek_buf_sz out_set w =
     (if \<not> ctx_set \<or> listen_fd < 0 \<or> \<not> buf_set \<or> peek_buf_sz = 0 \<or> \<not> out_set
      then (gw_ret (-1), set_errno EINVAL w)
      else
        (let (conn, w) = bench2gw_accept_start L ctx_set listen_fd w
         in if conn = None then (gw_ret (-1), w)
            else
              (let (out, conn, w) = bench2gw_conn_step L C buf_set peek_buf_sz out_set conn w
               in if go_ret out \<noteq> 1
                  then (out\<lparr>go_ret := -1\<rparr>,
                        bench2gw_conn_free conn (if go_ret out = 0 then set_errno EAGAIN w else w))
                  else
                    (let (client_fd, conn) = bench2gw_conn_take_fd conn
                     in (out\<lparr>go_ret := client_fd\<rparr>, bench2gw_conn_free conn w)))))"

text \<open>These have the text of the functions of \<open>KaGateway\<close>; the order of the arguments differs.\<close>

definition bench2gw_send_fd ::
  "bytes option \<Rightarrow> int \<Rightarrow> ka_payload option \<Rightarrow> nat \<Rightarrow> 's world \<Rightarrow> int \<times> 's world" where
  "bench2gw_send_fd path client_fd payload payload_len w =
     tlsmigratekeepalive_send_fd path payload payload_len client_fd w"

definition bench2gw_unix_server :: "bytes \<Rightarrow> 's world \<Rightarrow> int \<times> 's world" where
  "bench2gw_unix_server sock_path w = tlsmigratekeepalive_unix_server sock_path w"

definition bench2gw_new_ctx :: "bytes option \<Rightarrow> bytes option \<Rightarrow> held \<Rightarrow> 's world \<Rightarrow> (bool \<times> held) \<times> 's world" where
  "bench2gw_new_ctx cert_file key_file h w = tlsmigratekeepalive_new_ctx cert_file key_file h w"

definition bench2gw_free_ctx :: "bool option \<Rightarrow> held \<Rightarrow> held" where
  "bench2gw_free_ctx ctx h = tlsmigratekeepalive_free_ctx ctx h"

subsection \<open>Taking a connection back\<close>

text \<open>
  1: a descriptor and a whole payload; 0: nothing yet; -1: refused.  The bytes are in the caller's buffer in any
  case.
\<close>

definition recvfd_with_state_nb :: "nat \<Rightarrow> 's world \<Rightarrow> (int \<times> int option \<times> bytes) \<times> 's world" where
  "recvfd_with_state_nb payload_len w =
     (let ((rcvd, m), w) = recvmsg_retry payload_len w
      in if rcvd < 0 then ((if errno w = EAGAIN then 0 else -1, None, []), w)
         else if rcvd = 0 \<or> rcvd < int payload_len \<or> rm_ctrunc m then ((-1, None, rm_data m), w)
         else if (case rm_cmsg m of
                    None \<Rightarrow> True
                  | Some c \<Rightarrow> cmsg_level c \<noteq> SOL_SOCKET \<or> cmsg_type c \<noteq> SCM_RIGHTS \<or> cmsg_len c \<noteq> CMSG_LEN_int)
         then ((-1, None, rm_data m), w)
         else ((1, Some (rm_fd m), rm_data m), w))"

definition bench2gw_accept_recv ::
  "int \<Rightarrow> ka_payload option \<Rightarrow> 's world \<Rightarrow> (int \<times> ka_payload option) \<times> 's world" where
  "bench2gw_accept_recv listen_fd payload_out w =
     (case payload_out of
        None \<Rightarrow> ((-1, None), set_errno EINVAL w)
      | Some old \<Rightarrow>
          if listen_fd < 0 then ((-1, Some old), set_errno EINVAL w)
          else
            (let (conn_fd, w) = sys_newfd w
             in if conn_fd < 0 then ((-1, Some old), w)
                else
                  (let ((rc, fd_out, data), w) = recvfd_with_state_nb SIZEOF_payload w;
                       client_fd = (case fd_out of None \<Rightarrow> -1 | Some f \<Rightarrow> f);
                       new = bytes_payload (overwrite (payload_bytes old) data)
                   in if rc \<noteq> 1
                      then ((-1, Some new),
                            (if rc = 0 then set_errno EAGAIN else id) (close_if_open client_fd (close conn_fd w)))
                      else ((client_fd, Some new), close conn_fd w))))"

subsection \<open>The calls for one event\<close>

text \<open>
  A client is accepted, and registered unless epoll refuses it; a registered connection is ready, or is hung up.  The
  argument \<open>dest\<close> is the choice of the caller: where a payload with this first request goes, if anywhere, and in which
  form.
\<close>

datatype gw_event = GwAccept bool | GwReady int | GwHangup int

definition gw_pass_on ::
  "(ka_payload \<Rightarrow> bytes \<Rightarrow> (bytes \<times> ka_payload) option) \<Rightarrow> gw_out \<Rightarrow> int \<Rightarrow> 's world \<Rightarrow> 's world" where
  "gw_pass_on dest out client_fd w =
     (case (go_payload out, go_peek out) of
        (Some pl, Some pk) \<Rightarrow>
          (case dest pl pk of
             None \<Rightarrow> close client_fd w
           | Some (path, pl) \<Rightarrow> snd (bench2gw_send_fd (Some path) client_fd (Some pl) SIZEOF_payload w))
      | _ \<Rightarrow> close client_fd w)"

fun gw_call ::
  "'s wolfssl \<Rightarrow> crypto \<Rightarrow> nat \<Rightarrow> (ka_payload \<Rightarrow> bytes \<Rightarrow> (bytes \<times> ka_payload) option) \<Rightarrow> int \<Rightarrow> gw_event
     \<Rightarrow> (int \<Rightarrow> gw_conn option) \<times> 's world \<Rightarrow> (int \<Rightarrow> gw_conn option) \<times> 's world" where
  "gw_call L C sz dest lfd (GwAccept added) (pending, w) =
     (case bench2gw_accept_start L True lfd w of
        (None, w) \<Rightarrow> (pending, w)
      | (Some conn, w) \<Rightarrow>
          if added then (pending(gc_fd conn \<mapsto> conn), w) else (pending, bench2gw_conn_free (Some conn) w))"
| "gw_call L C sz dest lfd (GwReady fd) (pending, w) =
     (if pending fd = None then (pending, w)
      else
        (case bench2gw_conn_step L C True sz True (pending fd) w of
           (out, conn, w) \<Rightarrow>
             if go_ret out = 0 then (pending(fd := conn), w)
             else if go_ret out < 0 then (pending(fd := None), bench2gw_conn_free conn w)
             else (case bench2gw_conn_take_fd conn of
                     (client_fd, conn) \<Rightarrow>
                       (pending(fd := None), gw_pass_on dest out client_fd (bench2gw_conn_free conn w)))))"
| "gw_call L C sz dest lfd (GwHangup fd) (pending, w) =
     (pending(fd := None), bench2gw_conn_free (pending fd) w)"

definition gw_run ::
  "'s wolfssl \<Rightarrow> crypto \<Rightarrow> nat \<Rightarrow> (ka_payload \<Rightarrow> bytes \<Rightarrow> (bytes \<times> ka_payload) option) \<Rightarrow> int \<Rightarrow> gw_event list
     \<Rightarrow> (int \<Rightarrow> gw_conn option) \<times> 's world \<Rightarrow> (int \<Rightarrow> gw_conn option) \<times> 's world" where
  "gw_run L C sz dest lfd evs st = fold (gw_call L C sz dest lfd) evs st"

subsection \<open>What a call leaves\<close>

text \<open>A change of the world that leaves descriptors and sessions, and closes nothing wrongly.\<close>

definition gw_quiet :: "nat \<Rightarrow> 's world \<Rightarrow> 's world \<Rightarrow> bool" where
  "gw_quiet p w w' =
     (fds w' = fds w \<and> live w' = live w \<and> next_ssl w' = next_ssl w \<and> (p \<in> live w \<longrightarrow> ub w' = ub w)
    \<and> bad_closes (log w') = bad_closes (log w))"

lemma gw_quiet_refl [simp]: "gw_quiet p w w"
  by (simp add: gw_quiet_def)

lemma gw_quiet_trans: "gw_quiet p w w1 \<Longrightarrow> gw_quiet p w1 w2 \<Longrightarrow> gw_quiet p w w2"
  by (simp add: gw_quiet_def)

lemma gw_quiet_errno [simp]: "gw_quiet p w (set_errno e w') = gw_quiet p w w'"
  by (simp add: gw_quiet_def)

lemma gw_quiet_io: "sess_io p w w' \<Longrightarrow> gw_quiet p w w'"
  by (simp add: gw_quiet_def sess_io_def session_io_def)

lemma gw_export_quiet: "gw_quiet p w (snd (gw_export_live_serial L p w))"
  by (simp add: gw_export_live_serial_def Let_def split_beta gw_quiet_def split: option.split)

lemma gw_peek_window_eq:
  "gw_peek_window C fd serial sz osz want got w =
     (if want = 0 then ((-1, [], got), set_errno EMSGSIZE w)
      else if ser_magic serial \<noteq> TLSPEEK_MAGIC \<or> fd < 0 then ((-1, [], got), w)
      else
        (let ((n, b), w1) = tls_read_peek C (serial_ctx fd serial) want w
         in if n \<le> 0 then ((-1, [], got), set_errno EAGAIN w1)
            else (case b2_parse_request_owner b osz of
                    Some owner \<Rightarrow> ((0, owner, Some b), w1)
                  | None \<Rightarrow>
                      if sz \<le> want then ((-1, [], Some b), set_errno EMSGSIZE w1)
                      else gw_peek_window C fd serial sz osz (min (want * 2) sz) (Some b) w1)))"
  by (subst gw_peek_window.simps) (simp add: restore_peek_ctx_eq split_beta Let_def)

lemma gw_peek_window_quiet: "gw_quiet p w (snd (gw_peek_window C fd serial sz osz want got w))"
proof (induction "sz - want" arbitrary: want got w rule: less_induct)
  case less
  obtain n b w1 where pk: "tls_read_peek C (serial_ctx fd serial) want w = ((n, b), w1)" by (metis prod.exhaust)
  have 1: "gw_quiet p w w1" using tls_read_peek_frame [of C "serial_ctx fd serial" want w] by (simp add: pk gw_quiet_def)
  have 2: "gw_quiet p w (snd (gw_peek_window C fd serial sz osz (min (want * 2) sz) g w1))" if "want \<noteq> 0" "\<not> sz \<le> want" for g
    by (rule gw_quiet_trans [OF 1 less]) (use that in linarith)
  show ?case
    by (subst gw_peek_window_eq) (use 1 2 in \<open>auto simp: pk split: option.split\<close>)
qed

lemma progressive_peek_quiet: "gw_quiet p w (snd (progressive_peek_owner C fd serial sz osz w))"
  by (simp add: progressive_peek_owner_def gw_peek_window_quiet)

text \<open>A step: the connection keeps its session and is not done, or it is done and the session is freed.\<close>

lemma conn_step_cases:
  assumes st: "bench2gw_conn_step L C b sz o_ok (Some conn) w = (out, conn', w')" and p: "gc_ssl conn = Some p"
    and nd: "gc_state conn \<noteq> CONN_DONE"
  shows "\<exists>c. conn' = Some c \<and> gc_fd c = gc_fd conn
       \<and> (go_ret out \<in> {0, -1} \<and> gc_ssl c = Some p \<and> gc_state c \<noteq> CONN_DONE \<and> gw_quiet p w w'
        \<or> go_ret out = 1 \<and> gc_ssl c = None \<and> gc_state c = CONN_DONE \<and> 0 \<le> gc_fd conn
          \<and> (\<exists>v. gw_quiet p w v \<and> w' = wolfSSL_free p (wolfSSL_set_fd L p (-1) v)))"
proof (cases "gc_fd conn < 0 \<or> \<not> b \<or> sz = 0 \<or> \<not> o_ok")
  case True
  with st p nd show ?thesis by (auto simp: bench2gw_conn_step_def gw_ret_def)
next
  case False
  obtain rc c1 w1 where hs: "(if gc_state conn = CONN_HANDSHAKE then conn_handshake L C p conn w else ((None, conn), w)) = ((rc, c1), w1)"
    by (metis prod.exhaust)
  have q1: "gw_quiet p w w1" "gc_fd c1 = gc_fd conn" "gc_ssl c1 = Some p" "gc_state c1 \<noteq> CONN_DONE" "rc \<in> {None, Some 0, Some (-1)}"
    "rc = None \<Longrightarrow> gc_state c1 = CONN_PEEK"
    using hs p nd wolfSSL_accept_frame [of L p w]
    by (auto simp: conn_handshake_def Let_def split_beta gw_quiet_def split: if_splits) (cases "gc_state conn"; simp)+
  have eq: "(out, conn', w') = (case rc of Some rc \<Rightarrow> (gw_ret rc, Some c1, w1)
      | None \<Rightarrow> if gc_state c1 = CONN_PEEK then (let (out, conn, w) = conn_peek L C sz p c1 w1 in (out, Some conn, w))
                else (gw_ret (-1), Some c1, set_errno EINVAL w1))"
    unfolding st [symmetric] using False p hs by (simp add: bench2gw_conn_step_def)
  show ?thesis
  proof (cases rc)
    case (Some r)
    with eq q1 show ?thesis by (auto simp: gw_ret_def)
  next
    case None
    obtain rdy w2 where rd: "tls_record_ready (gc_fd c1) w1 = (rdy, w2)" by fastforce
    have rr: "rdy \<in> {-1, 0, 1}" using tls_record_ready_slen [OF rd] by blast
    have q2: "gw_quiet p w w2"
      using gw_quiet_trans [OF q1(1) gw_quiet_io] tls_record_ready_io [OF rd] by blast
    obtain r3 ser w3 where ex: "gw_export_live_serial L p w2 = ((r3, ser), w3)" by (metis prod.exhaust)
    have q3: "gw_quiet p w w3" using gw_quiet_trans [OF q2] gw_export_quiet [of p w2 L] by (simp add: ex)
    obtain r4 ow got w4 where pk: "progressive_peek_owner C (gc_fd c1) ser sz BENCH2_KA_TARGET_LEN w3 = ((r4, ow, got), w4)"
      by (metis prod.exhaust)
    have q4: "gw_quiet p w w4" using gw_quiet_trans [OF q3] progressive_peek_quiet [of p w3 C "gc_fd c1" ser sz BENCH2_KA_TARGET_LEN]
      by (simp add: pk)
    let ?d = "c1\<lparr>gc_ssl := None, gc_peek_ctx := tlspeek_free (gc_peek_ctx c1), gc_state := CONN_DONE\<rparr>"
    have "gc_state c1 = CONN_PEEK" using q1(6) None by simp
    then consider "go_ret out = rdy" "rdy \<noteq> 1" "conn' = Some (c1\<lparr>gc_want_events := 1\<rparr>)" "w' = w2"
      | "go_ret out = -1" "conn' = Some c1" "w' = set_errno EIO w3 \<or> w' = w4"
      | "go_ret out = 1" "conn' = Some ?d" "w' = wolfSSL_free p (wolfSSL_set_fd L p (-1) w4)"
      using eq None rr by (auto simp: conn_peek_def rd ex pk gw_ret_def Let_def split: if_splits)
    then show ?thesis
    proof cases
      case 1
      with q1 q2 rr show ?thesis by auto
    next
      case 2
      with q1 q3 q4 show ?thesis by auto
    next
      case 3
      with q1 q4 False show ?thesis by auto
    qed
  qed
qed

text \<open>Accepting: nothing, or a connection with a new descriptor and a new session.\<close>

lemma accept_start_cases:
  assumes st: "bench2gw_accept_start L ctx_set lfd w = (res, w')" and wf: "fd_wf w" "ssl_wf w"
  shows "ub w' = ub w \<and> bad_closes (log w') = bad_closes (log w)
       \<and> (case res of
            None \<Rightarrow> fds w' = fds w \<and> live w' = live w \<and> next_ssl w' = next_ssl w
          | Some c \<Rightarrow> gc_ssl c = Some (next_ssl w) \<and> gc_state c = CONN_HANDSHAKE \<and> 0 \<le> gc_fd c \<and> gc_fd c \<notin> set (fds w)
              \<and> fds w' = gc_fd c # fds w \<and> live w' = insert (next_ssl w) (live w) \<and> next_ssl w' = Suc (next_ssl w))"
proof -
  let ?fd = "fst (sys_newfd w)"
  let ?w1 = "snd (sys_newfd w)"
  let ?w2 = "snd (sys_alloc ?w1)"
  show ?thesis
  proof (cases "\<not> ctx_set \<or> lfd < 0 \<or> ?fd < 0 \<or> \<not> fst (sys_alloc ?w1)")
    case True
    with st show ?thesis by (auto simp: bench2gw_accept_start_def split_beta split: if_splits)
  next
    case False
    then have fresh: "0 \<le> ?fd" "?fd \<notin> set (fds w)" using sys_newfd_fresh [of w] by auto
    obtain q w3 where nw: "wolfSSL_new L ?w2 = (q, w3)" by fastforce
    show ?thesis
    proof (cases q)
      case None
      have w3: "fds w3 = ?fd # fds w" "live w3 = live w" "next_ssl w3 = next_ssl w" "ub w3 = ub w" "log w3 = log w"
        using nw None False wolfSSL_new_frame [of L ?w2] live_wolfSSL_new [of L ?w2] next_ssl_wolfSSL_new [of L ?w2] by simp_all
      have "res = None" "w' = set_errno ENOMEM (close ?fd w3)"
        using st nw None False by (auto simp: bench2gw_accept_start_def split_beta bench2gw_conn_free_def close_if_open_def)
      with w3 show ?thesis by simp
    next
      case (Some p)
      have p: "p = next_ssl w" using wolfSSL_new_ptr [of L ?w2 p] nw Some by simp
      have w3: "fds w3 = ?fd # fds w" "live w3 = insert p (live w)" "next_ssl w3 = Suc p" "ub w3 = ub w" "log w3 = log w"
        using nw Some False p wolfSSL_new_frame [of L ?w2] live_wolfSSL_new [of L ?w2] next_ssl_wolfSSL_new [of L ?w2] by simp_all
      let ?w4 = "wolfSSL_set_fd L p ?fd w3"
      have "calm ?w4 (snd (unix_set_nonblocking ?fd ?w4))" by (rule calm_prims(4))
      then have w5: "fds w' = ?fd # fds w" "live w' = insert p (live w)" "next_ssl w' = Suc p" "ub w' = ub w"
        "bad_closes (log w') = bad_closes (log w)"
        and r: "res = Some \<lparr>gc_fd = ?fd, gc_ssl = Some p, gc_peek_ctx = zero_ctx\<lparr>tcp_fd := ?fd, ssl := Some p\<rparr>,
                  gc_state = CONN_HANDSHAKE, gc_want_events = 1\<rparr>"
        using st nw Some False w3 by (auto simp: bench2gw_accept_start_def split_beta calm_def clean_def)
      with p fresh show ?thesis by simp
    qed
  qed
qed

lemma conn_free_frame:
  "fds (bench2gw_conn_free (Some c) w) = (if 0 \<le> gc_fd c then remove1 (gc_fd c) (fds w) else fds w)"
  "live (bench2gw_conn_free (Some c) w) = live w - set_option (gc_ssl c)"
  "next_ssl (bench2gw_conn_free (Some c) w) = next_ssl w"
  "set_option (gc_ssl c) \<subseteq> live w \<Longrightarrow> ub (bench2gw_conn_free (Some c) w) = ub w"
  "0 \<le> gc_fd c \<longrightarrow> gc_fd c \<in> set (fds w) \<Longrightarrow> bad_closes (log (bench2gw_conn_free (Some c) w)) = bad_closes (log w)"
  by (cases "gc_ssl c"; simp add: bench2gw_conn_free_def close_if_open_def)+

text \<open>Sending: the descriptor leaves the process, whether it was delivered or not.\<close>

lemma bench2gw_send_eq: "bench2gw_send_fd (Some path) fd (Some pl) SIZEOF_payload w = ka_send path pl fd w"
  by (simp add: bench2gw_send_fd_def ka_send_def)

lemma gw_pass_on_frame:
  assumes "fd \<in> set (fds w)" "0 \<le> fd" "fd_wf w"
  shows "set (fds (gw_pass_on dest out fd w)) = set (fds w) - {fd} \<and> fd_wf (gw_pass_on dest out fd w)
       \<and> live (gw_pass_on dest out fd w) = live w \<and> next_ssl (gw_pass_on dest out fd w) = next_ssl w
       \<and> ub (gw_pass_on dest out fd w) = ub w \<and> bad_closes (log (gw_pass_on dest out fd w)) = bad_closes (log w)"
proof -
  have c: "set (fds (close fd w)) = set (fds w) - {fd}" "fd_wf (close fd w)" "bad_closes (log (close fd w)) = bad_closes (log w)"
    using assms by (simp_all add: fd_wf_def)
  have "ka_send path pl fd w = connect_and_send path (take SIZEOF_payload (payload_bytes pl)) fd w" for path pl
    using assms(2) by (simp add: ka_send_eq)
  then have k: "set (fds (snd (ka_send path pl fd w))) = set (fds w) - {fd}" "fd_wf (snd (ka_send path pl fd w))"
    "live (snd (ka_send path pl fd w)) = live w" "next_ssl (snd (ka_send path pl fd w)) = next_ssl w"
    "ub (snd (ka_send path pl fd w)) = ub w" "bad_closes (log (snd (ka_send path pl fd w))) = bad_closes (log w)" for path pl
    using connect_and_send_table [OF assms(3,1)] connect_and_send_tidy [OF assms(3,1,2)]
    by (simp_all add: connect_and_send_frame tidy_def)
  show ?thesis
    by (auto simp: gw_pass_on_def bench2gw_send_eq c k simp del: log_close fds_close split: option.split)
qed

subsection \<open>Who owns what\<close>

text \<open>The wolfSSL sessions: the process (\<open>None\<close>) has those it had, a connection its own.\<close>

fun gw_holder :: "nat set \<Rightarrow> (int \<Rightarrow> gw_conn option) \<Rightarrow> int option \<Rightarrow> nat \<Rightarrow> bool" where
  "gw_holder P t None p = (p \<in> P)"
| "gw_holder P t (Some fd) p = (\<exists>c. t fd = Some c \<and> gc_ssl c = Some p)"

definition gw_inv :: "int set \<Rightarrow> nat set \<Rightarrow> (int \<Rightarrow> gw_conn option) \<Rightarrow> 's world \<Rightarrow> bool" where
  "gw_inv B P t w =
     (fd_wf w \<and> ssl_wf w \<and> set (fds w) = B \<union> dom t \<and> B \<inter> dom t = {} \<and> one_owner (gw_holder P t) (live w)
    \<and> (\<forall>fd c. t fd = Some c \<longrightarrow> gc_fd c = fd \<and> 0 \<le> fd \<and> gc_ssl c \<noteq> None \<and> gc_state c \<noteq> CONN_DONE))"

lemma gw_inv_conn:
  assumes "gw_inv B P t w" and "t fd = Some c"
  obtains p where "gc_ssl c = Some p" "p \<in> live w" "gc_fd c = fd" "0 \<le> fd" "fd \<in> set (fds w)" "fd \<notin> B"
    "gc_state c \<noteq> CONN_DONE" "\<And>x. gw_holder P t x p \<Longrightarrow> x = Some fd"
proof -
  have "gc_ssl c \<noteq> None \<and> gc_fd c = fd \<and> 0 \<le> fd \<and> gc_state c \<noteq> CONN_DONE"
    using assms unfolding gw_inv_def by blast
  then obtain p where p: "gc_ssl c = Some p" "gc_fd c = fd" "0 \<le> fd" "gc_state c \<noteq> CONN_DONE" by blast
  then have h: "gw_holder P t (Some fd) p" using assms(2) by simp
  have o: "one_owner (gw_holder P t) (live w)" using assms(1) by (simp add: gw_inv_def)
  have "fd \<in> dom t" using assms(2) by auto
  then have "fd \<in> set (fds w)" "fd \<notin> B" using assms(1) by (auto simp: gw_inv_def)
  with p one_ownerD(2) [OF o h] one_ownerD(1) [OF o _ h] show thesis by (intro that) auto
qed

text \<open>A connection comes, goes, or stays with its session.\<close>

lemma gw_inv_comes:
  assumes inv: "gw_inv B P t w" and c: "gc_ssl c = Some (next_ssl w)" "gc_state c = CONN_HANDSHAKE" "0 \<le> gc_fd c"
      "gc_fd c \<notin> set (fds w)"
    and w': "fds w' = gc_fd c # fds w" "live w' = insert (next_ssl w) (live w)" "next_ssl w' = Suc (next_ssl w)"
  shows "gw_inv B P (t(gc_fd c \<mapsto> c)) w'"
proof -
  let ?p = "next_ssl w"
  have i: "fd_wf w" "ssl_wf w" "set (fds w) = B \<union> dom t" "B \<inter> dom t = {}" "one_owner (gw_holder P t) (live w)"
    using inv by (simp_all add: gw_inv_def)
  have n: "t (gc_fd c) = None" using c(4) i(3) by auto
  have "?p \<notin> live w" using ssl_wf_fresh [OF i(2)] .
  then have none: "\<not> gw_holder P t x ?p" for x using one_ownerD(2) [OF i(5)] by blast
  have only: "gw_holder P (t(gc_fd c \<mapsto> c)) x ?p = (x = Some (gc_fd c))" for x
    using none [of x] c(1) by (cases x) auto
  have "one_owner (gw_holder P (t(gc_fd c \<mapsto> c))) (live w')"
    unfolding w'(2)
  proof (rule one_owner_move [OF i(5), of ?p])
    show "gw_holder P (t(gc_fd c \<mapsto> c)) x q = gw_holder P t x q" if "q \<noteq> ?p" for x q
      using that c(1) n by (cases x) auto
  qed (use only in auto)
  moreover have "ssl_wf w'" using i(2) w' by (auto simp: ssl_wf_def intro: less_SucI)
  moreover have "set (fds w') = B \<union> dom (t(gc_fd c \<mapsto> c))" using i(3) w'(1) by auto
  moreover have "B \<inter> dom (t(gc_fd c \<mapsto> c)) = {}" using i(3,4) c(4) by auto
  moreover have "fd_wf w'" using i(1) c(4) w'(1) by (simp add: fd_wf_def)
  ultimately show ?thesis
    using inv c unfolding gw_inv_def by simp
qed

lemma gw_inv_goes:
  assumes inv: "gw_inv B P t w" and c: "t fd = Some c" "gc_ssl c = Some p"
    and w': "set (fds w') = set (fds w) - {fd}" "fd_wf w'" "live w' = live w - {p}" "next_ssl w' = next_ssl w"
  shows "gw_inv B P (t(fd := None)) w'"
proof -
  have i: "ssl_wf w" "set (fds w) = B \<union> dom t" "B \<inter> dom t = {}" "one_owner (gw_holder P t) (live w)"
    using inv by (simp_all add: gw_inv_def)
  have a: "x = Some fd" if "gw_holder P t x p" for x
    using one_ownerD(1) [OF i(4) that, of "Some fd"] c by simp
  have none: "\<not> gw_holder P (t(fd := None)) x p" for x
  proof
    assume h: "gw_holder P (t(fd := None)) x p"
    then have "gw_holder P t x p" by (cases x) (auto split: if_splits)
    with a [of x] h show False by simp
  qed
  have "one_owner (gw_holder P (t(fd := None))) (live w')"
    unfolding w'(3)
  proof (rule one_owner_move [OF i(4), of p])
    show "gw_holder P (t(fd := None)) x q = gw_holder P t x q" if "q \<noteq> p" for x q
      using that c by (cases x) auto
  qed (use none in auto)
  moreover have "ssl_wf w'" using i(1) w' by (auto simp: ssl_wf_def)
  moreover have "set (fds w') = B \<union> dom (t(fd := None))" using i(2,3) w'(1) c(1) by auto
  moreover have "B \<inter> dom (t(fd := None)) = {}" using i(3) by auto
  ultimately show ?thesis using inv w'(2) unfolding gw_inv_def by (simp split: if_splits)
qed

lemma gw_inv_stays:
  assumes inv: "gw_inv B P t w" and c: "t fd = Some c" "gc_ssl c' = gc_ssl c" "gc_fd c' = fd" "gc_state c' \<noteq> CONN_DONE"
    and w': "gw_quiet p w w'"
  shows "gw_inv B P (t(fd \<mapsto> c')) w'"
proof -
  have "gw_holder P (t(fd \<mapsto> c')) = gw_holder P t"
    by (intro ext, rename_tac x q, case_tac x) (use c(1,2) in auto)
  moreover have "dom (t(fd \<mapsto> c')) = dom t" using c(1) by auto
  moreover have "gc_ssl c \<noteq> None \<and> 0 \<le> fd" using inv c(1) by (auto simp: gw_inv_def)
  ultimately show ?thesis
    using inv w' c(2-4) unfolding gw_inv_def gw_quiet_def fd_wf_def ssl_wf_def by (simp split: if_splits)
qed

lemma gw_call_inv:
  assumes inv: "gw_inv B P t w" and call: "gw_call L C sz dest lfd ev (t, w) = (t', w')"
  shows "gw_inv B P t' w' \<and> clean w w'"
proof (cases ev)
  case (GwAccept added)
  obtain res w1 where st: "bench2gw_accept_start L True lfd w = (res, w1)" by fastforce
  have wf: "fd_wf w" "ssl_wf w" using inv by (simp_all add: gw_inv_def)
  note a = accept_start_cases [OF st wf]
  show ?thesis
  proof (cases res)
    case None
    with a call GwAccept st inv show ?thesis by (simp add: clean_def gw_inv_def fd_wf_def ssl_wf_def)
  next
    case (Some c)
    note i = gw_inv_comes [OF inv, of c w1]
    have c: "gw_inv B P (t(gc_fd c \<mapsto> c)) w1" "clean w w1" using a Some i by (simp_all add: clean_def)
    show ?thesis
    proof (cases added)
      case True
      with c call GwAccept st Some show ?thesis by simp
    next
      case False
      let ?p = "next_ssl w" and ?w = "bench2gw_conn_free (Some c) w1"
      have f: "gc_ssl c = Some ?p" "0 \<le> gc_fd c" "gc_fd c \<in> set (fds w1)" "?p \<in> live w1" "gc_fd c \<notin> set (fds w)"
        "fds w1 = gc_fd c # fds w" using a Some by simp_all
      have w': "set (fds ?w) = set (fds w1) - {gc_fd c}" "fd_wf ?w" "live ?w = live w1 - {?p}" "next_ssl ?w = next_ssl w1"
        using f wf(1) by (simp_all add: conn_free_frame fd_wf_def)
      have "t (gc_fd c) = None" using f(5) inv by (auto simp: gw_inv_def)
      then have n: "t(gc_fd c := None) = t" by (intro fun_upd_idem)
      have "gw_inv B P t ?w" using gw_inv_goes [OF c(1) _ f(1) w'] by (simp add: n)
      moreover have "clean w1 ?w" using f by (simp add: clean_def conn_free_frame)
      ultimately show ?thesis using False call GwAccept st Some clean_trans [OF c(2)] by auto
    qed
  qed
next
  case (GwHangup fd)
  show ?thesis
  proof (cases "t fd")
    case None
    with GwHangup call inv show ?thesis by (simp add: bench2gw_conn_free_def fun_upd_idem)
  next
    case (Some c)
    obtain p where p: "gc_ssl c = Some p" "p \<in> live w" "gc_fd c = fd" "0 \<le> fd" "fd \<in> set (fds w)"
      using gw_inv_conn [OF inv Some] by metis
    let ?w = "bench2gw_conn_free (Some c) w"
    have "fd_wf w" using inv by (simp add: gw_inv_def)
    with p have w': "set (fds ?w) = set (fds w) - {fd}" "fd_wf ?w" "live ?w = live w - {p}" "next_ssl ?w = next_ssl w"
      by (simp_all add: conn_free_frame fd_wf_def)
    from gw_inv_goes [OF inv Some p(1) w'] p Some GwHangup call show ?thesis by (auto simp: clean_def conn_free_frame)
  qed
next
  case (GwReady fd)
  show ?thesis
  proof (cases "t fd")
    case None
    with GwReady call inv show ?thesis by simp
  next
    case (Some c)
    obtain p where p: "gc_ssl c = Some p" "p \<in> live w" "gc_fd c = fd" "0 \<le> fd" "fd \<in> set (fds w)" "gc_state c \<noteq> CONN_DONE"
      using gw_inv_conn [OF inv Some] by metis
    obtain out conn w1 where st: "bench2gw_conn_step L C True sz True (Some c) w = (out, conn, w1)" by (metis prod.exhaust)
    obtain c1 where c1: "conn = Some c1" "gc_fd c1 = fd"
      and cs: "go_ret out \<in> {0, -1} \<and> gc_ssl c1 = Some p \<and> gc_state c1 \<noteq> CONN_DONE \<and> gw_quiet p w w1
        \<or> go_ret out = 1 \<and> gc_ssl c1 = None
          \<and> (\<exists>v. gw_quiet p w v \<and> w1 = wolfSSL_free p (wolfSSL_set_fd L p (-1) v))"
      using conn_step_cases [OF st p(1,6)] p(3) by auto
    have wf: "fd_wf w" using inv by (simp add: gw_inv_def)
    from cs show ?thesis
    proof
      assume k: "go_ret out \<in> {0, -1} \<and> gc_ssl c1 = Some p \<and> gc_state c1 \<noteq> CONN_DONE \<and> gw_quiet p w w1"
      then have q: "gw_quiet p w w1" by simp
      have s: "gw_inv B P (t(fd \<mapsto> c1)) w1"
        using gw_inv_stays [OF inv Some _ c1(2) _ q] k p(1) by simp
      have cl: "clean w w1" using q p(2) by (simp add: gw_quiet_def clean_def)
      show ?thesis
      proof (cases "go_ret out = 0")
        case True
        with s cl GwReady call Some st c1 show ?thesis by simp
      next
        case False
        let ?w = "bench2gw_conn_free (Some c1) w1"
        have w1: "fds w1 = fds w" "live w1 = live w" using q by (simp_all add: gw_quiet_def)
        have w': "set (fds ?w) = set (fds w1) - {fd}" "fd_wf ?w" "live ?w = live w1 - {p}" "next_ssl ?w = next_ssl w1"
          using k c1(2) p(4) wf w1 by (simp_all add: conn_free_frame fd_wf_def)
        have "gw_inv B P (t(fd := None)) ?w" using gw_inv_goes [OF s _ _ w', of c1] k by simp
        moreover have "clean w ?w"
          by (rule clean_trans [OF cl]) (use k c1(2) p w1 in \<open>simp add: clean_def conn_free_frame\<close>)
        ultimately show ?thesis using False k GwReady call Some st c1 by auto
      qed
    next
      assume k: "go_ret out = 1 \<and> gc_ssl c1 = None
          \<and> (\<exists>v. gw_quiet p w v \<and> w1 = wolfSSL_free p (wolfSSL_set_fd L p (-1) v))"
      then obtain v where v: "gw_quiet p w v" "w1 = wolfSSL_free p (wolfSSL_set_fd L p (-1) v)" by blast
      then have w1: "fds w1 = fds w" "live w1 = live w - {p}" "next_ssl w1 = next_ssl w" "clean w w1"
        using p(2) by (simp_all add: gw_quiet_def clean_def)
      have free: "bench2gw_conn_free (Some (c1\<lparr>gc_fd := -1\<rparr>)) w1 = w1"
        using k by (simp add: bench2gw_conn_free_def close_if_open_def)
      let ?w = "gw_pass_on dest out fd w1"
      have o: "fd \<in> set (fds w1)" "fd_wf w1" using w1(1) p(5) wf by (simp_all add: fd_wf_def)
      note g = gw_pass_on_frame [OF o(1) p(4) o(2), of dest out]
      have e: "t' = t(fd := None)" "w' = ?w"
        using GwReady call Some st c1 k free by (auto simp: bench2gw_conn_take_fd_def)
      have "gw_inv B P (t(fd := None)) ?w" by (rule gw_inv_goes [OF inv Some p(1)]) (use g w1 in auto)
      moreover have "clean w ?w" by (rule clean_trans [OF w1(4)]) (use g in \<open>simp add: clean_def\<close>)
      ultimately show ?thesis by (simp add: e)
    qed
  qed
qed

lemma gw_run_inv:
  "gw_inv B P t w \<Longrightarrow> gw_run L C sz dest lfd evs (t, w) = (t', w') \<Longrightarrow> gw_inv B P t' w' \<and> clean w w'"
proof (induction evs arbitrary: t w)
  case Nil
  then show ?case by (simp add: gw_run_def)
next
  case (Cons ev evs)
  obtain t1 w1 where c: "gw_call L C sz dest lfd ev (t, w) = (t1, w1)" by fastforce
  note 1 = gw_call_inv [OF Cons.prems(1) c]
  have "gw_run L C sz dest lfd evs (t1, w1) = (t', w')" using Cons.prems(2) c by (simp add: gw_run_def)
  from Cons.IH [OF conjunct1 [OF 1] this] clean_trans [OF conjunct2 [OF 1]] show ?case by blast
qed

lemma gw_inv_start: "fd_wf w \<Longrightarrow> ssl_wf w \<Longrightarrow> gw_inv (set (fds w)) (live w) (\<lambda>_. None) w"
proof -
  assume "fd_wf w" "ssl_wf w"
  moreover have "gw_holder (live w) (\<lambda>_. None) x p = (x = None \<and> p \<in> live w)" for x p by (cases x) auto
  then have "one_owner (gw_holder (live w) (\<lambda>_. None)) (live w)" by (simp add: one_owner_def)
  ultimately show ?thesis by (simp add: gw_inv_def)
qed

subsection \<open>What a completed step hands over\<close>

lemma peek_needs_status: "fst (sys_status w) \<noteq> 0 \<Longrightarrow> fst (fst (tls_read_peek C ctx sz w)) \<le> 0"
  using sys_status_range [of w] by (auto simp: tls_read_peek_unfold Let_def split: option.split)

text \<open>The owner that is found is the one in the whole of the first record, as far as the buffer goes.\<close>

lemma gw_peek_window_owner:
  "gw_peek_window C fd serial sz osz want got w = ((0, owner, got'), w') \<Longrightarrow> aead_lengths C \<Longrightarrow> want \<le> sz \<Longrightarrow>
     \<exists>k r. k \<le> sz \<and> serial_view C serial (rxq w fd) = Some r \<and> got' = Some (take k r)
         \<and> b2_parse_request_owner (take k r) osz = Some owner"
proof (induction "sz - want" arbitrary: want got w rule: less_induct)
  case less
  obtain n b w1 where pk: "tls_read_peek C (serial_ctx fd serial) want w = ((n, b), w1)" by (metis prod.exhaust)
  have want: "want \<noteq> 0" and n: "0 < n"
    using less.prems(1) by (auto simp: gw_peek_window_eq [of C fd serial sz osz want] pk split: if_splits)
  have "fst (sys_status w) = 0" using peek_needs_status [of w C "serial_ctx fd serial" want] n by (auto simp: pk)
  from serial_peek [OF less.prems(2) _ this, of want fd serial] want n obtain r where
    r: "serial_view C serial (rxq w fd) = Some r" "b = take want r" by (auto simp: pk split: option.splits)
  have "rxq w1 = rxq w" using tls_read_peek_frame [of C "serial_ctx fd serial" want w] by (simp add: pk)
  show ?case
  proof (cases "b2_parse_request_owner b osz")
    case (Some ow)
    then have "owner = ow" "got' = Some b"
      using less.prems(1) want n by (auto simp: gw_peek_window_eq [of C fd serial sz osz want] pk split: if_splits)
    with Some r less.prems(3) show ?thesis by blast
  next
    case None
    then have k: "\<not> sz \<le> want" "gw_peek_window C fd serial sz osz (min (want * 2) sz) (Some b) w1 = ((0, owner, got'), w')"
      using less.prems(1) want n by (auto simp: gw_peek_window_eq [of C fd serial sz osz want got w] pk split: if_splits)
    have "sz - min (want * 2) sz < sz - want" using k(1) want by linarith
    from less.hyps [OF this k(2) less.prems(2)] \<open>rxq w1 = rxq w\<close> show ?thesis by simp
  qed
qed

lemma progressive_peek_owner_found:
  assumes "progressive_peek_owner C fd serial sz osz w = ((0, owner, got), w')" and "aead_lengths C"
  shows "\<exists>k r. serial_view C serial (rxq w fd) = Some r \<and> got = Some (take k r)
             \<and> b2_parse_request_owner (take sz r) osz = Some owner"
proof -
  let ?want = "if sz < 256 then sz else 256"
  have "gw_peek_window C fd serial sz osz ?want None w = ((0, owner, got), w')" "?want \<le> sz"
    using assms(1) by (auto simp: progressive_peek_owner_def split: if_splits)
  from gw_peek_window_owner [OF this(1) assms(2) this(2)] obtain k r where
    k: "k \<le> sz" "serial_view C serial (rxq w fd) = Some r" "got = Some (take k r)"
      "b2_parse_request_owner (take k r) osz = Some owner" by blast
  have "take sz r = take k r @ take (sz - k) (drop k r)" using k(1) by (metis le_add_diff_inverse take_add)
  with b2_owner.parse_more [OF k(4)] k(2,3) show ?thesis by metis
qed

text \<open>What is exported of a session.\<close>

definition gw_exports :: "'s wolfssl \<Rightarrow> 's \<Rightarrow> tlspeek_serial \<Rightarrow> bool" where
  "gw_exports L s serial =
     (ser_magic serial = TLSPEEK_MAGIC \<and> ser_read_seq_num serial = snd (ws_peer_seq L s)
    \<and> ser_tls_blob serial = overwrite (zeros 16384) (snd (ws_export L s))
    \<and> ser_blob_sz serial = of_nat (length (snd (ws_export L s))) \<and> serial_wf serial)"

lemma gw_export_spec:
  assumes "gw_export_live_serial L p w = ((0, serial), w')" and "ssls w p = Some s" and "length (snd (ws_export L s)) \<le> 16384"
  shows "gw_exports L s serial \<and> ssls w' = ssls w \<and> rxq w' = rxq w"
proof -
  define s0 where "s0 = put_blob (snd (ws_export L s)) (set_serial_cipher_from_name (ws_cipher_name L s) (zero_serial\<lparr>ser_magic := TLSPEEK_MAGIC\<rparr>))"
  have s0: "ser_magic s0 = TLSPEEK_MAGIC" "ser_tls_blob s0 = overwrite (zeros 16384) (snd (ws_export L s))"
    "ser_blob_sz s0 = of_nat (length (snd (ws_export L s)))" "serial_wf s0"
    using assms(3)
    by (auto simp: s0_def put_blob_def set_serial_cipher_from_name_def zero_serial_def serial_wf_def split: option.split)
  obtain k v where kv: "serial = s0\<lparr>ser_client_write_key := overwrite (ser_client_write_key s0) (take k v),
      ser_client_write_iv := overwrite (ser_client_write_iv s0) (take (if ws_iv_size L s < 12 then nat (ws_iv_size L s) else 12) (the (ws_client_iv L s))),
      ser_read_seq_num := snd (ws_peer_seq L s)\<rparr>" "k \<le> 32" "w' = w"
    using assms(1,2)
    by (auto simp: gw_export_live_serial_def ssl_query_def wolfSSL_tls_export_def s0_def Let_def split_beta
        split: option.splits if_splits)
  with s0 show ?thesis by (auto simp: gw_exports_def serial_wf_def)
qed

lemma gw_exports_blob:
  assumes "gw_exports L s serial" and "length (snd (ws_export L s)) \<le> 16384"
  shows "take (unat (ser_blob_sz serial)) (ser_tls_blob serial) = snd (ws_export L s)"
proof -
  have "unat (of_nat (length (snd (ws_export L s))) :: u32) = length (snd (ws_export L s))"
    using assms(2) by (simp add: unat_of_nat take_bit_nat_eq_self)
  then show ?thesis using assms(1) by (simp add: gw_exports_def)
qed

lemma tls_record_ready_same: "tls_record_ready fd w = (r, w') \<Longrightarrow> rxq w' = rxq w \<and> ssls w' = ssls w"
proof (induction fd w rule: tls_record_ready.induct)
  case (1 fd w)
  obtain n hdr w1 where pk: "recv_peek fd TLSPEEK_HEADER_SIZE w = ((n, hdr), w1)" by (metis prod.exhaust)
  have w1: "rxq w1 = rxq w" "ssls w1 = ssls w"
    using recv_peek_frame [of fd TLSPEEK_HEADER_SIZE w] by (simp_all add: pk)
  show ?case
  proof (cases "n < 0 \<and> errno w1 = EINTR")
    case True
    then have "tls_record_ready fd w1 = (r, w')" using "1.prems" by (simp add: pk tls_record_ready.simps [of fd w])
    with "1.IH" [OF pk [symmetric] refl True this] w1 show ?thesis by simp
  next
    case False
    then have "w' = w1 \<or> w' = snd (ioctl_fionread fd w1)"
      using "1.prems" by (auto simp: pk tls_record_ready.simps [of fd w] Let_def split_beta split: if_splits)
    with w1 show ?thesis by auto
  qed
qed

text \<open>The session at the time of the export: after the rest of the handshake, or as it is.\<close>

definition gw_session :: "'s wolfssl \<Rightarrow> gw_conn \<Rightarrow> 's world \<Rightarrow> 's \<Rightarrow> 's" where
  "gw_session L conn w s =
     (if gc_state conn = CONN_HANDSHAKE then snd (ws_accept L (fst (next_answer w)) s) else s)"

lemma conn_step_done:
  assumes st: "bench2gw_conn_step L C True sz True (Some conn) w = (out, conn', w')" and one: "go_ret out = 1"
    and p: "gc_ssl conn = Some p" "ssls w p = Some s" and C: "aead_lengths C"
    and bl: "length (snd (ws_export L (gw_session L conn w s))) \<le> 16384"
  shows "\<exists>pl k r owner. go_payload out = Some pl \<and> go_peek out = Some (take k r)
       \<and> pl_magic pl = BENCH2_KA_MAGIC \<and> pl_version pl = BENCH2_KA_VERSION \<and> payload_wf pl
       \<and> gw_exports L (gw_session L conn w s) (pl_serial pl)
       \<and> serial_view C (pl_serial pl) (rxq w (gc_fd conn)) = Some r
       \<and> b2_parse_request_owner (take sz r) BENCH2_KA_TARGET_LEN = Some owner
       \<and> pl_target_function pl = put_cstr 128 owner"
proof -
  let ?s = "gw_session L conn w s"
  obtain rc c1 w1 where hs: "(if gc_state conn = CONN_HANDSHAKE then conn_handshake L C p conn w else ((None, conn), w)) = ((rc, c1), w1)"
    by (metis prod.exhaust)
  have g: "\<not> (gc_fd conn < 0 \<or> sz = 0)"
  proof
    assume "gc_fd conn < 0 \<or> sz = 0"
    then have "bench2gw_conn_step L C True sz True (Some conn) w = (gw_ret (-1), Some conn, set_errno EINVAL w)"
      using p(1) by (simp add: bench2gw_conn_step_def)
    with st one show False by (auto simp: gw_ret_def)
  qed
  have rc: "rc \<in> {None, Some 0, Some (-1)}"
    using hs by (auto simp: conn_handshake_def Let_def split_beta split: if_splits)
  have eq: "(out, conn', w') = (case rc of Some rc \<Rightarrow> (gw_ret rc, Some c1, w1)
      | None \<Rightarrow> if gc_state c1 = CONN_PEEK then (let (out, conn, w) = conn_peek L C sz p c1 w1 in (out, Some conn, w))
                else (gw_ret (-1), Some c1, set_errno EINVAL w1))"
    unfolding st [symmetric] using g p hs by (simp add: bench2gw_conn_step_def)
  have none: "rc = None" using eq one rc by (auto simp: gw_ret_def)
  have w1: "gc_fd c1 = gc_fd conn" "ssls w1 p = Some ?s" "rxq w1 = rxq w"
    using hs none p(2)
    by (auto simp: conn_handshake_def wolfSSL_accept_def gw_session_def Let_def split_beta split: if_splits answer.splits)
  have pkst: "gc_state c1 = CONN_PEEK" using eq none one by (auto simp: gw_ret_def split: if_splits)
  obtain rdy w2 where rd: "tls_record_ready (gc_fd c1) w1 = (rdy, w2)" by fastforce
  have w2: "rxq w2 = rxq w" "ssls w2 p = Some ?s"
    using tls_record_ready_same [OF rd] w1 by simp_all
  obtain r3 ser w3 where ex: "gw_export_live_serial L p w2 = ((r3, ser), w3)" by (metis prod.exhaust)
  obtain r4 ow got w4 where pk: "progressive_peek_owner C (gc_fd c1) ser sz BENCH2_KA_TARGET_LEN w3 = ((r4, ow, got), w4)"
    by (metis prod.exhaust)
  let ?pl = "zero_payload\<lparr>pl_magic := BENCH2_KA_MAGIC, pl_version := BENCH2_KA_VERSION, pl_serial := ser,
              pl_target_function := put_cstr 128 ow\<rparr>"
  have k: "r3 = 0" "r4 = 0" "go_payload out = Some ?pl" "go_peek out = got"
    using eq none pkst one tls_record_ready_slen [OF rd]
    by (auto simp: conn_peek_def rd ex pk gw_ret_def Let_def split: if_splits)
  have e: "gw_exports L ?s ser" "rxq w3 = rxq w"
    using gw_export_spec [OF ex [unfolded k(1)] w2(2) bl] w2(1) by simp_all
  obtain n r where r: "serial_view C ser (rxq w (gc_fd conn)) = Some r" "got = Some (take n r)"
      "b2_parse_request_owner (take sz r) BENCH2_KA_TARGET_LEN = Some ow"
    using progressive_peek_owner_found [OF pk [unfolded k(2)] C] e(2) w1(1) by auto
  have "length ow < 128" using b2_owner.sound [OF r(3)] by (simp add: BENCH2_KA_TARGET_LEN_def)
  then have "payload_wf ?pl" using e(1) by (simp add: payload_wf_def gw_exports_def put_cstr_def)
  with k(3,4) r e(1) show ?thesis by (intro exI [of _ ?pl]) auto
qed

subsection \<open>A relayed connection\<close>

text \<open>
  A message of which only a part is there when \<^verbatim>\<open>bench2gw_accept_recv\<close> looks is refused, and the descriptor that came with it
  stays open in the gateway with no owner.
\<close>

lemma gw_partial_relay_leaks:
  assumes "script w = Ok 0 # Msg d (Some fd_cmsg) t # as" and "length d < SIZEOF_payload" and "0 \<le> lfd"
  shows "\<exists>new w'. bench2gw_accept_recv lfd (Some old) w = ((-1, new), w')
           \<and> (\<exists>f. f \<notin> set (fds w) \<and> set (fds w') = insert f (set (fds w)))"
proof -
  define c where "c = lowest_free (fds w)"
  define f where "f = lowest_free (c # fds w)"
  define w2 where "w2 = w\<lparr>script := as, fds := f # c # fds w\<rparr>"
  have c: "c \<notin> set (fds w)" "0 \<le> c" using lowest_free_fresh [of "fds w"] by (simp_all add: c_def)
  have f: "f \<notin> set (c # fds w)" using lowest_free_fresh [of "c # fds w"] by (simp add: f_def)
  have one: "rights_count (Some fd_cmsg) = Suc 0" by (simp add: rights_count_def fd_cmsg_def CMSG_LEN_int_def)
  let ?w1 = "w\<lparr>script := Msg d (Some fd_cmsg) t # as, fds := c # fds w\<rparr>"
  have acc: "sys_newfd w = (c, ?w1)" using assms(1) by (simp add: sys_newfd_def next_answer_def Let_def c_def)
  have "recvmsg SIZEOF_payload ?w1 =
      ((int (length d), \<lparr>rm_data = d, rm_cmsg = Some fd_cmsg, rm_fd = f, rm_ctrunc = t\<rparr>), w2)"
    using assms(2) by (simp add: recvmsg_def next_answer_def one f_def [symmetric] w2_def)
  then have "recvmsg_retry SIZEOF_payload ?w1 =
      ((int (length d), \<lparr>rm_data = d, rm_cmsg = Some fd_cmsg, rm_fd = f, rm_ctrunc = t\<rparr>), w2)"
    by (subst recvmsg_retry.simps) simp
  then have "recvfd_with_state_nb SIZEOF_payload ?w1 = ((-1, None, d), w2)"
    using assms(2) by (simp add: recvfd_with_state_nb_def)
  then have "bench2gw_accept_recv lfd (Some old) w = ((-1, Some (bytes_payload (overwrite (payload_bytes old) d))), close c w2)"
    using assms(3) c by (simp add: bench2gw_accept_recv_def acc close_if_open_def)
  moreover have "set (fds (close c w2)) = insert f (set (fds w))" using f c by (simp add: w2_def)
  ultimately show ?thesis using f by auto
qed

subsection \<open>A concrete step\<close>

text \<open>A connection behind its handshake whose client has asked for \<^verbatim>\<open>fn-b\<close>.\<close>

definition fn_b_request :: bytes where
  "fn_b_request = cs ''GET /function/fn-b HTTP/1.1'' @ crlf @ crlf"

definition fn_b_conn :: gw_conn where
  "fn_b_conn = \<lparr>gc_fd = 5, gc_ssl = Some 0, gc_peek_ctx = ready_ctx, gc_state = CONN_PEEK, gc_want_events = 1\<rparr>"

definition fn_b_world :: "bytes world" where
  "fn_b_world = (boot [Ok 0, Ok 0, Ok 0])\<lparr>fds := [5],
     rxq := (\<lambda>_. client_record clear_seal (zeros 32) (zeros 12) 0 fn_b_request), ssls := [0 \<mapsto> [9]], next_ssl := 1\<rparr>"

definition fn_b_serial :: tlspeek_serial where
  "fn_b_serial = (put_blob [9] (zero_serial\<lparr>ser_magic := TLSPEEK_MAGIC, ser_cipher_suite := TLSPEEK_AES_256_GCM\<rparr>))
     \<lparr>ser_client_write_key := zeros 32, ser_client_write_iv := zeros 12, ser_read_seq_num := 0\<rparr>"

lemma payload_bytes_nonempty: "payload_bytes pl \<noteq> []"
proof -
  have "le_bytes 4 x \<noteq> []" for x using length_le_bytes [of 4 x] by (metis list.size(3) zero_neq_numeral)
  then show ?thesis by (simp add: payload_bytes_def)
qed

lemma fn_b_owner: "b2_parse_request_owner fn_b_request BENCH2_KA_TARGET_LEN = Some (cs ''fn-b'')"
proof -
  have "owner_line (cs ''GET'') (cs ''fn-b'') []" by (simp add: owner_line_def cs_def name_end_def)
  from b2_owner.complete [OF this, of BENCH2_KA_TARGET_LEN "cs ''HTTP/1.1'' @ crlf @ crlf"]
  show ?thesis by (simp add: fn_b_request_def request_text_def function_prefix_def BENCH2_KA_TARGET_LEN_def cs_def)
qed

lemma fn_b_ready:
  "tls_record_ready 5 fn_b_world = (1, fn_b_world\<lparr>script := [Ok 0]\<rparr>)"
proof -
  let ?q = "client_record clear_seal (zeros 32) (zeros 12) 0 fn_b_request"
  have q: "take 5 ?q = [0x17, 3, 3, 0, 48]" "length ?q = 53"
    by (simp_all add: client_record_def clear_seal_def fn_b_request_def cs_def)
  have p: "recv_peek 5 5 fn_b_world = ((5, [0x17, 3, 3, 0, 48]), fn_b_world\<lparr>script := [Ok 0, Ok 0]\<rparr>)"
    using q by (simp add: recv_peek_def sys_status_def next_answer_def fn_b_world_def)
  have i: "ioctl_fionread 5 (fn_b_world\<lparr>script := [Ok 0, Ok 0]\<rparr>) = ((0, 53), fn_b_world\<lparr>script := [Ok 0]\<rparr>)"
    using q by (simp add: ioctl_fionread_def sys_status_def next_answer_def fn_b_world_def)
  have r: "be16 0 48 = 48" by (simp add: be16_def)
  show ?thesis
    by (subst tls_record_ready.simps) (simp add: p i r tlspeek_sizes Let_def)
qed

lemma fn_b_export: "gw_export_live_serial echo_ssl 0 (fn_b_world\<lparr>script := [Ok 0]\<rparr>) = ((0, fn_b_serial), fn_b_world\<lparr>script := [Ok 0]\<rparr>)"
proof -
  have "\<not> strstr_found (cs ''TLS_AES_256_GCM_SHA384'') (cs ''CHACHA20'')"
    "\<not> strstr_found (cs ''TLS_AES_256_GCM_SHA384'') (cs ''AES-128'')" by code_simp+
  then show ?thesis
    by (simp add: gw_export_live_serial_def ssl_query_def wolfSSL_tls_export_def echo_ssl_def fn_b_world_def
        set_serial_cipher_from_name_def fn_b_serial_def put_blob_def zero_serial_def overwrite_full)
qed

lemma fn_b_peek:
  "\<exists>w'. progressive_peek_owner clear_crypto 5 fn_b_serial 8192 BENCH2_KA_TARGET_LEN (fn_b_world\<lparr>script := [Ok 0]\<rparr>)
          = ((0, cs ''fn-b'', Some fn_b_request), w')"
proof -
  let ?w = "fn_b_world\<lparr>script := [Ok 0]\<rparr>"
  have wf: "serial_wf fn_b_serial" "ser_cipher_suite fn_b_serial = TLSPEEK_AES_256_GCM" "ser_magic fn_b_serial = TLSPEEK_MAGIC"
    "ser_client_write_key fn_b_serial = zeros 32" "ser_client_write_iv fn_b_serial = zeros 12" "ser_read_seq_num fn_b_serial = 0"
    by (simp_all add: fn_b_serial_def serial_wf_def put_blob_def zero_serial_def)
  have l: "length fn_b_request = 31" by (simp add: fn_b_request_def cs_def)
  have "serial_view clear_crypto fn_b_serial (rxq ?w 5) = Some fn_b_request"
    using serial_view_client_record [OF clear_crypto_inverse wf(1) _ wf(2), of fn_b_request "[]"] l wf(4-6)
    by (simp add: fn_b_world_def)
  then have p: "fst (tls_read_peek clear_crypto (serial_ctx 5 fn_b_serial) 256 ?w) = (31, fn_b_request)"
    using serial_peek [OF clear_crypto_lengths, of 256 ?w 5 fn_b_serial] l by (simp add: sys_status_def next_answer_def)
  then show ?thesis
    using wf(3) fn_b_owner
    by (simp add: progressive_peek_owner_def gw_peek_window_eq [of clear_crypto 5] BENCH2_KA_TARGET_LEN_def split_beta)
qed

lemma fn_b_step:
  "\<exists>out conn' w'. bench2gw_conn_step echo_ssl clear_crypto True 8192 True (Some fn_b_conn) fn_b_world = (out, conn', w')
     \<and> go_ret out = 1"
proof -
  obtain w' where "progressive_peek_owner clear_crypto 5 fn_b_serial 8192 BENCH2_KA_TARGET_LEN (fn_b_world\<lparr>script := [Ok 0]\<rparr>)
          = ((0, cs ''fn-b'', Some fn_b_request), w')" using fn_b_peek by blast
  then show ?thesis
    by (simp add: bench2gw_conn_step_def conn_peek_def fn_b_conn_def fn_b_ready fn_b_export)
qed

subsection \<open>Properties\<close>

text \<open>
  C8. Whatever the clients do and in whatever order epoll reports them, each descriptor the gateway has open beyond those it
  started with belongs to exactly one pending connection, each wolfSSL session beyond those it started with to exactly one,
  and each pending connection has both: a connection that failed, was hung up or was passed on, delivered or
  not, leaves neither.  No freed session is used, and no descriptor is closed twice.
\<close>

theorem event_gateway_owns_every_connection:
  assumes "fd_wf w" and "ssl_wf w" and "gw_run L C sz dest lfd evs (\<lambda>_. None, w) = (t, w')"
  shows "set (fds w') = set (fds w) \<union> dom t \<and> set (fds w) \<inter> dom t = {} \<and> distinct (fds w')
       \<and> one_owner (gw_holder (live w) t) (live w')
       \<and> (\<forall>fd c. t fd = Some c \<longrightarrow> gc_fd c = fd \<and> (\<exists>p. gc_ssl c = Some p) \<and> gc_state c \<noteq> CONN_DONE)
       \<and> ub w' = ub w \<and> bad_closes (log w') = bad_closes (log w)"
proof -
  have i: "gw_inv (set (fds w)) (live w) t w'" and c: "clean w w'"
    using gw_run_inv [OF gw_inv_start [OF assms(1,2)] assms(3)] by blast+
  from i have "\<forall>fd c. t fd = Some c \<longrightarrow> gc_fd c = fd \<and> gc_ssl c \<noteq> None \<and> gc_state c \<noteq> CONN_DONE"
    unfolding gw_inv_def by blast
  with i c show ?thesis unfolding gw_inv_def clean_def fd_wf_def by (auto simp del: not_None_eq)
qed

theorem event_gateway_owns_every_connection_witness:
  "let (t, w') = gw_run echo_ssl clear_crypto 8192 (\<lambda>_ _. None) 4 [GwAccept True, GwReady 0]
                   (\<lambda>_. None, boot [Ok 0, Ok 0, Ok 0, Ok 0, Ok 0, Err WANT_READ])
   in set (fds w') = dom t \<and> one_owner (gw_holder {} t) (live w') \<and> dom t = {0}"
proof -
  let ?W = "boot [Ok 0, Ok 0, Ok 0, Ok 0, Ok 0, Err WANT_READ] :: bytes world"
  obtain t w' where r: "gw_run echo_ssl clear_crypto 8192 (\<lambda>_ _. None) 4 [GwAccept True, GwReady 0] (\<lambda>_. None, ?W) = (t, w')"
    by fastforce
  then obtain c where "t = [0 \<mapsto> c]"
    by (auto simp: gw_run_def bench2gw_accept_start_def sys_newfd_def next_answer_def lowest_free_def sys_alloc_def sys_status_def
        wolfSSL_new_def wolfSSL_set_fd_def ssl_modify_def unix_set_nonblocking_def sys_value_def emit_def boot_def
        bench2gw_conn_step_def conn_handshake_def wolfSSL_accept_def gw_ret_def echo_ssl_def Let_def split_beta
        simp del: run_callbacks.simps)
  then have "dom t = {0}" by simp
  with event_gateway_owns_every_connection [OF _ _ r] show ?thesis
    by (simp add: r fd_wf_def ssl_wf_def)
qed

text \<open>
  C3. The way of a connection in the benchmark.  When a step of the gateway completes, the payload names the function of the
  first request in the client's first record, which stays on the socket, and carries the session as it was exported;
  when the gateway's message arrives at a worker, in any pieces, and no call of the worker fails, the worker has a new
  session on the connection with exactly this payload, and its wolfSSL session is the import of what the
  gateway's wolfSSL exported.
\<close>

theorem event_connection_reaches_worker:
  fixes L L' :: "'s wolfssl"
  assumes "bench2gw_conn_step L C True sz True (Some conn) w = (out, conn', w1)" and "go_ret out = 1"
    and "gc_ssl conn = Some p" and "ssls w p = Some s" and "aead_lengths C"
    and "ws_export L (gw_session L conn w s) = (e, blob)" and "length blob \<le> 16384"
    and "d @ concat (map piece ps) = payload_bytes (the (go_payload out))" and "d \<noteq> []" and "Some [] \<notin> set ps"
    and "ps = [] \<or> last ps \<noteq> None"
    and "script v = Msg d (Some fd_cmsg) False # map arrival ps @ replicate 7 (Ok 0) @ as"
    and "s_handoffs t c = Some \<lparr>hc_fd = c, hc_client_fd = -1, hc_data = []\<rparr>" and "0 \<le> c" "c < WORKER_MAX_FDS"
    and "f = lowest_free (fds v)" "f < WORKER_MAX_FDS"
    and "ws_import L' blob (ws_set_fd L' f (ws_fresh L')) = (i, s')" and "0 < i"
  shows "\<exists>pl r owner v'. go_payload out = Some pl
       \<and> serial_view C (pl_serial pl) (rxq w (gc_fd conn)) = Some r
       \<and> b2_parse_request_owner (take sz r) BENCH2_KA_TARGET_LEN = Some owner \<and> pl_target_function pl = put_cstr 128 owner
       \<and> fold (\<lambda>_ (t, w). handle_handoff_fd L' F c t w) (Some d # ps) (t, v) =
           (put_session f (Some (fresh_session F f (next_ssl v) pl)) (put_handoff c None t), v')
       \<and> ssls v' = (ssls v)(next_ssl v \<mapsto> ws_set_fd L' f s')"
proof -
  have bl: "length (snd (ws_export L (gw_session L conn w s))) \<le> 16384" using assms(6,7) by simp
  obtain pl r owner where pl: "go_payload out = Some pl" "pl_magic pl = BENCH2_KA_MAGIC" "pl_version pl = BENCH2_KA_VERSION"
      "payload_wf pl" "gw_exports L (gw_session L conn w s) (pl_serial pl)"
    and r: "serial_view C (pl_serial pl) (rxq w (gc_fd conn)) = Some r"
      "b2_parse_request_owner (take sz r) BENCH2_KA_TARGET_LEN = Some owner" "pl_target_function pl = put_cstr 128 owner"
    using conn_step_done [OF assms(1-5) bl] by blast
  let ?u = "v\<lparr>fds := f # fds v, script := replicate 7 (Ok 0) @ as, errno := if None \<in> set ps then EAGAIN else errno v\<rparr>"
  let ?v = "close c (epoll_del c ?u)"
  have h: "fold (\<lambda>_ (t, w). handle_handoff_fd L' F c t w) (Some d # ps) (t, v) =
      register_client_fd L' F f pl (put_handoff c None t) ?v"
    using handover_pieces [OF pl(4) assms(8) [unfolded pl(1) option.sel] assms(9-15), of L' F] assms(16) by simp
  have e: "epoll_del c ?u = emit (EvEpollDel c) (?u\<lparr>script := replicate 6 (Ok 0) @ as\<rparr>)"
    by (simp add: epoll_del_def sys_status_def next_answer_def eval_nat_numeral)
  have sc: "script ?v = replicate 6 (Ok 0) @ as" "next_ssl ?v = next_ssl v" "ssls ?v = ssls v"
    unfolding e by (simp_all add: close_def emit_def)
  have m: "ser_magic (pl_serial pl) = TLSPEEK_MAGIC" using pl(5) by (simp add: gw_exports_def)
  have im: "ws_import L' (take (unat (ser_blob_sz (pl_serial pl))) (ser_tls_blob (pl_serial pl))) (ws_set_fd L' f (ws_fresh L'))
      = (i, s')"
    using gw_exports_blob [OF pl(5) bl] assms(6,18) by simp
  have f: "0 \<le> f" using assms(16) lowest_free_nonneg by simp
  from register_client_ok [OF sc(1) pl(2,3) m f assms(17) im assms(19), of F "put_handoff c None t"] sc h pl(1) r
  show ?thesis by auto
qed

theorem event_connection_reaches_worker_witness:
  "\<exists>pl owner v'. go_payload (fst (bench2gw_conn_step echo_ssl clear_crypto True 8192 True (Some fn_b_conn) fn_b_world)) = Some pl
     \<and> pl_target_function pl = put_cstr 128 owner
     \<and> handle_handoff_fd echo_ssl whole_numbers_lit 2
         (put_handoff 2 (Some \<lparr>hc_fd = 2, hc_client_fd = -1, hc_data = []\<rparr>) no_tables)
         (boot (Msg (payload_bytes pl) (Some fd_cmsg) False # replicate 7 (Ok 0)))
       = (put_session 0 (Some (fresh_session whole_numbers_lit 0 0 pl)) no_tables, v') \<and> ssls v' = [0 \<mapsto> [9]]"
proof -
  let ?h = "\<lparr>hc_fd = 2, hc_client_fd = -1, hc_data = []\<rparr>"
  obtain out conn' w' where
    st: "bench2gw_conn_step echo_ssl clear_crypto True 8192 True (Some fn_b_conn) fn_b_world = (out, conn', w')" "go_ret out = 1"
    using fn_b_step by blast
  let ?d = "payload_bytes (the (go_payload out))"
  let ?v = "boot (Msg ?d (Some fd_cmsg) False # replicate 7 (Ok 0)) :: bytes world"
  have c: "gc_ssl fn_b_conn = Some 0" "ssls fn_b_world 0 = Some [9]" "ws_export echo_ssl (gw_session echo_ssl fn_b_conn fn_b_world [9]) = (1, [9])"
    "length [9 :: byte] \<le> 16384" by (simp_all add: fn_b_conn_def fn_b_world_def gw_session_def echo_ssl_def)
  have d: "?d @ concat (map piece []) = ?d" "?d \<noteq> []" "Some [] \<notin> set ([] :: bytes option list)"
    "[] = [] \<or> last ([] :: bytes option list) \<noteq> None" by (simp_all add: payload_bytes_nonempty)
  have v: "script ?v = Msg ?d (Some fd_cmsg) False # map arrival [] @ replicate 7 (Ok 0) @ []" by simp
  have t: "s_handoffs (put_handoff 2 (Some ?h) (no_tables :: nat ew_tables)) 2 = Some ?h" "(0 :: int) \<le> 2" "(2 :: int) < WORKER_MAX_FDS"
    by (simp_all add: WORKER_MAX_FDS_def)
  have f: "0 = lowest_free (fds ?v)" "(0 :: int) < WORKER_MAX_FDS" by (simp_all add: lowest_free_def WORKER_MAX_FDS_def)
  have i: "ws_import echo_ssl [9] (ws_set_fd echo_ssl 0 (ws_fresh echo_ssl)) = (1, [9])" "(0 :: int) < 1" by (simp_all add: echo_ssl_def)
  have n: "put_handoff 2 None no_tables = (no_tables :: nat ew_tables)" by (simp add: no_tables_def fun_eq_iff)
  from event_connection_reaches_worker [OF st c(1,2) clear_crypto_lengths c(3,4) d v t f i, of whole_numbers_lit]
  obtain pl owner v' where "go_payload out = Some pl" "pl_target_function pl = put_cstr 128 owner"
    "handle_handoff_fd echo_ssl whole_numbers_lit 2 (put_handoff 2 (Some ?h) no_tables) ?v =
       (put_session 0 (Some (fresh_session whole_numbers_lit 0 0 pl)) no_tables, v')"
    "ssls v' = [0 \<mapsto> ws_set_fd echo_ssl 0 [9]]"
    by (auto simp: n)
  with st(1) show ?thesis by (auto simp: echo_ssl_def)
qed

end
