(* ===== verification/Spec2Isabelle.thy ===== *)
theory Spec2Isabelle
  imports Gateway Worker Startup FnStart HelloWorker OldStart Watchdog EventGateway
begin

text \<open>
  Verification of a function-as-a-service gateway that peeks at the first request of a TLS connection
  without consuming it, chooses the worker, and passes the live connection, with its TLS session, over a
  Unix socket to that worker; and of the workers that restore the session and serve the request
  (\<^verbatim>\<open>src/libtlspeek\<close>, \<^verbatim>\<open>src/prototype\<close>).

  \<^bold>\<open>Parts of the program and how they interact.\<close>
  A client's TLS handshake runs in the gateway (\<^verbatim>\<open>libtlspeek/gateway/gateway.c\<close>, or in the prototype
  \<^verbatim>\<open>tlsmigratekeepalive.c\<close> called from Go).  A callback of wolfSSL hands it the traffic secrets, from which
  \<^verbatim>\<open>libtlspeek/lib\<close> derives the record keys; \<^verbatim>\<open>tls_read_peek\<close> then opens the first record on the socket with
  \<^verbatim>\<open>MSG_PEEK\<close>.  The router picks the worker, the session is exported into a structure, and descriptor and
  structure go to the worker (\<^verbatim>\<open>libtlspeek/common\<close>).  The worker imports the session and answers on it.  The
  keep-alive worker of the prototype peeks the owner of every further request on the connection and
  relays the connection to the gateway when it is another function's.

  \<^bold>\<open>Theories.\<close>
  \<^item> \<open>Prelude\<close>: C strings and the string functions the code uses, decimal printing and \<^verbatim>\<open>strtoll\<close>, list lemmas.
  \<^item> \<open>Posix\<close>: the environment.  A world holds the descriptor table, the receive queues, the session store
    and an event log; every answer that is not the program's to choose (success or failure of a call, data,
    time) comes from a script, so that a theorem for every script is one for every behaviour of kernel,
    peer and library.  Undefined behaviour is a flag.  wolfSSL is a parameter, a record of functions.
  \<^item> \<open>TlsCrypto\<close> (\<^verbatim>\<open>lib/tlspeek_crypto.c\<close>): nonce, AEAD wrappers, HKDF label; wolfCrypt is a parameter.
  \<^item> \<open>TlsPeek\<close> (\<^verbatim>\<open>lib/tlspeek.c\<close>): the context, the secret callback, the stateless peek, and its refinement of an
    abstract view of the queue (\<open>peek_record\<close>).
  \<^item> \<open>TlsSerial\<close> (\<^verbatim>\<open>lib/tlspeek_serial.c\<close>, \<^verbatim>\<open>tlspeek.h\<close>): the structure that travels, its 24648 bytes, export and restore.
  \<^item> \<open>SendFd\<close> (\<^verbatim>\<open>common/sendfd.c\<close>, \<^verbatim>\<open>common/unix_socket.c\<close>): passing descriptors.  The locale \<open>fd_handoff\<close> is the
    contract of an operation that gives a descriptor away; it is interpreted on the gateway library's
    \<^verbatim>\<open>send_fd\<close> and on the worker's \<^verbatim>\<open>relay_to_gateway\<close>.  The loops of the function workers assume of a message
    only \<open>one_descriptor\<close>: it carries at most one descriptor; any receive may fail, end or bring a part.
  \<^item> \<open>Gateway\<close> (\<^verbatim>\<open>gateway.c\<close>, \<^verbatim>\<open>router.c\<close>) and \<open>Worker\<close> (\<^verbatim>\<open>worker.c\<close>, \<^verbatim>\<open>handler.c\<close>): the handlers, the event loops as
    step relations, the table of connections with its invariant.
  \<^item> \<open>HttpScan\<close>: the header scanners of the three function workers; the locales \<open>header_scan\<close> and
    \<open>owner_parser\<close> are their contracts, interpreted on each scanner that keeps them.
  \<^item> \<open>KaGateway\<close> (\<^verbatim>\<open>tlsmigratekeepalive.c\<close>), \<open>FnIo\<close> (loops the function workers share), \<open>KaWorker\<close>
    (\<^verbatim>\<open>timing_fn_keepalive_worker.c\<close>) and \<open>TmWorker\<close> (\<^verbatim>\<open>timing_fn_worker.c\<close>): the prototype.  The keep-alive worker
    closes a client twice when its relay fails; \<open>session_failed_relays\<close> counts those, and the steps of its loop carry the number.
  \<^item> \<open>Startup\<close>: the \<^verbatim>\<open>main\<close> functions of \<^verbatim>\<open>gateway.c\<close> and \<^verbatim>\<open>worker.c\<close> up to their loops, and the pool of children.
    \<open>FnStart\<close>: those of the two function workers, from the environment variables to the listener, with their loops from the
    start on, and the context of the gateway library.  \<open>OldStart\<close>: those of the earlier servers below.
  \<^item> \<open>HotPotato\<close> (\<^verbatim>\<open>faad_optimization-Romero_New\<close>): the predecessor, whose workers serve a connection until
    a request names the other function and then pass it back.  \<open>HelloWorker\<close>: its first worker (\<^verbatim>\<open>worker.c\<close>), with
    the path of its socket as an argument, because the file uses a constant that nothing defines.
  \<^item> \<open>SniGateway\<close> and \<open>PerfWorker\<close> (\<^verbatim>\<open>Performance_old\<close>): the first prototype.  Its gateway passes on the connection
    before the handshake and routes by the server name of the ClientHello; \<open>client_hello\<close> and \<open>hello_bytes\<close> say
    what a client sends.  The HTTP parser these programs link is a parameter, the record \<open>http_parser\<close>.
  \<^item> \<open>KeepAlive\<close>: the contract of a loop that answers the requests of a connection, the locale \<open>keepalive_loop\<close>,
    interpreted on the loops of \<open>PerfWorker\<close> and \<open>EvalServers\<close>.
  \<^item> \<open>EvalServers\<close> (\<^verbatim>\<open>Eval_perf\<close>): the servers of the evaluation.  The map of the direct TLS server is read as a table
    of the worker (\<open>table_of\<close>), so that the worker's invariant and its lemmas serve both.
  \<^item> \<open>EventSession\<close> and \<open>EventWorker\<close> (\<^verbatim>\<open>bench2_proto_worker.c\<close> of the max-throughput benchmark): the keep-alive worker as
    one event loop over any number of connections.  The first holds the state machine of one session
    (\<open>session_advance\<close>) and receiving a hand-over in pieces (\<open>handoff_recv_nb\<close>), the second the tables, the dispatch of
    events, the start, and the loop (\<open>ew_step\<close>).  Its invariant says which part of the worker owns each descriptor and
    each wolfSSL session (\<open>one_owner\<close>); each operation moves ownership by one of a few transfer lemmas.
  \<^item> \<open>EventGateway\<close> (\<^verbatim>\<open>bench2gw.c\<close> of the same benchmark): the gateway library of that worker.  A connection is a state
    machine that its Go caller drives (\<open>bench2gw_conn_step\<close>); the calls for one event are \<open>gw_call\<close>.  Its lemmas say who owns
    what, and follow a connection from the gateway into the worker's table.
  \<^item> \<open>Watchdog\<close> (\<^verbatim>\<open>test2-faasd-end-to-end-*-watchdog\<close>): the two functions of the end-to-end tests, which add two numbers.

  \<^bold>\<open>What the lemmas show.\<close>
  In this file: the way of a request from the gateway to its worker, the way of a connection from the keep-alive gateway to
  the function that answers it, and the framing of the answers.  In the component theories: functional behaviour on every branch; resource
  safety of every handler (sessions freed, descriptors closed or handed over exactly once, no freed session used,
  no buffer overrun) and its lifting to the reachable states of the loops; round trips of the wire formats
  and of printed headers; the peek as a refinement; agreement of duplicated scanners; termination and progress of the
  loops; and the places where the code does not do what it means to, as theorems of their own.

  \<^bold>\<open>Bounds and termination.\<close>
  A loop that waits for the network uses up an answer of the script in each round, and its recursion is justified by the
  number of answers left: an exhausted script fails every call, so a loop that spins on retries for ever
  corresponds to an endless supply of retry answers.  Progress is stated for scripts that move bytes
  (\<open>session_loops_complete\<close> in \<open>FnIo\<close>).  The doubling of the receive buffer may fail to end from capacity 0 and is a
  \<open>partial_function\<close>; that it returns is proved for the capacities that occur.  There is no fuel.
  Machine integers are words where they can wrap (sequence numbers, buffer capacities, lengths on the wire, times)
  and integers or naturals where the code bounds them.

  \<^bold>\<open>Not modelled.\<close>
  The wolfSSL context (certificates, callbacks) has no state here beyond whether it could be made; signal dispositions, buffering
  and log output have none.  Reaping of children.  The Go side of the prototype.  The baselines and the other variants of the benchmarks,
  and the load generators.  \<^verbatim>\<open>CMakeCCompilerId.c\<close> is generated by the build, \<^verbatim>\<open>test_tlspeek.c\<close> is a
  test driver.
\<close>

subsection \<open>From the gateway to the worker\<close>

text \<open>What the worker reads when the whole structure arrives.\<close>

lemma gw_serial_received:
  "ctx_wf ctx \<Longrightarrow> length blob \<le> 16384 \<Longrightarrow> bytes_serial (serial_bytes (gw_serial ctx blob)) = gw_serial ctx blob"
  by (intro bytes_serial_serial_bytes gw_serial_wf)

lemma gw_serial_restores:
  assumes "length blob \<le> 16384"
  shows "tlspeek_restore L q (gw_serial ctx blob) v =
           (if fst (wolfSSL_tls_import L q blob v) \<le> 0 then -1 else 0, snd (wolfSSL_tls_import L q blob v))"
proof -
  have l: "unat (of_nat (length blob) :: u32) = length blob"
    using assms by (simp add: unat_of_nat take_bit_nat_eq_self)
  have b: "take (length blob) (overwrite (ser_tls_blob zero_serial) blob) = blob" by simp
  show ?thesis
    using l b assms
    by (simp add: tlspeek_restore_def gw_serial_def TLSPEEK_MAX_EXPORT_SZ_def flag_ub_False split_beta Let_def)
qed

text \<open>
  C1. The way of a request.  When the gateway sees a request, the worker's socket accepts the connection and the
  kernel takes the message, the gateway connects to the socket of the worker the router names, sends the
  connection with the whole serialised session on it, and closes both of its descriptors.  A worker that
  receives this message whole migrates the connection, under a new number, with exactly the structure that was
  sent: restoring it imports exactly the exported session, and a peek context built from it sees the queue
  as the gateway saw it.
\<close>

theorem request_reaches_its_worker:
  fixes L L' :: "'s wolfssl" and n :: int
  assumes "fst (tls_read_peek C ctx 8191 w) = (int (length r), r)" and "r \<noteq> []"
    and "ssls w p = Some s" and "ws_export L s = (e, blob)" and "0 \<le> e" and "length blob \<le> 16384"
    and "ctx_wf ctx" and "fd \<in> set (fds w)" and "0 \<le> fd'"
    and "k = (let wid = route_request (Some r) (int (length r)) in if wid < 0 \<or> n \<le> wid then 0 else wid)"
    and "u = gw_before_transfer L C p ctx w" and "0 \<le> fst (unix_client_connect (gw_sock_path k) u)"
    and "fst (next_answer (snd (unix_client_connect (gw_sock_path k) u))) = Ok m" and "int SIZEOF_serial \<le> m"
    and "d = serial_bytes (gw_serial ctx blob)"
    and "script v = Ok 0 # Msg d (Some fd_cmsg) False # as"
  shows "(\<exists>uds. log (gw_route_and_transfer L C fd n p ctx w) =
            [EvClose uds, EvClose fd, EvSendFd uds fd d, EvConnect uds (sun_path (gw_sock_path k))] @ log u)
       \<and> (\<exists>f x. f \<notin> set (fds v) \<and> fds x = f # fds v \<and> live x = live v
            \<and> wk_accept_round L' F wid cl v =
                (case wk_migrate L' f (bytes_serial d) cl x of
                   (keep, cl', x') \<Rightarrow> (True, cl', if keep then epoll_add f x' else x')))
       \<and> tlspeek_restore L' q (bytes_serial d) y =
           (if fst (wolfSSL_tls_import L' q blob y) \<le> 0 then -1 else 0, snd (wolfSSL_tls_import L' q blob y))
       \<and> (\<exists>ctx'. tlspeek_restore_peek_ctx fd' (Some (bytes_serial d)) = (0, Some ctx')
            \<and> tcp_fd ctx' = fd' \<and> peek_record C ctx' = peek_record C ctx)"
proof -
  have fds: "fd \<in> set (fds u)" using assms(8,11) gw_before_transfer_frame(1) [of L C p ctx w] by simp
  have len: "length d = SIZEOF_serial" unfolding assms(15) by (rule length_serial_bytes [OF gw_serial_wf [OF assms(7,6)]])
  have whole: "take (nat m) d = d" "0 \<le> m" using assms(14) len by simp_all
  have g: "gw_route_and_transfer L C fd n p ctx w = gw_transfer fd k (gw_serial ctx blob) u"
    using gw_request_routed [OF assms(1-5), of fd n] assms(10,11) by simp
  have "\<exists>uds. log (gw_transfer fd k (gw_serial ctx blob) u) =
            [EvClose uds, EvClose fd, EvSendFd uds fd d, EvConnect uds (sun_path (gw_sock_path k))] @ log u"
    using gw_transfer_sent_log [OF assms(12) fds whole(2) assms(13), of "gw_serial ctx blob"] whole(1)
    unfolding assms(15) [symmetric] by auto
  moreover have "bytes_serial d = gw_serial ctx blob" unfolding assms(15) by (rule gw_serial_received [OF assms(7,6)])
  ultimately show ?thesis
    using wk_accepts_message [OF len assms(16), of L' F wid cl] gw_serial_restores [OF assms(6), of L' q ctx y]
      gw_serial_peek_ctx [OF assms(9), of ctx blob C]
    unfolding g by auto
qed

text \<open>A connection whose request names the function of the second worker.\<close>

definition compute_request :: bytes where "compute_request = cs ''GET /function/compute''"

definition compute_world :: "bytes world" where
  "compute_world = (boot [Ok 0, Ok 0, Ok 0, Ok 30000])\<lparr>fds := [5],
     rxq := (\<lambda>_. client_record clear_seal (zeros 32) (zeros 12) 0 compute_request),
     ssls := [0 \<mapsto> [9]], next_ssl := 1\<rparr>"

theorem request_reaches_its_worker_witness:
  "\<exists>uds. log (gw_route_and_transfer echo_ssl clear_crypto 5 2 0 ready_ctx compute_world) =
     [EvClose uds, EvClose 5, EvSendFd uds 5 (serial_bytes (gw_serial ready_ctx [9])),
      EvConnect uds (sun_path (gw_sock_path 1))]
     @ log (gw_before_transfer echo_ssl clear_crypto 0 ready_ctx compute_world)"
proof -
  have st: "sys_status compute_world = (0, compute_world\<lparr>script := [Ok 0, Ok 0, Ok 30000]\<rparr>)"
    by (simp add: sys_status_def next_answer_def compute_world_def)
  have rec: "peek_record clear_crypto ready_ctx (rxq compute_world (tcp_fd ready_ctx)) = Some compute_request"
    using peek_client_record [OF clear_crypto_inverse, of ready_ctx compute_request "[]"]
    by (simp add: compute_world_def compute_request_def)
  have pk: "fst (tls_read_peek clear_crypto ready_ctx 8191 compute_world) =
      (int (length compute_request), compute_request)"
    using tls_read_peek_refines [OF clear_crypto_lengths, of ready_ctx 8191 compute_world] rec
    by (simp add: st) (simp add: compute_request_def)
  have pw: "snd (tls_read_peek clear_crypto ready_ctx 8191 compute_world) = compute_world\<lparr>script := [Ok 0, Ok 0, Ok 30000]\<rparr>"
    by (simp add: tls_read_peek_unfold Let_def st split: option.split)
  have k: "1 = (let wid = route_request (Some compute_request) (int (length compute_request))
      in if wid < 0 \<or> 2 \<le> wid then 0 else wid)"
    by (simp add: compute_request_def cs_def route_request_def strstr_found_def strstr_def cstr_def)
  let ?b = "gw_before_transfer echo_ssl clear_crypto 0 ready_ctx compute_world"
  have "script ?b = [Ok 0, Ok 0, Ok 30000]"
    unfolding gw_before_transfer_def pw
    by (simp add: wolfSSL_free_def wolfSSL_set_fd_def wolfSSL_tls_export_def ssl_query_def
        ssl_modify_def emit_def compute_world_def)
  then have con: "0 \<le> fst (unix_client_connect (gw_sock_path 1) ?b)"
    "fst (next_answer (snd (unix_client_connect (gw_sock_path 1) ?b))) = Ok 30000"
    by (simp_all add: unix_client_connect_def sys_newfd_def sys_status_def next_answer_def emit_def split_beta Let_def
        lowest_free_nonneg)
  have "compute_request \<noteq> []" "ssls compute_world 0 = Some [9]" "ws_export echo_ssl [9] = (1, [9])" "(0 :: int) \<le> 1"
    "length [9 :: byte] \<le> 16384" "ctx_wf ready_ctx" "5 \<in> set (fds compute_world)" "(0 :: int) \<le> 5"
    by (simp_all add: compute_request_def compute_world_def echo_ssl_def cs_def)
  note pre = this
  have sz: "int SIZEOF_serial \<le> 30000" by (simp add: SIZEOF_serial_def)
  have sc: "script (boot [Ok 0, Msg (serial_bytes (gw_serial ready_ctx [9])) (Some fd_cmsg) False] :: bytes world) =
      Ok 0 # Msg (serial_bytes (gw_serial ready_ctx [9])) (Some fd_cmsg) False # []" by simp
  show ?thesis using request_reaches_its_worker [OF pk pre k refl con sz refl sc] by blast
qed


subsection \<open>From the gateway library to the keep-alive function\<close>

text \<open>
  C2. The way of a connection in the prototype.  When the gateway library accepts a client and exports its session, then a
  keep-alive worker that receives the payload as a whole does not refuse it: it serves the connection on a new descriptor
  with exactly this payload, and restoring the session from it imports exactly the bytes the gateway's wolfSSL exported.
\<close>

theorem ka_connection_reaches_function:
  assumes "tlsmigratekeepalive_accept_peek_export L C True lfd True sz True w = (r, w1)" and "0 \<le> ao_ret r" and "hkdf_bounded C"
    and "\<forall>s. length (snd (ws_export L s)) \<le> 16384"
    and "script v = Ok 0 # Msg (payload_bytes (the (ao_payload r))) (Some fd_cmsg) False # as"
  shows "\<exists>s pl fd u. ao_payload r = Some pl
       \<and> fd \<notin> set (fds v) \<and> fds u = fd # fds v \<and> live u = live v \<and> script u = as
       \<and> ka_worker_round L' C' name relay v = snd (process_session L' C' fd pl name relay u)
       \<and> (\<forall>q x. tlspeek_restore L' q (pl_serial pl) x =
            (if fst (wolfSSL_tls_import L' q (snd (ws_export L s)) x) \<le> 0 then -1 else 0,
             snd (wolfSSL_tls_import L' q (snd (ws_export L s)) x)))"
proof -
  obtain ctx s where p: "ctx_wf ctx" "ao_payload r = Some (ka_sent_payload ctx (snd (ws_export L s)))"
    using ka_accept_payload [OF assms(1-3)] by blast
  let ?pl = "ka_sent_payload ctx (snd (ws_export L s))"
  have m: "pl_magic ?pl = TLSMIGRATE_KEEPALIVE_MAGIC" "pl_version ?pl = TLSMIGRATE_KEEPALIVE_VERSION"
    by (simp_all add: ka_sent_payload_def ka_fresh_payload_def)
  have "script v = Ok 0 # Msg (payload_bytes ?pl) (Some fd_cmsg) False # as" using assms(5) p(2) by simp
  from ka_worker_serves_message [OF ka_sent_payload_wf [OF p(1) assms(4) [rule_format]] m this, of L' C' name relay]
    ka_sent_payload_restores [OF assms(4) [rule_format]] p(2) show ?thesis by blast
qed

text \<open>A client whose first record asks for the second function; a library that bounds what it exports.\<close>

definition bounded_ssl :: "bytes wolfssl" where
  "bounded_ssl = echo_ssl\<lparr>ws_export := (\<lambda>s. (1, take 16384 s))\<rparr>"

definition peek_world :: "bytes world" where
  "peek_world = (boot [Ok 0, Ok 0, Ok 0, Ok 0, Ok 0, Ok 0])\<lparr>rxq := (\<lambda>_. client_record clear_seal (zeros 32) (zeros 12) 0 compute_request)\<rparr>"

definition peek_ctx0 :: tlspeek_ctx where
  "peek_ctx0 = zero_ctx\<lparr>tcp_fd := 0, ssl := Some 0, keys_ready := 1, cipher_suite := TLSPEEK_AES_256_GCM\<rparr>"

lemma peek_ctx0_callbacks:
  "run_callbacks clear_crypto [(3, zeros 48), (4, zeros 48)] (zero_ctx\<lparr>tcp_fd := 0, ssl := Some 0\<rparr>) = peek_ctx0"
  by (simp add: tlspeek_keylog_cb_def derive_keys_from_raw_secret_def tls13_hkdf_expand_label_def clear_crypto_def peek_ctx0_def
      zero_ctx_def CLIENT_TRAFFIC_SECRET_def SERVER_TRAFFIC_SECRET_def overwrite_full)

lemma peek_world_accepted:
  "ao_ret (fst (tlsmigratekeepalive_accept_peek_export bounded_ssl clear_crypto True 3 True 8192 True peek_world)) = 0"
proof -
  let ?q = "client_record clear_seal (zeros 32) (zeros 12) 0 compute_request"
  define w1 where "w1 = peek_world\<lparr>script := [Ok 0, Ok 0, Ok 0], fds := [0], ssls := [0 \<mapsto> []], next_ssl := 1\<rparr>"
  define c where "c = peek_ctx0\<lparr>cipher_suite := TLSPEEK_AES_256_GCM\<rparr>"
  have n: "sys_newfd peek_world = (0, peek_world\<lparr>script := [Ok 0, Ok 0, Ok 0, Ok 0, Ok 0], fds := [0]\<rparr>)"
    by (simp add: sys_newfd_def next_answer_def lowest_free_def peek_world_def boot_def)
  have nw: "wolfSSL_new bounded_ssl (peek_world\<lparr>script := [Ok 0, Ok 0, Ok 0, Ok 0, Ok 0], fds := [0]\<rparr>)
      = (Some 0, w1\<lparr>script := [Ok 0, Ok 0, Ok 0, Ok 0]\<rparr>)"
    by (simp add: wolfSSL_new_def sys_alloc_def sys_status_def next_answer_def peek_world_def boot_def w1_def bounded_ssl_def
        echo_ssl_def)
  have sf: "wolfSSL_set_fd bounded_ssl 0 0 (w1\<lparr>script := [Ok 0, Ok 0, Ok 0, Ok 0]\<rparr>) = w1\<lparr>script := [Ok 0, Ok 0, Ok 0, Ok 0]\<rparr>"
    by (simp add: wolfSSL_set_fd_def ssl_modify_def w1_def bounded_ssl_def echo_ssl_def)
  have ac: "wolfSSL_accept bounded_ssl 0 (w1\<lparr>script := [Ok 0, Ok 0, Ok 0, Ok 0]\<rparr>) = ((True, ENONE, [(3, zeros 48), (4, zeros 48)]), w1)"
    by (simp add: wolfSSL_accept_def next_answer_def w1_def bounded_ssl_def echo_ssl_def)
  have cn: "ssl_query (ws_cipher_name bounded_ssl) None 0 w1 = (Some (cs ''TLS_AES_256_GCM_SHA384''), w1)"
    by (simp add: ssl_query_def w1_def bounded_ssl_def echo_ssl_def)
  have cc: "set_cipher_suite_from_name (Some (cs ''TLS_AES_256_GCM_SHA384'')) peek_ctx0 = c"
  proof -
    have "\<not> strstr_found (cs ''TLS_AES_256_GCM_SHA384'') (cs ''CHACHA20'')"
      "\<not> strstr_found (cs ''TLS_AES_256_GCM_SHA384'') (cs ''AES-128'')" by code_simp+
    then show ?thesis by (simp add: set_cipher_suite_from_name_def c_def)
  qed
  have cs: "tcp_fd c = 0" "keys_ready c = 1" "ctx_wf c" "client_write_key c = zeros 32" "client_write_iv c = zeros 12"
    "read_seq_num c = 0" "cipher_suite c = TLSPEEK_AES_256_GCM"
    by (simp_all add: c_def peek_ctx0_def zero_ctx_def ctx_wf_def)
  have st: "fst (sys_status w1) = 0" by (simp add: sys_status_def next_answer_def w1_def)
  have rq: "rxq w1 (tcp_fd c) = ?q" by (simp add: w1_def peek_world_def)
  have "peek_record clear_crypto c (rxq w1 (tcp_fd c)) = Some compute_request"
    using peek_client_record [OF clear_crypto_inverse cs(3), of compute_request "[]"] cs rq by (simp add: compute_request_def)
  then have pk: "fst (tls_read_peek clear_crypto c 8192 w1) = (int (length compute_request), compute_request)"
    using tls_read_peek_refines [OF clear_crypto_lengths, of c 8192 w1] cs st by (simp add: compute_request_def)
  have ex: "fst (wolfSSL_tls_export bounded_ssl 0 (snd (tls_read_peek clear_crypto c 8192 w1))) = (1, [])"
  proof -
    have "ssls (snd (tls_read_peek clear_crypto c 8192 w1)) = [0 \<mapsto> []]"
      using tls_read_peek_stateless [of clear_crypto c 8192 w1] by (simp add: w1_def)
    then show ?thesis by (simp add: wolfSSL_tls_export_def ssl_query_def bounded_ssl_def)
  qed
  show ?thesis
    using pk ex
    by (simp add: tlsmigratekeepalive_accept_peek_export_def n nw sf ac peek_ctx0_callbacks ka_peek_export_def cn cc split_beta Let_def
        del: run_callbacks.simps)
      (simp add: peek_ctx0_def compute_request_def cs_def)
qed

theorem ka_connection_reaches_function_witness:
  "\<exists>pl fd u. ao_payload (fst (tlsmigratekeepalive_accept_peek_export bounded_ssl clear_crypto True 3 True 8192 True peek_world)) = Some pl
     \<and> ka_worker_round echo_ssl clear_crypto (cs ''fn-a'') (cs ''/relay'') (boot [Ok 0, Msg (payload_bytes pl) (Some fd_cmsg) False])
       = snd (process_session echo_ssl clear_crypto fd pl (cs ''fn-a'') (cs ''/relay'') u)"
proof -
  obtain r w1 where r: "tlsmigratekeepalive_accept_peek_export bounded_ssl clear_crypto True 3 True 8192 True peek_world = (r, w1)"
    by fastforce
  then have "0 \<le> ao_ret r" using peek_world_accepted by simp
  moreover have "\<forall>s. length (snd (ws_export bounded_ssl s)) \<le> 16384" by (simp add: bounded_ssl_def)
  moreover have "script (boot [Ok 0, Msg (payload_bytes (the (ao_payload r))) (Some fd_cmsg) False] :: bytes world) =
      Ok 0 # Msg (payload_bytes (the (ao_payload r))) (Some fd_cmsg) False # []" by simp
  ultimately show ?thesis
    using ka_connection_reaches_function [OF r _ clear_crypto_hkdf, of _ "[]" echo_ssl clear_crypto "cs ''fn-a''" "cs ''/relay''"] r
    by fastforce
qed

subsection \<open>What the client reads\<close>

text \<open>
  C37. The answers of both function workers are framed: the first blank line ends the header, what follows
  is the JSON text, and the Content-Length in the header is its length.
\<close>

theorem answers_are_framed:
  assumes "int (length json) \<le> LLONG_MAX"
  shows "(\<exists>h. find_subseq (ka_response m json) (crlf @ crlf) + 4 = int h \<and> drop h (ka_response m json) = json
            \<and> ka_parse_content_length (ka_response m json) h = int (length json))
       \<and> (\<exists>h. find_subseq (tm_response json) (crlf @ crlf) + 4 = int h \<and> drop h (tm_response json) = json
            \<and> ka_parse_content_length (tm_response json) h = int (length json))"
proof -
  let ?c = "if should_close m then cs ''close'' else cs ''keep-alive''"
  have "CR \<notin> set ?c" "CR \<notin> set (cs ''close'')" by (auto simp: cs_def)
  moreover have "tm_response json = cs ''HTTP/1.1 200 OK'' @ crlf @ cs ''Content-Type: application/json'' @ crlf
      @ cs ''Content-Length: '' @ dec_digits (length json) @ crlf @ cs ''Connection: '' @ cs ''close'' @ crlf @ crlf @ json"
    by (simp add: tm_response_def cs_def)
  ultimately show ?thesis
    using answer_framed [OF _ assms ka_response_def [of m json]] answer_framed [OF _ assms] by blast
qed

theorem answers_are_framed_witness:
  "\<exists>h. drop h (tm_response (cs ''{}'')) = cs ''{}'' \<and> ka_parse_content_length (tm_response (cs ''{}'')) h = 2"
  using answers_are_framed [of "cs ''{}''"] by (auto simp: LLONG_MAX_def)

end
